(* ===== verification/Nachos_Prelude.thy ===== *)
theory Nachos_Prelude
  imports Main "HOL-Library.Word" "HOL-Library.Monad_Syntax"
begin

text \<open>
  The prelude of the Nachos development: the ways in which kernel code can fail, the
  integer macros of \<^verbatim>\<open>threads/utility.h\<close>, and the facts on options, lists and arrays
  that the component theories share.

  \<^item> \<open>nerror\<close> and \<open>'a result\<close>: an \<^verbatim>\<open>ASSERT\<close> that fails prints a message and aborts the
    whole simulator, so an operation that asserts returns \<open>Inl Assertion\<close>; a read or write
    outside an array is \<open>Inl OutOfBounds\<close>, a sum of \<^verbatim>\<open>int\<close>s that leaves their range is
    \<open>Inl SignedOverflow\<close>, and a second \<^verbatim>\<open>delete\<close> of an object is \<open>Inl UseAfterFree\<close>.
  \<^item> \<open>result_inv\<close> collects the rules that invert an operation which returned no error, so
    that a component proof takes an operation apart by \<open>auto simp: result_inv\<close>.
\<close>

named_theorems result_inv \<open>inversion of operations that returned no error\<close>

section \<open>Failures as values\<close>

datatype nerror = Assertion | OutOfBounds | SignedOverflow | UseAfterFree

type_synonym 'a result = "nerror + 'a"

definition ASSERT :: "bool \<Rightarrow> 'a result \<Rightarrow> 'a result" where
  "ASSERT condition k = (if condition then k else Inl Assertion)"

lemma ASSERT_True [simp]: "ASSERT True k = k"
  by (simp add: ASSERT_def)

lemma ASSERT_False [simp]: "ASSERT False k = Inl Assertion"
  by (simp add: ASSERT_def)

lemma ASSERT_Inr_iff: "ASSERT c k = Inr x \<longleftrightarrow> c \<and> k = Inr x"
  by (simp add: ASSERT_def)

definition rbind :: "'a result \<Rightarrow> ('a \<Rightarrow> 'b result) \<Rightarrow> 'b result" where
  "rbind r f = (case r of Inl e \<Rightarrow> Inl e | Inr x \<Rightarrow> f x)"

lemma rbind_Inl [simp]: "rbind (Inl e) f = Inl e"
  by (simp add: rbind_def)

lemma rbind_Inr [simp]: "rbind (Inr x) f = f x"
  by (simp add: rbind_def)

lemma rbind_Inr_iff [result_inv]: "rbind r f = Inr y \<longleftrightarrow> (\<exists>x. r = Inr x \<and> f x = Inr y)"
  by (cases r) auto

section \<open>Integer macros\<close>

definition divRoundDown :: "nat \<Rightarrow> nat \<Rightarrow> nat" where
  "divRoundDown n s = n div s"

definition divRoundUp :: "nat \<Rightarrow> nat \<Rightarrow> nat" where
  "divRoundUp n s = n div s + (if n mod s > 0 then 1 else 0)"

lemma divRoundUp_ge:
  assumes "0 < s"
  shows "n \<le> divRoundUp n s * s"
proof -
  have n: "n div s * s + n mod s = n" by simp
  show ?thesis
  proof (cases "n mod s > 0")
    case True
    then have "divRoundUp n s * s = n div s * s + s"
      by (simp add: divRoundUp_def)
    moreover have "n mod s < s" using assms by simp
    ultimately show ?thesis using n by linarith
  next
    case False
    with n have "divRoundUp n s * s = n" by (auto simp: divRoundUp_def)
    then show ?thesis by simp
  qed
qed

lemma divRoundUp_le_iff:
  assumes "0 < s"
  shows "divRoundUp n s \<le> m \<longleftrightarrow> n \<le> m * s"
proof
  assume "divRoundUp n s \<le> m"
  with divRoundUp_ge [OF assms, of n] show "n \<le> m * s"
    by (meson le_trans mult_le_mono1)
next
  assume le: "n \<le> m * s"
  show "divRoundUp n s \<le> m"
  proof (cases "n mod s > 0")
    case True
    have "n div s < m"
    proof (rule ccontr)
      assume "\<not> n div s < m"
      then have "m * s \<le> n div s * s" by simp
      moreover have "n div s * s + n mod s = n" by simp
      ultimately show False using le True by linarith
    qed
    with True show ?thesis by (simp add: divRoundUp_def)
  next
    case False
    with le assms show ?thesis
      by (metis add.right_neutral divRoundUp_def div_le_mono div_mult_self_is_m)
  qed
qed

lemma less_divRoundUp_iff: "0 < s \<Longrightarrow> m < divRoundUp n s \<longleftrightarrow> m * s < n"
  using divRoundUp_le_iff [of s n m] by linarith

section \<open>Lists and arrays\<close>

lemma takeWhile_dropWhile_split: "takeWhile P xs @ dropWhile P xs = xs"
  by simp

lemma set_takeWhileD2: "x \<in> set (takeWhile P xs) \<Longrightarrow> P x \<and> x \<in> set xs"
  by (auto dest: set_takeWhileD)

lemma nth_list_update_cases:
  "j < length xs \<Longrightarrow> xs[i := v] ! j = (if i = j then v else xs ! j)"
  by (metis nth_list_update nth_list_update_neq)

lemma length_filter_remove_one:
  assumes "distinct xs" and "x \<in> set xs" and "P x" and "\<And>y. y \<in> set xs \<Longrightarrow> y \<noteq> x \<Longrightarrow> Q y = P y" and "\<not> Q x"
  shows "length (filter P xs) = Suc (length (filter Q xs))"
  using assms
proof (induction xs)
  case Nil
  then show ?case by simp
next
  case (Cons a xs)
  show ?case
  proof (cases "a = x")
    case True
    with Cons.prems have "filter P xs = filter Q xs"
      by (intro filter_cong) auto
    with True Cons.prems show ?thesis by simp
  next
    case False
    with Cons show ?thesis by auto
  qed
qed

section \<open>Words, bit by bit\<close>

text \<open>The values of a 32-bit \<^verbatim>\<open>int\<close>.\<close>

definition in_int :: "int \<Rightarrow> bool" where
  "in_int x \<longleftrightarrow> - (2 ^ 31) \<le> x \<and> x < 2 ^ 31"

lemma word_eq_upt:
  fixes a b :: "'a::len word"
  assumes "list_all (\<lambda>n. bit a n = bit b n) [0..<LENGTH('a)]"
  shows "a = b"
  using assms by (intro bit_word_eqI) (simp add: list_all_iff)

lemma upt_word_sizes:
  "[0..<8] = [0, 1, 2, 3, 4, 5, 6, 7]"
  "[0..<16] = [0, 1, 2, 3, 4, 5, 6, 7, 8, 9, 10, 11, 12, 13, 14, 15]"
  "[0..<32] = [0, 1, 2, 3, 4, 5, 6, 7, 8, 9, 10, 11, 12, 13, 14, 15,
     16, 17, 18, 19, 20, 21, 22, 23, 24, 25, 26, 27, 28, 29, 30, 31]"
  by (simp_all add: numeral_eq_Suc upt_rec)

end
