(* ===== verification/Nachos_HeapList.thy ===== *)
theory Nachos_HeapList
  imports Nachos_List
begin

text \<open>
  The code of \<^verbatim>\<open>threads/list.cc\<close> on a store of cells. A \<open>List\<close> object owns the
  \<open>ListElement\<close>s it allocates, so its store holds the cells of this list only: \<open>cells\<close> maps
  an address to a live cell, \<open>brk\<close> is the next address \<^verbatim>\<open>new\<close> hands out. \<open>None\<close> is the result
  of a routine that dereferences NULL or a deleted cell, or that loops forever.
\<close>

section \<open>Cells, lists and dereferences\<close>

record 'a ListElement =
  el_next :: "nat option"
  el_key :: int
  el_item :: 'a

record 'a HList =
  cells :: "nat \<Rightarrow> 'a ListElement option"
  brk :: nat
  first :: "nat option"
  last_el :: "nat option"

definition new_ListElement :: "'a \<Rightarrow> int \<Rightarrow> 'a HList \<Rightarrow> nat \<times> 'a HList" where
  "new_ListElement itemPtr sortKey l =
     (brk l, l\<lparr>cells := (cells l)(brk l \<mapsto> \<lparr>el_next = None, el_key = sortKey, el_item = itemPtr\<rparr>),
               brk := Suc (brk l)\<rparr>)"

definition delete_ListElement :: "nat \<Rightarrow> 'a HList \<Rightarrow> 'a HList" where
  "delete_ListElement a l = l\<lparr>cells := (cells l)(a := None)\<rparr>"

definition deref :: "'a HList \<Rightarrow> nat option \<Rightarrow> 'a ListElement option" where
  "deref l p = Option.bind p (cells l)"

definition set_next :: "nat option \<Rightarrow> nat option \<Rightarrow> 'a HList \<Rightarrow> 'a HList option" where
  "set_next p n l = do {
     a \<leftarrow> p;
     c \<leftarrow> cells l a;
     Some (l\<lparr>cells := (cells l)(a \<mapsto> c\<lparr>el_next := n\<rparr>)\<rparr>) }"

section \<open>The routines\<close>

definition HList_List :: "'a HList" where
  "HList_List = \<lparr>cells = Map.empty, brk = 0, first = None, last_el = None\<rparr>"

definition HList_IsEmpty :: "'a HList \<Rightarrow> bool" where
  "HList_IsEmpty l = (if first l = None then True else False)"

definition HList_Append :: "'a \<Rightarrow> 'a HList \<Rightarrow> 'a HList option" where
  "HList_Append item l0 = (case new_ListElement item 0 l0 of (element, l) \<Rightarrow>
     if HList_IsEmpty l then Some (l\<lparr>first := Some element, last_el := Some element\<rparr>)
     else do {
       l1 \<leftarrow> set_next (last_el l) (Some element) l;
       Some (l1\<lparr>last_el := Some element\<rparr>) })"

definition HList_Prepend :: "'a \<Rightarrow> 'a HList \<Rightarrow> 'a HList option" where
  "HList_Prepend item l0 = (case new_ListElement item 0 l0 of (element, l) \<Rightarrow>
     if HList_IsEmpty l then Some (l\<lparr>first := Some element, last_el := Some element\<rparr>)
     else do {
       l1 \<leftarrow> set_next (Some element) (first l) l;
       Some (l1\<lparr>first := Some element\<rparr>) })"

definition HList_SortedRemove :: "'a HList \<Rightarrow> ((int \<times> 'a) option \<times> 'a HList) option" where
  "HList_SortedRemove l =
     (if HList_IsEmpty l then Some (None, l)
      else do {
        element \<leftarrow> first l;
        c \<leftarrow> cells l element;
        let l1 = (if first l = last_el l then l\<lparr>first := None, last_el := None\<rparr>
                  else l\<lparr>first := el_next c\<rparr>);
        Some (Some (el_key c, el_item c), delete_ListElement element l1) })"

definition HList_Remove :: "'a HList \<Rightarrow> ('a option \<times> 'a HList) option" where
  "HList_Remove l = map_option (\<lambda>(r, l'). (map_option snd r, l')) (HList_SortedRemove l)"

partial_function (option) HList_SortedInsert_loop ::
    "nat \<Rightarrow> int \<Rightarrow> nat option \<Rightarrow> 'a HList \<Rightarrow> 'a HList option" where
  "HList_SortedInsert_loop element sortKey ptr l =
     Option.bind (deref l ptr) (\<lambda>p.
       if el_next p = None then
         Option.bind (set_next (last_el l) (Some element) l) (\<lambda>l1.
           Some (l1\<lparr>last_el := Some element\<rparr>))
       else Option.bind (deref l (el_next p)) (\<lambda>pn.
         if sortKey < el_key pn then
           Option.bind (set_next (Some element) (el_next p) l) (set_next ptr (Some element))
         else HList_SortedInsert_loop element sortKey (el_next p) l))"

definition HList_SortedInsert :: "'a \<Rightarrow> int \<Rightarrow> 'a HList \<Rightarrow> 'a HList option" where
  "HList_SortedInsert item sortKey l0 = (case new_ListElement item sortKey l0 of (element, l) \<Rightarrow>
     if HList_IsEmpty l then Some (l\<lparr>first := Some element, last_el := Some element\<rparr>)
     else do {
       f \<leftarrow> deref l (first l);
       if sortKey < el_key f then do {
         l1 \<leftarrow> set_next (Some element) (first l) l;
         Some (l1\<lparr>first := Some element\<rparr>) }
       else HList_SortedInsert_loop element sortKey (first l) l })"

text \<open>The loop of \<open>RemoveItem\<close>: \<open>element\<close> walks the list with \<open>prev\<close> one step behind.\<close>

partial_function (option) HList_RemoveItem_loop ::
    "'a \<Rightarrow> nat option \<Rightarrow> nat option \<Rightarrow> 'a HList \<Rightarrow> (int \<times> 'a HList) option" where
  "HList_RemoveItem_loop item prev element l =
     Option.bind element (\<lambda>a.
     Option.bind (cells l a) (\<lambda>e.
       if el_item e = item then
         Option.bind
           (if element = last_el l then
              Option.bind (set_next prev None l) (\<lambda>l1. Some (l1\<lparr>last_el := prev\<rparr>))
            else if element = first l then Some (l\<lparr>first := el_next e\<rparr>)
            else set_next prev (el_next e) l)
           (\<lambda>l1. Some (0, delete_ListElement a l1))
       else if el_next e = None then Some (-1, l)
       else HList_RemoveItem_loop item element (el_next e) l))"

definition HList_RemoveItem :: "'a \<Rightarrow> 'a HList \<Rightarrow> (int \<times> 'a HList) option" where
  "HList_RemoveItem item l =
     (if HList_IsEmpty l then Some (-1, l)
      else if first l = last_el l then do {
        a \<leftarrow> first l;
        f \<leftarrow> cells l a;
        if el_item f = item
        then Some (0, delete_ListElement a (l\<lparr>first := None, last_el := None\<rparr>))
        else Some (-1, l) }
      else HList_RemoveItem_loop item None (first l) l)"

partial_function (option) HList_Mapcar_loop ::
    "('a \<Rightarrow> 's \<Rightarrow> 's option) \<Rightarrow> nat option \<Rightarrow> 'a HList \<Rightarrow> 's \<Rightarrow> 's option" where
  "HList_Mapcar_loop func ptr l s =
     (case ptr of None \<Rightarrow> Some s
      | Some a \<Rightarrow> Option.bind (cells l a) (\<lambda>c.
          Option.bind (func (el_item c) s) (HList_Mapcar_loop func (el_next c) l)))"

definition HList_Mapcar :: "('a \<Rightarrow> 's \<Rightarrow> 's option) \<Rightarrow> 'a HList \<Rightarrow> 's \<Rightarrow> 's option" where
  "HList_Mapcar func l s = HList_Mapcar_loop func (first l) l s"

text \<open>The destructor removes elements until \<open>Remove\<close> returns NULL.\<close>

partial_function (option) HList_destroy :: "'a HList \<Rightarrow> 'a HList option" where
  "HList_destroy l = Option.bind (HList_Remove l) (\<lambda>(r, l').
     if r = None then Some l' else HList_destroy l')"

section \<open>The invariant and the abstraction\<close>

text \<open>\<open>path h p as q\<close>: from \<open>p\<close>, the \<open>next\<close> pointers lead through exactly the cells \<open>as\<close> to \<open>q\<close>.\<close>

fun path :: "(nat \<Rightarrow> 'a ListElement option) \<Rightarrow> nat option \<Rightarrow> nat list \<Rightarrow> nat option \<Rightarrow> bool" where
  "path h p [] q \<longleftrightarrow> p = q"
| "path h p (a # as) q \<longleftrightarrow>
     p = Some a \<and> (case h a of None \<Rightarrow> False | Some c \<Rightarrow> path h (el_next c) as q)"

fun walk :: "nat \<Rightarrow> (nat \<Rightarrow> 'a ListElement option) \<Rightarrow> nat option \<Rightarrow> nat list" where
  "walk 0 h p = []"
| "walk (Suc n) h p = (case p of None \<Rightarrow> []
     | Some a \<Rightarrow> (case h a of None \<Rightarrow> [] | Some c \<Rightarrow> a # walk n h (el_next c)))"

definition addrs :: "'a HList \<Rightarrow> nat list" where
  "addrs l = walk (brk l) (cells l) (first l)"

definition cell_pair :: "(nat \<Rightarrow> 'a ListElement option) \<Rightarrow> nat \<Rightarrow> int \<times> 'a" where
  "cell_pair h a = (case h a of Some c \<Rightarrow> (el_key c, el_item c) | None \<Rightarrow> undefined)"

definition HList_abs :: "'a HList \<Rightarrow> 'a nlist" where
  "HList_abs l = map (cell_pair (cells l)) (addrs l)"

text \<open>
  A list is laid out as \<open>as\<close> when the chain from \<open>first\<close> is \<open>as\<close>, no cell repeats, \<open>last\<close> points to
  the final cell, every live cell is on the chain (nothing leaks) and lies below \<open>brk\<close>.
\<close>

definition layout :: "'a HList \<Rightarrow> nat list \<Rightarrow> bool" where
  "layout l as \<longleftrightarrow> path (cells l) (first l) as None \<and> distinct as \<and> dom (cells l) = set as
     \<and> last_el l = (if as = [] then None else Some (last as)) \<and> (\<forall>a \<in> set as. a < brk l)"

definition HList_wf :: "'a HList \<Rightarrow> bool" where
  "HList_wf l \<longleftrightarrow> layout l (addrs l)"

subsection \<open>Paths\<close>

lemma path_append: "path h p (as @ bs) q \<longleftrightarrow> (\<exists>r. path h p as r \<and> path h r bs q)"
  by (induction as arbitrary: p) (auto split: option.splits)

lemma path_update [simp]: "a \<notin> set as \<Longrightarrow> path (h(a := x)) p as q = path h p as q"
  by (induction as arbitrary: p) (auto split: option.splits)

lemma path_Some_cell: "path h p (a # as) q \<Longrightarrow> \<exists>c. h a = Some c \<and> path h (el_next c) as q"
  by (auto split: option.splits)

lemma walk_path: "path h p as None \<Longrightarrow> length as \<le> n \<Longrightarrow> walk n h p = as"
proof (induction as arbitrary: p n)
  case Nil
  then show ?case by (cases n) auto
next
  case (Cons a as)
  then show ?case by (cases n) (auto split: option.splits)
qed

lemma map_cell_pair_update [simp]:
  "a \<notin> set as \<Longrightarrow> map (cell_pair (h(a := x))) as = map (cell_pair h) as"
  by (auto simp: cell_pair_def)

lemma cell_pair_Some: "h a = Some c \<Longrightarrow> cell_pair h a = (el_key c, el_item c)"
  by (simp add: cell_pair_def)

subsection \<open>Layouts\<close>

lemma layout_addrs:
  assumes "layout l as"
  shows "addrs l = as"
proof -
  have "set as \<subseteq> {..<brk l}" and "distinct as"
    using assms by (auto simp: layout_def)
  then have "length as \<le> brk l"
    by (metis card_lessThan card_mono distinct_card finite_lessThan)
  then show ?thesis
    using assms by (auto simp: layout_def addrs_def intro: walk_path)
qed

lemma layout_wf: "layout l as \<Longrightarrow> HList_wf l"
  by (simp add: HList_wf_def layout_addrs)

lemma layout_abs: "layout l as \<Longrightarrow> HList_abs l = map (cell_pair (cells l)) as"
  by (simp add: HList_abs_def layout_addrs)

lemma HList_wf_layout: "HList_wf l \<Longrightarrow> \<exists>as. layout l as \<and> HList_abs l = map (cell_pair (cells l)) as"
  by (auto simp: HList_wf_def HList_abs_def)

lemma layout_Nil: "layout l [] \<longleftrightarrow> first l = None \<and> last_el l = None \<and> cells l = Map.empty"
  by (auto simp: layout_def)

lemma layout_first: "layout l as \<Longrightarrow> first l = (case as of [] \<Rightarrow> None | a # _ \<Rightarrow> Some a)"
  by (cases as) (auto simp: layout_def)

lemma layout_List: "layout HList_List []"
  by (simp add: layout_Nil HList_List_def)

lemma layout_split_cell:
  assumes "layout l (ys @ z # zs)"
  obtains c where "cells l z = Some c" "path (cells l) (first l) ys (Some z)"
    "path (cells l) (el_next c) zs None"
  using assms by (auto simp: layout_def path_append split: option.splits)

text \<open>
  Linking a freshly allocated cell behind \<open>z\<close>, and unlinking the cell behind \<open>z\<close>: the two
  pointer updates that all insertions and removals inside a list come down to.
\<close>

definition link_after :: "nat \<Rightarrow> int \<Rightarrow> 'a \<Rightarrow> 'a HList \<Rightarrow> 'a HList" where
  "link_after z k x l = (case cells l z of None \<Rightarrow> l | Some c \<Rightarrow>
     l\<lparr>cells := (cells l)(brk l \<mapsto> \<lparr>el_next = el_next c, el_key = k, el_item = x\<rparr>,
                          z \<mapsto> c\<lparr>el_next := Some (brk l)\<rparr>),
       brk := Suc (brk l),
       last_el := (if el_next c = None then Some (brk l) else last_el l)\<rparr>)"

lemma layout_link_after:
  assumes L: "layout l (ys @ z # zs)"
  shows "layout (link_after z k x l) (ys @ z # brk l # zs)"
    and "map (cell_pair (cells (link_after z k x l))) (ys @ z # brk l # zs) =
      map (cell_pair (cells l)) (ys @ [z]) @ (k, x) # map (cell_pair (cells l)) zs"
proof -
  obtain c where c: "cells l z = Some c" "path (cells l) (first l) ys (Some z)"
    "path (cells l) (el_next c) zs None"
    using L by (rule layout_split_cell)
  have d: "distinct (ys @ z # zs)" "brk l \<notin> set (ys @ z # zs)"
    "dom (cells l) = set (ys @ z # zs)" "\<forall>a \<in> set (ys @ z # zs). a < brk l"
    "last_el l = Some (last (z # zs))"
    using L by (auto simp: layout_def)
  have nz: "el_next c = None \<longleftrightarrow> zs = []"
    using c(3) by (cases zs) auto
  show "layout (link_after z k x l) (ys @ z # brk l # zs)"
    using c d nz unfolding layout_def link_after_def
    by (auto simp: path_append less_Suc_eq)
  show "map (cell_pair (cells (link_after z k x l))) (ys @ z # brk l # zs) =
      map (cell_pair (cells l)) (ys @ [z]) @ (k, x) # map (cell_pair (cells l)) zs"
    using c(1) d(1,2) by (simp add: link_after_def) (auto simp: cell_pair_def)
qed

definition unlink_after :: "nat \<Rightarrow> nat \<Rightarrow> 'a HList \<Rightarrow> 'a HList" where
  "unlink_after z a l = (case (cells l z, cells l a) of
     (Some cz, Some ca) \<Rightarrow>
       l\<lparr>cells := (cells l)(z \<mapsto> cz\<lparr>el_next := el_next ca\<rparr>, a := None),
         last_el := (if el_next ca = None then Some z else last_el l)\<rparr>
   | _ \<Rightarrow> l)"

lemma layout_unlink_after:
  assumes L: "layout l (ys @ z # a # zs)"
  shows "layout (unlink_after z a l) (ys @ z # zs)"
    and "map (cell_pair (cells (unlink_after z a l))) (ys @ z # zs) =
      map (cell_pair (cells l)) (ys @ z # zs)"
proof -
  obtain cz where z: "cells l z = Some cz" "path (cells l) (first l) ys (Some z)"
    "path (cells l) (el_next cz) (a # zs) None"
    using L by (rule layout_split_cell)
  obtain ca where a: "cells l a = Some ca" "path (cells l) (el_next ca) zs None"
    using path_Some_cell [OF z(3)] by blast
  have d: "distinct (ys @ z # a # zs)" "dom (cells l) = set (ys @ z # a # zs)"
    "\<forall>b \<in> set (ys @ z # a # zs). b < brk l" "last_el l = Some (last (a # zs))"
    using L by (auto simp: layout_def)
  have nz: "el_next ca = None \<longleftrightarrow> zs = []"
    using a(2) by (cases zs) auto
  show "layout (unlink_after z a l) (ys @ z # zs)"
    using z a d nz unfolding layout_def unlink_after_def
    by (auto simp: path_append)
  show "map (cell_pair (cells (unlink_after z a l))) (ys @ z # zs) =
      map (cell_pair (cells l)) (ys @ z # zs)"
    using z(1) a(1) d(1) by (simp add: unlink_after_def) (auto simp: cell_pair_def)
qed

section \<open>The routines refine the sequence operations\<close>

text \<open>\<open>represents l xs\<close>: the list object is well formed and holds \<open>xs\<close>.\<close>

definition represents :: "'a HList \<Rightarrow> 'a nlist \<Rightarrow> bool" where
  "represents l xs \<longleftrightarrow> HList_wf l \<and> HList_abs l = xs"

lemma representsI: "layout l as \<Longrightarrow> map (cell_pair (cells l)) as = xs \<Longrightarrow> represents l xs"
  by (auto simp: represents_def layout_wf layout_abs)

lemma representsE:
  assumes "represents l xs"
  obtains as where "layout l as" "map (cell_pair (cells l)) as = xs"
  using assms HList_wf_layout [of l] by (auto simp: represents_def)

lemma IsEmpty_layout: "layout l as \<Longrightarrow> HList_IsEmpty l \<longleftrightarrow> as = []"
  by (cases as) (auto simp: HList_IsEmpty_def layout_def)

lemma layout_singleton:
  assumes "layout l []"
  shows "layout (l\<lparr>cells := (cells l)(brk l \<mapsto> \<lparr>el_next = None, el_key = k, el_item = x\<rparr>),
      brk := Suc (brk l), first := Some (brk l), last_el := Some (brk l)\<rparr>) [brk l]"
  using assms by (auto simp: layout_def)

lemma layout_front:
  assumes "layout l (a # as)"
  shows "layout (l\<lparr>brk := Suc (brk l), cells := (cells l)(brk l \<mapsto>
      \<lparr>el_next = Some a, el_key = k, el_item = x\<rparr>), first := Some (brk l)\<rparr>) (brk l # a # as)"
proof -
  have "brk l \<notin> set (a # as)" using assms by (auto simp: layout_def)
  then show ?thesis
    using assms by (auto simp: layout_def less_Suc_eq split: option.splits)
qed

lemma HList_List_represents: "represents HList_List List_empty"
  using representsI [OF layout_List] by (simp add: List_empty_def)

lemma HList_IsEmpty_represents: "represents l xs \<Longrightarrow> HList_IsEmpty l = List_IsEmpty xs"
  by (auto simp: IsEmpty_layout elim!: representsE)

lemma HList_Append_represents:
  assumes "represents l xs"
  shows "\<exists>l'. HList_Append x l = Some l' \<and> represents l' (List_Append x xs)"
proof -
  obtain as where as: "layout l as" "map (cell_pair (cells l)) as = xs"
    using assms by (rule representsE)
  show ?thesis
  proof (cases as rule: rev_cases)
    case Nil
    have "layout l []" using as(1) Nil by simp
    from representsI [OF layout_singleton [OF this, of 0 x]] show ?thesis
      using as Nil layout_first [OF as(1)]
      by (simp add: HList_Append_def new_ListElement_def HList_IsEmpty_def cell_pair_def List_Append_def)
  next
    case (snoc ys z)
    then have L: "layout l (ys @ [z])" using as by simp
    obtain c where c: "cells l z = Some c" "el_next c = None"
      using L by (rule layout_split_cell) simp
    have "HList_Append x l = Some (link_after z 0 x l)"
      using L c IsEmpty_layout [OF L]
      by (auto simp: HList_Append_def new_ListElement_def HList_IsEmpty_def set_next_def
          link_after_def layout_def)
    moreover have "represents (link_after z 0 x l) (List_Append x xs)"
      using layout_link_after [OF L, of 0 x] as snoc
      by (intro representsI) (auto simp: List_Append_def)
    ultimately show ?thesis by blast
  qed
qed

lemma HList_Prepend_represents:
  assumes "represents l xs"
  shows "\<exists>l'. HList_Prepend x l = Some l' \<and> represents l' (List_Prepend x xs)"
proof -
  obtain as where as: "layout l as" "map (cell_pair (cells l)) as = xs"
    using assms by (rule representsE)
  show ?thesis
  proof (cases as)
    case Nil
    have "layout l []" using as(1) Nil by simp
    from representsI [OF layout_singleton [OF this, of 0 x]] show ?thesis
      using as Nil layout_first [OF as(1)]
      by (simp add: HList_Prepend_def new_ListElement_def HList_IsEmpty_def cell_pair_def List_Prepend_def)
  next
    case (Cons a bs)
    then have L: "layout l (a # bs)" using as by simp
    then have nb: "brk l \<notin> set (a # bs)" by (auto simp: layout_def)
    have "first l = Some a" using layout_first [OF L] by simp
    then show ?thesis
      using representsI [OF layout_front [OF L, of 0 x]] nb as Cons
      by (auto simp: HList_Prepend_def new_ListElement_def HList_IsEmpty_def set_next_def
          List_Prepend_def cell_pair_def)
  qed
qed

lemma layout_delete_first:
  assumes "layout l (a # as)" and "cells l a = Some c"
  shows "layout (delete_ListElement a (if first l = last_el l then l\<lparr>first := None, last_el := None\<rparr>
      else l\<lparr>first := el_next c\<rparr>)) as"
proof -
  have d: "distinct (a # as)" using assms(1) by (simp add: layout_def)
  have "first l = last_el l \<longleftrightarrow> as = []"
    using assms(1) d by (auto simp: layout_def)
  then show ?thesis
    using assms d by (auto simp: layout_def delete_ListElement_def)
qed

lemma HList_SortedRemove_represents:
  assumes "represents l xs"
  shows "\<exists>l'. HList_SortedRemove l = Some (fst (List_SortedRemove xs), l')
    \<and> represents l' (snd (List_SortedRemove xs))"
proof -
  obtain as where as: "layout l as" "map (cell_pair (cells l)) as = xs"
    using assms by (rule representsE)
  show ?thesis
  proof (cases as)
    case Nil
    then show ?thesis using as assms IsEmpty_layout [OF as(1)]
      by (auto simp: HList_SortedRemove_def)
  next
    case (Cons a bs)
    then have L: "layout l (a # bs)" using as by simp
    obtain c where c: "cells l a = Some c"
      using L by (auto simp: layout_def split: option.splits)
    let ?l = "delete_ListElement a (if first l = last_el l then l\<lparr>first := None, last_el := None\<rparr>
      else l\<lparr>first := el_next c\<rparr>)"
    have "HList_SortedRemove l = Some (Some (el_key c, el_item c), ?l)"
      using L c IsEmpty_layout [OF L] layout_first [OF L]
      by (simp add: HList_SortedRemove_def)
    moreover have "map (cell_pair (cells ?l)) bs = map (cell_pair (cells l)) bs"
      using L by (auto simp: delete_ListElement_def layout_def)
    ultimately show ?thesis
      using layout_delete_first [OF L c] as Cons c
      by (auto simp: cell_pair_def intro: representsI)
  qed
qed

lemma HList_Remove_represents:
  assumes "represents l xs"
  shows "\<exists>l'. HList_Remove l = Some (fst (List_Remove xs), l') \<and> represents l' (snd (List_Remove xs))"
  using HList_SortedRemove_represents [OF assms]
  by (auto simp: HList_Remove_def List_Remove_def split: prod.splits)

subsection \<open>Sorted insertion\<close>

lemma HList_SortedInsert_loop_link:
  assumes "layout l (ys @ p # rest)"
  shows "HList_SortedInsert_loop (brk l) k (Some p) (snd (new_ListElement x k l)) =
    Some (link_after (last (p # takeWhile (\<lambda>a. \<not> k < fst (cell_pair (cells l) a)) rest)) k x l)"
  using assms
proof (induction rest arbitrary: ys p)
  case Nil
  obtain c where c: "cells l p = Some c" "el_next c = None"
    using Nil by (rule layout_split_cell) simp
  have "last_el l = Some p" "brk l \<noteq> p"
    using Nil by (auto simp: layout_def)
  with c show ?case
    by (subst HList_SortedInsert_loop.simps)
      (simp add: new_ListElement_def deref_def set_next_def link_after_def)
next
  case (Cons q rest)
  obtain c where c: "cells l p = Some c" "path (cells l) (el_next c) (q # rest) None"
    using Cons.prems by (rule layout_split_cell)
  then obtain d where d: "el_next c = Some q" "cells l q = Some d"
    by (auto split: option.splits)
  have ne: "brk l \<noteq> p" "brk l \<noteq> q" "p \<noteq> q"
    using Cons.prems by (auto simp: layout_def)
  show ?case
  proof (cases "k < el_key d")
    case True
    with c d ne show ?thesis
      by (subst HList_SortedInsert_loop.simps)
        (simp add: new_ListElement_def deref_def set_next_def link_after_def cell_pair_def)
  next
    case False
    have "layout l ((ys @ [p]) @ q # rest)" using Cons.prems by simp
    note IH = Cons.IH [OF this]
    have "HList_SortedInsert_loop (brk l) k (Some p) (snd (new_ListElement x k l)) =
        HList_SortedInsert_loop (brk l) k (Some q) (snd (new_ListElement x k l))"
      using c d ne False
      by (subst HList_SortedInsert_loop.simps) (simp add: new_ListElement_def deref_def)
    then show ?thesis
      using IH d False by (simp add: cell_pair_def)
  qed
qed

lemma map_takeWhile_dropWhile:
  "map f (takeWhile (\<lambda>a. P (f a)) xs) = takeWhile P (map f xs)"
  "map f (dropWhile (\<lambda>a. P (f a)) xs) = dropWhile P (map f xs)"
  by (induction xs) auto

lemma HList_SortedInsert_represents:
  assumes "represents l xs"
  shows "\<exists>l'. HList_SortedInsert x k l = Some l' \<and> represents l' (List_SortedInsert x k xs)"
proof -
  obtain as where as: "layout l as" "map (cell_pair (cells l)) as = xs"
    using assms by (rule representsE)
  show ?thesis
  proof (cases as)
    case Nil
    have "layout l []" using as(1) Nil by simp
    from representsI [OF layout_singleton [OF this, of k x]] show ?thesis
      using as Nil layout_first [OF as(1)]
      by (simp add: HList_SortedInsert_def new_ListElement_def HList_IsEmpty_def cell_pair_def
          List_SortedInsert_def)
  next
    case (Cons a bs)
    then have L: "layout l (a # bs)" using as by simp
    then have nb: "brk l \<notin> set (a # bs)" and fa: "first l = Some a"
      using layout_first [OF L] by (auto simp: layout_def)
    obtain c where c: "cells l a = Some c" using L by (auto simp: layout_def split: option.splits)
    show ?thesis
    proof (cases "k < el_key c")
      case True
      then show ?thesis
        using representsI [OF layout_front [OF L, of k x]] nb fa as Cons c
        by (auto simp: HList_SortedInsert_def new_ListElement_def HList_IsEmpty_def deref_def
            set_next_def List_SortedInsert_def cell_pair_def)
    next
      case False
      let ?P = "\<lambda>a. \<not> k < fst (cell_pair (cells l) a)"
      let ?zs = "dropWhile ?P bs"
      obtain ys z where yz: "a # takeWhile ?P bs = ys @ [z]"
        by (metis append_butlast_last_id list.distinct(1))
      then have eq: "a # bs = ys @ z # ?zs"
        by (metis append_Cons append_assoc takeWhile_dropWhile_id append_Nil)
      have "HList_SortedInsert x k l =
          HList_SortedInsert_loop (brk l) k (Some a) (snd (new_ListElement x k l))"
        using nb fa c False
        by (simp add: HList_SortedInsert_def new_ListElement_def HList_IsEmpty_def deref_def)
      also have "\<dots> = Some (link_after z k x l)"
        using HList_SortedInsert_loop_link [of l "[]" a bs k x] L yz by simp
      finally have run: "HList_SortedInsert x k l = Some (link_after z k x l)" .
      have "List_SortedInsert x k xs = map (cell_pair (cells l)) (a # takeWhile ?P bs) @ (k, x) # map (cell_pair (cells l)) ?zs"
        using as(2) Cons False c cell_pair_Some [of "cells l" a c] unfolding List_SortedInsert_def
        by (auto simp: map_takeWhile_dropWhile [where f = "cell_pair (cells l)" and P = "\<lambda>e. \<not> k < fst e"])
      then have "List_SortedInsert x k xs = map (cell_pair (cells l)) (ys @ [z]) @ (k, x) # map (cell_pair (cells l)) ?zs"
        unfolding yz .
      then have "represents (link_after z k x l) (List_SortedInsert x k xs)"
        using layout_link_after [of l ys z ?zs k x] L eq by (intro representsI) auto
      with run show ?thesis by blast
    qed
  qed
qed

subsection \<open>Removal of an item\<close>

lemma HList_RemoveItem_loop_hit:
  assumes L: "layout l (ys @ a # rest)" and many: "ys @ rest \<noteq> []"
    and c: "cells l a = Some c" "el_item c = item"
  shows "\<exists>l'. HList_RemoveItem_loop item (if ys = [] then None else Some (last ys)) (Some a) l = Some (0, l')
    \<and> represents l' (map (cell_pair (cells l)) (ys @ rest))"
proof (cases ys rule: rev_cases)
  case Nil
  then have La: "layout l (a # rest)" using L by simp
  have "first l = Some a" and "last_el l \<noteq> Some a"
    using La many Nil by (auto simp: layout_def)
  with c Nil have "HList_RemoveItem_loop item None (Some a) l =
      Some (0, delete_ListElement a (l\<lparr>first := el_next c\<rparr>))"
    by (subst HList_RemoveItem_loop.simps) auto
  moreover have "layout (delete_ListElement a (l\<lparr>first := el_next c\<rparr>)) rest"
    using layout_delete_first [OF La c(1)] \<open>first l = Some a\<close> \<open>last_el l \<noteq> Some a\<close> by simp
  then have "represents (delete_ListElement a (l\<lparr>first := el_next c\<rparr>)) (map (cell_pair (cells l)) rest)"
    using La by (auto intro!: representsI simp: delete_ListElement_def layout_def)
  ultimately show ?thesis using Nil by simp
next
  case (snoc zs z)
  then have Lz: "layout l (zs @ z # a # rest)" using L by simp
  obtain cz where cz: "cells l z = Some cz" using Lz by (rule layout_split_cell)
  have d: "z \<noteq> a" "first l \<noteq> Some a" "last_el l = Some (last (a # rest))" "a \<notin> set rest"
    using Lz layout_first [OF Lz] by (cases zs; auto simp: layout_def)+
  have "path (cells l) (el_next c) rest None"
    using Lz c(1) by (auto simp: layout_def path_append split: option.splits)
  then have nx: "el_next c = None \<longleftrightarrow> rest = []" by (cases rest) auto
  have la: "last_el l = Some a \<longleftrightarrow> rest = []"
    using d(3,4) by (auto split: if_splits)
  have "HList_RemoveItem_loop item (Some z) (Some a) l = Some (0, unlink_after z a l)"
    using c cz d nx la
    by (subst HList_RemoveItem_loop.simps)
      (auto simp: set_next_def unlink_after_def delete_ListElement_def)
  moreover have "represents (unlink_after z a l) (map (cell_pair (cells l)) (ys @ rest))"
    using layout_unlink_after [OF Lz] snoc by (intro representsI) auto
  ultimately show ?thesis using snoc by simp
qed

lemma HList_RemoveItem_loop_represents:
  assumes "layout l (ys @ a # rest)" and "ys @ rest \<noteq> []"
  shows "\<exists>l'. HList_RemoveItem_loop item (if ys = [] then None else Some (last ys)) (Some a) l =
      Some (fst (List_RemoveItem item (map (cell_pair (cells l)) (a # rest))), l')
    \<and> represents l' (map (cell_pair (cells l)) ys
        @ snd (List_RemoveItem item (map (cell_pair (cells l)) (a # rest))))"
  using assms
proof (induction rest arbitrary: ys a)
  case Nil
  obtain c where c: "cells l a = Some c" "el_next c = None"
    using Nil.prems(1) by (rule layout_split_cell) simp
  show ?case
  proof (cases "el_item c = item")
    case True
    then show ?thesis
      using HList_RemoveItem_loop_hit [OF Nil.prems(1) Nil.prems(2) c(1)] c
      by (auto simp: cell_pair_Some)
  next
    case False
    then have "HList_RemoveItem_loop item (if ys = [] then None else Some (last ys)) (Some a) l = Some (-1, l)"
      using c by (subst HList_RemoveItem_loop.simps) auto
    then show ?thesis
      using representsI [OF Nil.prems(1) refl] False c by (simp add: cell_pair_Some)
  qed
next
  case (Cons b rest)
  obtain c where c: "cells l a = Some c" "el_next c = Some b"
    using Cons.prems(1) by (rule layout_split_cell) (auto split: option.splits)
  show ?case
  proof (cases "el_item c = item")
    case True
    then show ?thesis
      using HList_RemoveItem_loop_hit [OF Cons.prems(1) _ c(1), of item] c
      by (auto simp: cell_pair_Some)
  next
    case False
    then have step: "HList_RemoveItem_loop item (if ys = [] then None else Some (last ys)) (Some a) l =
        HList_RemoveItem_loop item (Some a) (Some b) l"
      using c by (subst HList_RemoveItem_loop.simps) auto
    show ?thesis
      using Cons.IH [of "ys @ [a]" b] Cons.prems False c step
      by (auto simp: cell_pair_Some split: prod.splits)
  qed
qed

lemma HList_RemoveItem_represents:
  assumes "represents l xs"
  shows "\<exists>l'. HList_RemoveItem item l = Some (fst (List_RemoveItem item xs), l')
    \<and> represents l' (snd (List_RemoveItem item xs))"
proof -
  obtain as where as: "layout l as" "map (cell_pair (cells l)) as = xs"
    using assms by (rule representsE)
  show ?thesis
  proof (cases as)
    case Nil
    then show ?thesis using as assms IsEmpty_layout [OF as(1)]
      by (auto simp: HList_RemoveItem_def)
  next
    case (Cons a bs)
    then have L: "layout l (a # bs)" using as by simp
    obtain c where c: "cells l a = Some c" using L by (auto simp: layout_def split: option.splits)
    have f: "first l = Some a" "\<not> HList_IsEmpty l"
      using layout_first [OF L] IsEmpty_layout [OF L] by auto
    have fl: "first l = last_el l \<longleftrightarrow> bs = []"
      using L by (auto simp: layout_def)
    show ?thesis
    proof (cases "bs = []")
      case True
      have "represents (delete_ListElement a (l\<lparr>first := None, last_el := None\<rparr>)) []"
        using layout_delete_first [OF L c] True fl by (auto intro: representsI)
      then show ?thesis
        using f fl [THEN iffD2, OF True, symmetric] c as Cons True assms
        by (auto simp: HList_RemoveItem_def cell_pair_Some)
    next
      case False
      then show ?thesis
        using HList_RemoveItem_loop_represents [of l "[]" a bs item] L f fl as(2) [symmetric] Cons
        by (simp add: HList_RemoveItem_def)
    qed
  qed
qed

subsection \<open>Traversal and destruction\<close>

lemma HList_Mapcar_represents:
  assumes "represents l xs"
  shows "HList_Mapcar func l s = List_Mapcar func xs s"
proof -
  have loop: "path (cells l) p as None \<Longrightarrow>
      HList_Mapcar_loop func p l s = List_Mapcar func (map (cell_pair (cells l)) as) s" for as p s
  proof (induction as arbitrary: p s)
    case Nil
    then show ?case by (subst HList_Mapcar_loop.simps) simp
  next
    case (Cons a as)
    then obtain c where "p = Some a" "cells l a = Some c" "path (cells l) (el_next c) as None"
      by (auto split: option.splits)
    then show ?case
      using Cons.IH [of "el_next c"]
      by (subst HList_Mapcar_loop.simps) (cases "func (el_item c) s"; simp add: cell_pair_Some)
  qed
  obtain as where "layout l as" "map (cell_pair (cells l)) as = xs"
    using assms by (rule representsE)
  with loop [of "first l" as s] show ?thesis
    by (simp add: HList_Mapcar_def layout_def)
qed

lemma HList_destroy_represents:
  assumes "represents l xs"
  shows "\<exists>l'. HList_destroy l = Some l' \<and> represents l' [] \<and> cells l' = Map.empty"
  using assms
proof (induction xs arbitrary: l)
  case Nil
  then obtain l' where l': "HList_Remove l = Some (None, l')" "represents l' []"
    using HList_Remove_represents [of l "[]"] by auto
  from l'(2) obtain as where "layout l' as" "map (cell_pair (cells l')) as = []"
    by (rule representsE)
  then have "cells l' = Map.empty" by (simp add: layout_Nil)
  with l' show ?case by (subst HList_destroy.simps) simp
next
  case (Cons x xs)
  then obtain l' where l': "HList_Remove l = Some (Some (snd x), l')" "represents l' xs"
    using HList_Remove_represents [of l "x # xs"] by auto
  from Cons.IH [OF l'(2)] l'(1) show ?case
    by (subst HList_destroy.simps) simp
qed

section \<open>The pointer list implements the list interface\<close>

interpretation hl: nachos_list HList_List represents HList_IsEmpty HList_Append HList_Remove
  by unfold_locales
    (auto intro: HList_List_represents HList_Append_represents HList_Remove_represents
      simp: HList_IsEmpty_represents)

interpretation hsl: nachos_sorted_list HList_List represents HList_IsEmpty HList_Append HList_Remove
    HList_SortedInsert HList_SortedRemove
  by unfold_locales
    (auto intro: HList_SortedInsert_represents HList_SortedRemove_represents)

section \<open>Properties\<close>

text \<open>
  C1. Every routine of list.cc, run on a well-formed list object that holds the sequence \<open>xs\<close>, returns
  (no dangling or NULL pointer is followed and no loop runs forever), gives the answer of the
  sequence operation, and leaves a well-formed object that holds the resulting sequence.
\<close>

theorem list_routines_refine_sequences:
  assumes "represents l xs"
  shows "HList_IsEmpty l = List_IsEmpty xs
    \<and> (\<exists>l'. HList_Append x l = Some l' \<and> represents l' (List_Append x xs))
    \<and> (\<exists>l'. HList_Prepend x l = Some l' \<and> represents l' (List_Prepend x xs))
    \<and> (\<exists>l'. HList_Remove l = Some (fst (List_Remove xs), l') \<and> represents l' (snd (List_Remove xs)))
    \<and> (\<exists>l'. HList_SortedInsert x k l = Some l' \<and> represents l' (List_SortedInsert x k xs))
    \<and> (\<exists>l'. HList_SortedRemove l = Some (fst (List_SortedRemove xs), l')
         \<and> represents l' (snd (List_SortedRemove xs)))
    \<and> (\<exists>l'. HList_RemoveItem x l = Some (fst (List_RemoveItem x xs), l')
         \<and> represents l' (snd (List_RemoveItem x xs)))
    \<and> HList_Mapcar func l s = List_Mapcar func xs s"
  using assms
  by (intro conjI HList_IsEmpty_represents HList_Append_represents HList_Prepend_represents
      HList_Remove_represents HList_SortedInsert_represents HList_SortedRemove_represents
      HList_RemoveItem_represents HList_Mapcar_represents)

theorem list_routines_refine_sequences_witness:
  "\<exists>l. represents l [(3, ''a''), (7, ''b'')]
     \<and> (\<exists>l'. HList_SortedInsert ''c'' 3 l = Some l' \<and> represents l' [(3, ''a''), (3, ''c''), (7, ''b'')])
     \<and> (\<exists>l'. HList_RemoveItem ''b'' l = Some (0, l') \<and> represents l' [(3, ''a'')])
     \<and> (\<exists>l'. HList_SortedRemove l = Some (Some (3, ''a''), l') \<and> represents l' [(7, ''b'')])"
proof -
  let ?l = "\<lparr>cells = [0 \<mapsto> \<lparr>el_next = Some 1, el_key = 3, el_item = ''a''\<rparr>,
                     1 \<mapsto> \<lparr>el_next = None, el_key = 7, el_item = ''b''\<rparr>],
             brk = 2, first = Some 0, last_el = Some 1\<rparr> :: string HList"
  have "layout ?l [0, 1]" by (auto simp: layout_def)
  then have r: "represents ?l [(3, ''a''), (7, ''b'')]"
    by (rule representsI) (simp add: cell_pair_def)
  show ?thesis
    using r list_routines_refine_sequences [OF r, of "''c''" 3 "\<lambda>_ s :: nat. Some s" 0]
      list_routines_refine_sequences [OF r, of "''b''" 3 "\<lambda>_ s :: nat. Some s" 0]
    by (intro exI [of _ ?l]) (simp add: List_SortedInsert_def)
qed

text \<open>
  A List used as a queue is first-in first-out: after any items are appended to a new list,
  removing up to \<open>n\<close> times yields the first \<open>n\<close> of them in the order they were appended, and the list
  is empty exactly when there were no more than \<open>n\<close>.
\<close>

theorem list_fifo:
  "\<exists>l l'. append_all HList_Append ys HList_List = Some l
     \<and> remove_upto HList_Remove n l = Some (take n ys, l') \<and> (HList_IsEmpty l' \<longleftrightarrow> length ys \<le> n)"
  by (rule hl.fifo)

text \<open>
  A List used with sort keys is a stable priority queue: inserting any items with their keys into
  a new list and removing them all yields the items in increasing order of keys, those with equal
  keys in the order they were inserted, and leaves the list empty.
\<close>

theorem list_priority_stable:
  "\<exists>l l' ys. insert_all HList_SortedInsert xs HList_List = Some l
     \<and> remove_upto HList_SortedRemove (length xs) l = Some (ys, l') \<and> HList_IsEmpty l'
     \<and> sorted (map fst ys) \<and> (\<forall>k. filter (\<lambda>e. fst e = k) ys = filter (\<lambda>e. fst e = k) xs)"
  by (rule hsl.priority_order)

text \<open>
  The destructor of a well-formed list terminates and frees every cell the list had allocated.
\<close>

theorem list_destructor_frees_all:
  assumes "represents l xs"
  shows "\<exists>l'. HList_destroy l = Some l' \<and> cells l' = Map.empty"
  using HList_destroy_represents [OF assms] by blast

theorem list_destructor_frees_all_witness:
  "\<exists>l. represents l [(0, True)] \<and> cells l \<noteq> Map.empty
     \<and> (\<exists>l'. HList_destroy l = Some l' \<and> cells l' = Map.empty)"
proof -
  let ?l = "\<lparr>cells = [0 \<mapsto> \<lparr>el_next = None, el_key = 0, el_item = True\<rparr>],
             brk = 1, first = Some 0, last_el = Some 0\<rparr> :: bool HList"
  have "layout ?l [0]" by (auto simp: layout_def)
  then have r: "represents ?l [(0, True)]"
    by (rule representsI) (simp add: cell_pair_def)
  then show ?thesis
    using list_destructor_frees_all [OF r] by (intro exI [of _ ?l]) simp
qed

end
