(* ===== verification/Nachos_BitMap.thy ===== *)
theory Nachos_BitMap
  imports Nachos_Prelude
begin

text \<open>
  \<^verbatim>\<open>userprog/bitmap.cc\<close>: an array of bits kept in 32-bit words, used to allocate physical
  pages, process identifiers and disk sectors. The operations are the code's, on \<open>32 word\<close>s;
  \<open>marked\<close> is the abstract set of bits that are set, and the lemmas give each operation as an
  operation on that set. The interface \<open>bit_allocator\<close> at the end is what the memory manager,
  the process table and the file headers rely on when they call \<open>Find\<close> in a loop.
\<close>

unbundle bit_operations_syntax

section \<open>State and operations\<close>

definition BitsInByte :: nat where "BitsInByte = 8"

definition BitsInWord :: nat where "BitsInWord = 32"

record BitMap =
  numBits :: nat
  numWords :: nat
  numItems :: nat
  bm_map :: "32 word list"

definition bit_mask :: "int \<Rightarrow> 32 word" where
  "bit_mask which = push_bit (nat (which mod int BitsInWord)) 1"

definition word_index :: "int \<Rightarrow> nat" where
  "word_index which = nat (which div int BitsInWord)"

definition BitMap_Mark :: "BitMap \<Rightarrow> int \<Rightarrow> BitMap result" where
  "BitMap_Mark bm which = ASSERT (which \<ge> 0 \<and> which < int (numBits bm))
     (Inr (bm\<lparr>bm_map := (bm_map bm)[word_index which :=
        (bm_map bm ! word_index which) OR bit_mask which]\<rparr>))"

definition BitMap_Clear :: "BitMap \<Rightarrow> int \<Rightarrow> BitMap result" where
  "BitMap_Clear bm which = ASSERT (which \<ge> 0 \<and> which < int (numBits bm))
     (Inr (bm\<lparr>bm_map := (bm_map bm)[word_index which :=
        (bm_map bm ! word_index which) AND NOT (bit_mask which)]\<rparr>))"

definition BitMap_Test :: "BitMap \<Rightarrow> int \<Rightarrow> bool result" where
  "BitMap_Test bm which = ASSERT (which \<ge> 0 \<and> which < int (numBits bm))
     (if (bm_map bm ! word_index which) AND bit_mask which \<noteq> 0 then Inr True else Inr False)"

text \<open>The constructor clears bit after bit in freshly allocated words, whose contents are arbitrary.\<close>

fun BitMap_clear_all :: "nat list \<Rightarrow> BitMap \<Rightarrow> BitMap result" where
  "BitMap_clear_all [] bm = Inr bm"
| "BitMap_clear_all (i # is) bm = rbind (BitMap_Clear bm (int i)) (BitMap_clear_all is)"

definition BitMap_BitMap :: "32 word list \<Rightarrow> nat \<Rightarrow> BitMap result" where
  "BitMap_BitMap fresh nitems = rbind
     (BitMap_clear_all [0..<nitems] \<lparr>numBits = nitems, numWords = divRoundUp nitems BitsInWord,
        numItems = 0, bm_map = fresh\<rparr>)
     (\<lambda>bm. Inr (bm\<lparr>numItems := nitems\<rparr>))"

definition BitMap_NumItems :: "BitMap \<Rightarrow> nat" where
  "BitMap_NumItems bm = numItems bm"

function BitMap_Find_from :: "BitMap \<Rightarrow> nat \<Rightarrow> (int \<times> BitMap) result" where
  "BitMap_Find_from bm i =
     (if i < numBits bm
      then rbind (BitMap_Test bm (int i)) (\<lambda>t.
        if \<not> t then rbind (BitMap_Mark bm (int i)) (\<lambda>bm'. Inr (int i, bm'))
        else BitMap_Find_from bm (Suc i))
      else Inr (-1, bm))"
  by pat_completeness auto
termination
  by (relation "measure (\<lambda>(bm, i). numBits bm - i)") auto

declare BitMap_Find_from.simps [simp del]

definition BitMap_Find :: "BitMap \<Rightarrow> (int \<times> BitMap) result" where
  "BitMap_Find bm = BitMap_Find_from bm 0"

function BitMap_NumClear_from :: "BitMap \<Rightarrow> nat \<Rightarrow> int \<Rightarrow> int result" where
  "BitMap_NumClear_from bm i count =
     (if i < numBits bm
      then rbind (BitMap_Test bm (int i)) (\<lambda>t.
        BitMap_NumClear_from bm (Suc i) (if \<not> t then count + 1 else count))
      else Inr count)"
  by pat_completeness auto
termination
  by (relation "measure (\<lambda>(bm, i, count). numBits bm - i)") auto

declare BitMap_NumClear_from.simps [simp del]

definition BitMap_NumClear :: "BitMap \<Rightarrow> int result" where
  "BitMap_NumClear bm = BitMap_NumClear_from bm 0 0"

text \<open>\<open>Print\<close> shows the numbers of the bits that are set, in increasing order.\<close>

definition BitMap_Print :: "BitMap \<Rightarrow> nat list" where
  "BitMap_Print bm = filter (\<lambda>i. BitMap_Test bm (int i) = Inr True) [0..<numBits bm]"

section \<open>Invariant and abstraction\<close>

definition BitMap_wf :: "BitMap \<Rightarrow> bool" where
  "BitMap_wf bm \<longleftrightarrow> numWords bm = divRoundUp (numBits bm) BitsInWord \<and> length (bm_map bm) = numWords bm"

definition marked :: "BitMap \<Rightarrow> nat set" where
  "marked bm = {i. i < numBits bm \<and> bit (bm_map bm ! (i div BitsInWord)) (i mod BitsInWord)}"

definition clear_bits :: "BitMap \<Rightarrow> nat set" where
  "clear_bits bm = {i. i < numBits bm \<and> i \<notin> marked bm}"

lemma finite_marked [simp]: "finite (marked bm)" "finite (clear_bits bm)"
  by (simp_all add: marked_def clear_bits_def)

lemma word_index_nat [simp]: "word_index (int i) = i div BitsInWord"
  by (simp add: word_index_def flip: of_nat_div)

lemma bit_mask_nat: "bit_mask (int i) = push_bit (i mod BitsInWord) 1"
  by (simp add: bit_mask_def nat_mod_distrib)

lemma bit_bit_mask: "bit (bit_mask (int i)) n \<longleftrightarrow> n = i mod BitsInWord"
  by (auto simp: bit_mask_nat bit_simps BitsInWord_def)

lemma word_index_bound: "BitMap_wf bm \<Longrightarrow> i < numBits bm \<Longrightarrow> i div BitsInWord < length (bm_map bm)"
  unfolding BitMap_wf_def
  by (simp add: less_divRoundUp_iff BitsInWord_def)

subsection \<open>Single bits\<close>

lemma BitMap_Mark_ok:
  assumes "BitMap_wf bm" and "i < numBits bm"
  obtains bm' where "BitMap_Mark bm (int i) = Inr bm'" "BitMap_wf bm'" "numBits bm' = numBits bm"
    "numItems bm' = numItems bm" "marked bm' = insert i (marked bm)"
proof -
  let ?bm = "bm\<lparr>bm_map := (bm_map bm)[i div BitsInWord :=
    (bm_map bm ! (i div BitsInWord)) OR bit_mask (int i)]\<rparr>"
  have idx: "j < numBits bm \<Longrightarrow> j div BitsInWord < length (bm_map bm)" for j
    using assms(1) by (rule word_index_bound)
  have "j \<in> marked ?bm \<longleftrightarrow> j \<in> insert i (marked bm)" for j
  proof (cases "j < numBits bm")
    case True
    have "j = i \<longleftrightarrow> j div BitsInWord = i div BitsInWord \<and> j mod BitsInWord = i mod BitsInWord"
      by (metis div_mult_mod_eq)
    then show ?thesis
      using True idx [OF True] assms(2)
      by (auto simp: marked_def nth_list_update_cases bit_or_iff bit_bit_mask)
  next
    case False
    then show ?thesis using assms(2) by (auto simp: marked_def)
  qed
  then have "marked ?bm = insert i (marked bm)" by blast
  moreover have "BitMap_Mark bm (int i) = Inr ?bm" using assms by (simp add: BitMap_Mark_def)
  moreover have "BitMap_wf ?bm" using assms(1) by (simp add: BitMap_wf_def)
  ultimately show ?thesis using that by simp
qed

lemma BitMap_Clear_ok:
  assumes "BitMap_wf bm" and "i < numBits bm"
  obtains bm' where "BitMap_Clear bm (int i) = Inr bm'" "BitMap_wf bm'" "numBits bm' = numBits bm"
    "numItems bm' = numItems bm" "marked bm' = marked bm - {i}"
proof -
  let ?bm = "bm\<lparr>bm_map := (bm_map bm)[i div BitsInWord :=
    (bm_map bm ! (i div BitsInWord)) AND NOT (bit_mask (int i))]\<rparr>"
  have idx: "j < numBits bm \<Longrightarrow> j div BitsInWord < length (bm_map bm)" for j
    using assms(1) by (rule word_index_bound)
  have "j \<in> marked ?bm \<longleftrightarrow> j \<in> marked bm - {i}" for j
  proof (cases "j < numBits bm")
    case True
    have "j = i \<longleftrightarrow> j div BitsInWord = i div BitsInWord \<and> j mod BitsInWord = i mod BitsInWord"
      by (metis div_mult_mod_eq)
    moreover have "j mod BitsInWord < 32" by (simp add: BitsInWord_def)
    ultimately show ?thesis
      using True idx [OF True]
      by (auto simp: marked_def nth_list_update_cases bit_and_iff bit_not_iff bit_bit_mask)
  next
    case False
    then show ?thesis by (auto simp: marked_def)
  qed
  then have "marked ?bm = marked bm - {i}" by blast
  moreover have "BitMap_Clear bm (int i) = Inr ?bm" using assms by (simp add: BitMap_Clear_def)
  moreover have "BitMap_wf ?bm" using assms(1) by (simp add: BitMap_wf_def)
  ultimately show ?thesis using that by simp
qed

lemma BitMap_Test_ok: "i < numBits bm \<Longrightarrow> BitMap_Test bm (int i) = Inr (i \<in> marked bm)"
  by (simp add: BitMap_Test_def marked_def bit_mask_nat bit_iff_and_push_bit_not_eq_0)

lemma BitMap_out_of_range:
  assumes "which < 0 \<or> which \<ge> int (numBits bm)"
  shows "BitMap_Mark bm which = Inl Assertion" "BitMap_Clear bm which = Inl Assertion"
    "BitMap_Test bm which = Inl Assertion"
  using assms by (auto simp: BitMap_Mark_def BitMap_Clear_def BitMap_Test_def ASSERT_def)

subsection \<open>Construction, search and counting\<close>

lemma BitMap_clear_all_ok:
  "BitMap_wf bm \<Longrightarrow> set is \<subseteq> {..<numBits bm} \<Longrightarrow>
   \<exists>bm'. BitMap_clear_all is bm = Inr bm' \<and> BitMap_wf bm' \<and> numBits bm' = numBits bm
     \<and> marked bm' = marked bm - set is"
proof (induction "is" arbitrary: bm)
  case Nil
  then show ?case by simp
next
  case (Cons i "is")
  have "i < numBits bm" using Cons.prems(2) by simp
  obtain bm1 where bm1: "BitMap_Clear bm (int i) = Inr bm1" "BitMap_wf bm1"
      "numBits bm1 = numBits bm" "marked bm1 = marked bm - {i}"
    by (rule BitMap_Clear_ok [OF Cons.prems(1) \<open>i < numBits bm\<close>])
  then obtain bm' where "BitMap_clear_all is bm1 = Inr bm'" "BitMap_wf bm'"
      "numBits bm' = numBits bm1" "marked bm' = marked bm1 - set is"
    using Cons.IH [of bm1] Cons.prems(2) by auto
  with bm1 show ?case by auto
qed

lemma BitMap_BitMap_ok:
  assumes "length fresh = divRoundUp nitems BitsInWord"
  obtains bm where "BitMap_BitMap fresh nitems = Inr bm" "BitMap_wf bm" "numBits bm = nitems"
    "numItems bm = nitems" "marked bm = {}"
proof -
  let ?bm = "\<lparr>numBits = nitems, numWords = divRoundUp nitems BitsInWord, numItems = 0, bm_map = fresh\<rparr>"
  have "BitMap_wf ?bm" using assms by (simp add: BitMap_wf_def)
  then obtain bm' where "BitMap_clear_all [0..<nitems] ?bm = Inr bm'" "BitMap_wf bm'"
      "numBits bm' = nitems" "marked bm' = marked ?bm - {0..<nitems}"
    using BitMap_clear_all_ok [of ?bm "[0..<nitems]"] by (auto simp: atLeast0LessThan)
  moreover have "marked bm' \<subseteq> {0..<nitems}" "marked ?bm \<subseteq> {0..<nitems}"
    using \<open>numBits bm' = nitems\<close> by (auto simp: marked_def)
  then have "marked bm' = {}" using \<open>marked bm' = marked ?bm - {0..<nitems}\<close> by blast
  then have "marked (bm'\<lparr>numItems := nitems\<rparr>) = {}" by (simp add: marked_def)
  ultimately show ?thesis
    by (intro that [of "bm'\<lparr>numItems := nitems\<rparr>"]) (simp_all add: BitMap_BitMap_def BitMap_wf_def)
qed

lemma BitMap_Find_from_full:
  "\<forall>j. i \<le> j \<and> j < numBits bm \<longrightarrow> j \<in> marked bm \<Longrightarrow> BitMap_Find_from bm i = Inr (-1, bm)"
proof (induction bm i rule: BitMap_Find_from.induct)
  case (1 bm i)
  then show ?case
    by (subst BitMap_Find_from.simps) (simp add: BitMap_Test_ok)
qed

lemma BitMap_Find_from_first:
  "i \<le> k \<Longrightarrow> k < numBits bm \<Longrightarrow> k \<notin> marked bm \<Longrightarrow> \<forall>j. i \<le> j \<and> j < k \<longrightarrow> j \<in> marked bm \<Longrightarrow>
   BitMap_Find_from bm i = rbind (BitMap_Mark bm (int k)) (\<lambda>bm'. Inr (int k, bm'))"
proof (induction bm i rule: BitMap_Find_from.induct)
  case (1 bm i)
  show ?case
  proof (cases "i = k")
    case True
    with "1.prems" show ?thesis by (subst BitMap_Find_from.simps) (simp add: BitMap_Test_ok)
  next
    case False
    with "1.prems" have i: "i < numBits bm" "i \<in> marked bm" "Suc i \<le> k" by auto
    then have "BitMap_Find_from bm (Suc i) = rbind (BitMap_Mark bm (int k)) (\<lambda>bm'. Inr (int k, bm'))"
      using "1.IH" [of True] "1.prems" by simp
    with i show ?thesis by (subst BitMap_Find_from.simps) (simp add: BitMap_Test_ok)
  qed
qed

lemma BitMap_Find_full: "clear_bits bm = {} \<Longrightarrow> BitMap_Find bm = Inr (-1, bm)"
  by (auto simp: BitMap_Find_def clear_bits_def intro: BitMap_Find_from_full)

lemma BitMap_Find_ok:
  assumes "BitMap_wf bm" and "clear_bits bm \<noteq> {}"
  obtains bm' where "BitMap_Find bm = Inr (int (Min (clear_bits bm)), bm')" "BitMap_wf bm'"
    "numBits bm' = numBits bm" "numItems bm' = numItems bm" "marked bm' = insert (Min (clear_bits bm)) (marked bm)"
proof -
  let ?k = "Min (clear_bits bm)"
  have k: "?k \<in> clear_bits bm" using assms(2) by simp
  then have lt: "?k < numBits bm" and nm: "?k \<notin> marked bm" by (auto simp: clear_bits_def)
  have "j \<in> marked bm" if "j < ?k" for j
  proof (rule ccontr)
    assume "j \<notin> marked bm"
    with that lt have "j \<in> clear_bits bm" by (auto simp: clear_bits_def)
    then have "?k \<le> j" by simp
    with that show False by simp
  qed
  then have "BitMap_Find bm = rbind (BitMap_Mark bm (int ?k)) (\<lambda>bm'. Inr (int ?k, bm'))"
    unfolding BitMap_Find_def using lt nm by (intro BitMap_Find_from_first) auto
  moreover obtain bm' where "BitMap_Mark bm (int ?k) = Inr bm'" "BitMap_wf bm'"
      "numBits bm' = numBits bm" "numItems bm' = numItems bm" "marked bm' = insert ?k (marked bm)"
    by (rule BitMap_Mark_ok [OF assms(1) lt])
  ultimately show ?thesis using that by simp
qed

lemma BitMap_NumClear_from_ok:
  "BitMap_NumClear_from bm i count = Inr (count + int (card {j \<in> clear_bits bm. i \<le> j}))"
proof (induction bm i count rule: BitMap_NumClear_from.induct)
  case (1 bm i count)
  show ?case
  proof (cases "i < numBits bm")
    case True
    have "{j \<in> clear_bits bm. i \<le> j} =
        (if i \<in> marked bm then {} else {i}) \<union> {j \<in> clear_bits bm. Suc i \<le> j}"
      using True by (auto simp: clear_bits_def Suc_le_eq) (metis le_neq_implies_less)
    then have "card {j \<in> clear_bits bm. i \<le> j} =
        (if i \<in> marked bm then 0 else 1) + card {j \<in> clear_bits bm. Suc i \<le> j}"
      by (auto simp: clear_bits_def)
    with "1.IH" [OF True] True show ?thesis
      by (subst BitMap_NumClear_from.simps) (simp add: BitMap_Test_ok)
  next
    case False
    then have "{j \<in> clear_bits bm. i \<le> j} = {}" by (auto simp: clear_bits_def)
    with False show ?thesis by (subst BitMap_NumClear_from.simps) simp
  qed
qed

lemma BitMap_NumClear_ok: "BitMap_NumClear bm = Inr (int (card (clear_bits bm)))"
  by (simp add: BitMap_NumClear_def BitMap_NumClear_from_ok)

lemma BitMap_Print_marked: "set (BitMap_Print bm) = marked bm"
  by (auto simp: BitMap_Print_def BitMap_Test_ok marked_def)

section \<open>The allocation interface\<close>

text \<open>
  The client loops over any allocator: \<open>find_n\<close> is \<^verbatim>\<open>for (i = 0; i < n; i++) x[i] = Find();\<close>,
  \<open>release_all\<close> is \<^verbatim>\<open>for (i = 0; i < n; i++) Clear(x[i]);\<close>.
\<close>

fun find_n :: "('s \<Rightarrow> (int \<times> 's) result) \<Rightarrow> nat \<Rightarrow> 's \<Rightarrow> (int list \<times> 's) result" where
  "find_n acquire 0 s = Inr ([], s)"
| "find_n acquire (Suc n) s = rbind (acquire s) (\<lambda>(x, s').
     rbind (find_n acquire n s') (\<lambda>(xs, s''). Inr (x # xs, s'')))"

fun release_all :: "('s \<Rightarrow> int \<Rightarrow> 's result) \<Rightarrow> int list \<Rightarrow> 's \<Rightarrow> 's result" where
  "release_all release [] s = Inr s"
| "release_all release (x # xs) s = rbind (release s x) (release_all release xs)"

locale bit_allocator =
  fixes inv :: "'s \<Rightarrow> bool"
    and cap :: "'s \<Rightarrow> nat"
    and free :: "'s \<Rightarrow> nat set"
    and acquire :: "'s \<Rightarrow> (int \<times> 's) result"
    and release :: "'s \<Rightarrow> int \<Rightarrow> 's result"
  assumes free_below: "k \<in> free s \<Longrightarrow> k < cap s"
    and find_some: "inv s \<Longrightarrow> free s \<noteq> {} \<Longrightarrow> \<exists>s' k. acquire s = Inr (int k, s') \<and> inv s'
      \<and> cap s' = cap s \<and> k \<in> free s \<and> free s' = free s - {k}"
    and find_full: "inv s \<Longrightarrow> free s = {} \<Longrightarrow> acquire s = Inr (-1, s)"
    and release_ok: "inv s \<Longrightarrow> k < cap s \<Longrightarrow> k \<notin> free s \<Longrightarrow> \<exists>s'. release s (int k) = Inr s'
      \<and> inv s' \<and> cap s' = cap s \<and> free s' = insert k (free s)"
begin

lemma finite_free: "finite (free s)"
  by (rule finite_subset [of _ "{..<cap s}"]) (auto dest: free_below)

lemma find_n_ok:
  "inv s \<Longrightarrow> n \<le> card (free s) \<Longrightarrow>
   \<exists>ks s'. find_n acquire n s = Inr (map int ks, s') \<and> inv s' \<and> cap s' = cap s \<and> length ks = n
     \<and> distinct ks \<and> set ks \<subseteq> free s \<and> free s' = free s - set ks"
proof (induction n arbitrary: s)
  case 0
  then show ?case by (intro exI [of _ "[]"] exI [of _ s]) simp
next
  case (Suc n)
  then have "free s \<noteq> {}" by auto
  then obtain s1 k where k: "acquire s = Inr (int k, s1)" "inv s1" "cap s1 = cap s" "k \<in> free s"
      "free s1 = free s - {k}"
    using find_some [OF Suc.prems(1)] by blast
  moreover have "n \<le> card (free s1)"
    using Suc.prems(2) k finite_free by (simp add: card_Diff_singleton)
  ultimately obtain ks s' where ks: "find_n acquire n s1 = Inr (map int ks, s')" "inv s'" "cap s' = cap s1"
      "length ks = n" "distinct ks" "set ks \<subseteq> free s1" "free s' = free s1 - set ks"
    using Suc.IH [of s1] by blast
  have "find_n acquire (Suc n) s = Inr (map int (k # ks), s')" using k ks by simp
  moreover have "distinct (k # ks)" "set (k # ks) \<subseteq> free s" "free s' = free s - set (k # ks)"
    using k ks by auto
  ultimately show ?case using k ks by (intro exI [of _ "k # ks"] exI [of _ s']) simp
qed

lemma release_all_ok:
  "inv s \<Longrightarrow> distinct ks \<Longrightarrow> set ks \<subseteq> {..<cap s} - free s \<Longrightarrow>
   \<exists>s'. release_all release (map int ks) s = Inr s' \<and> inv s' \<and> cap s' = cap s
     \<and> free s' = free s \<union> set ks"
proof (induction ks arbitrary: s)
  case Nil
  then show ?case by simp
next
  case (Cons k ks)
  then obtain s1 where s1: "release s (int k) = Inr s1" "inv s1" "cap s1 = cap s"
      "free s1 = insert k (free s)"
    using release_ok [of s k] by auto
  then have "set ks \<subseteq> {..<cap s1} - free s1" using Cons.prems by auto
  then obtain s' where "release_all release (map int ks) s1 = Inr s'" "inv s'" "cap s' = cap s1"
      "free s' = free s1 \<union> set ks"
    using Cons.IH [of s1] s1(2) Cons.prems(2) by auto
  with s1 show ?case by simp
qed

text \<open>Allocating \<open>n\<close> units and giving them all back restores the free set.\<close>

lemma find_n_release_all:
  assumes "inv s" and "n \<le> card (free s)"
  shows "\<exists>xs s1 s2. find_n acquire n s = Inr (xs, s1) \<and> release_all release xs s1 = Inr s2
    \<and> inv s2 \<and> free s2 = free s"
proof -
  obtain ks s1 where ks: "find_n acquire n s = Inr (map int ks, s1)" "inv s1" "cap s1 = cap s"
      "distinct ks" "set ks \<subseteq> free s" "free s1 = free s - set ks"
    using find_n_ok [OF assms] by blast
  moreover have "set ks \<subseteq> {..<cap s1} - free s1"
    using ks free_below by auto
  ultimately show ?thesis
    using release_all_ok [of s1 ks] by (auto simp: Un_absorb1)
qed

end

interpretation bm: bit_allocator BitMap_wf numBits clear_bits BitMap_Find BitMap_Clear
proof unfold_locales
  show "k \<in> clear_bits bm \<Longrightarrow> k < numBits bm" for k bm
    by (simp add: clear_bits_def)
next
  fix bm assume "BitMap_wf bm" "clear_bits bm \<noteq> {}"
  then obtain bm' where "BitMap_Find bm = Inr (int (Min (clear_bits bm)), bm')" "BitMap_wf bm'"
      "numBits bm' = numBits bm" "marked bm' = insert (Min (clear_bits bm)) (marked bm)"
    by (rule BitMap_Find_ok)
  moreover have "Min (clear_bits bm) \<in> clear_bits bm" using \<open>clear_bits bm \<noteq> {}\<close> by simp
  ultimately show "\<exists>s' k. BitMap_Find bm = Inr (int k, s') \<and> BitMap_wf s' \<and> numBits s' = numBits bm
      \<and> k \<in> clear_bits bm \<and> clear_bits s' = clear_bits bm - {k}"
    by (intro exI [of _ bm'] exI [of _ "Min (clear_bits bm)"]) (auto simp: clear_bits_def)
next
  show "clear_bits bm = {} \<Longrightarrow> BitMap_Find bm = Inr (-1, bm)" for bm
    by (rule BitMap_Find_full)
next
  fix bm k assume "BitMap_wf bm" "k < numBits bm" "k \<notin> clear_bits bm"
  then obtain bm' where "BitMap_Clear bm (int k) = Inr bm'" "BitMap_wf bm'"
      "numBits bm' = numBits bm" "marked bm' = marked bm - {k}"
    by (meson BitMap_Clear_ok)
  with \<open>k < numBits bm\<close> show "\<exists>s'. BitMap_Clear bm (int k) = Inr s' \<and> BitMap_wf s'
      \<and> numBits s' = numBits bm \<and> clear_bits s' = insert k (clear_bits bm)"
    by (auto simp: clear_bits_def)
qed

section \<open>The memory manager\<close>

text \<open>
  \<^verbatim>\<open>userprog/memorymanager.cc\<close>: the bitmap of physical pages. The class also creates a lock
  that none of its methods takes; callers serialise with the global \<open>mmLock\<close>.
\<close>

definition NumPhysPages :: nat where "NumPhysPages = 64"

record MemoryManager =
  mm_bitmap :: BitMap

definition MemoryManager_MemoryManager :: "32 word list \<Rightarrow> MemoryManager result" where
  "MemoryManager_MemoryManager fresh =
     rbind (BitMap_BitMap fresh NumPhysPages) (\<lambda>bm. Inr \<lparr>mm_bitmap = bm\<rparr>)"

definition MemoryManager_AllocatePage :: "MemoryManager \<Rightarrow> (int \<times> MemoryManager) result" where
  "MemoryManager_AllocatePage mm =
     rbind (BitMap_Find (mm_bitmap mm)) (\<lambda>(i, bm). Inr (i, mm\<lparr>mm_bitmap := bm\<rparr>))"

definition MemoryManager_getPage :: "MemoryManager \<Rightarrow> (int \<times> MemoryManager) result" where
  "MemoryManager_getPage mm = MemoryManager_AllocatePage mm"

definition MemoryManager_clearPage :: "MemoryManager \<Rightarrow> int \<Rightarrow> MemoryManager result" where
  "MemoryManager_clearPage mm pageId =
     rbind (BitMap_Clear (mm_bitmap mm) pageId) (\<lambda>bm. Inr (mm\<lparr>mm_bitmap := bm\<rparr>))"

definition MemoryManager_DeallocatePage :: "MemoryManager \<Rightarrow> int \<Rightarrow> (int \<times> MemoryManager) result" where
  "MemoryManager_DeallocatePage mm which =
     rbind (BitMap_Test (mm_bitmap mm) which) (\<lambda>t.
       if t = False then Inr (-1, mm)
       else rbind (BitMap_Clear (mm_bitmap mm) which) (\<lambda>bm. Inr (0, mm\<lparr>mm_bitmap := bm\<rparr>)))"

definition MemoryManager_GetFreePageCount :: "MemoryManager \<Rightarrow> int result" where
  "MemoryManager_GetFreePageCount mm = BitMap_NumClear (mm_bitmap mm)"

abbreviation free_pages :: "MemoryManager \<Rightarrow> nat set" where
  "free_pages mm \<equiv> clear_bits (mm_bitmap mm)"

definition MemoryManager_wf :: "MemoryManager \<Rightarrow> bool" where
  "MemoryManager_wf mm \<longleftrightarrow> BitMap_wf (mm_bitmap mm) \<and> numBits (mm_bitmap mm) = NumPhysPages"

interpretation pages: bit_allocator MemoryManager_wf "\<lambda>mm. numBits (mm_bitmap mm)" free_pages
    MemoryManager_AllocatePage MemoryManager_clearPage
proof unfold_locales
  show "k \<in> free_pages mm \<Longrightarrow> k < numBits (mm_bitmap mm)" for k mm
    by (rule bm.free_below)
next
  fix mm assume "MemoryManager_wf mm" "free_pages mm \<noteq> {}"
  with bm.find_some [of "mm_bitmap mm"] show "\<exists>s' k. MemoryManager_AllocatePage mm = Inr (int k, s')
      \<and> MemoryManager_wf s' \<and> numBits (mm_bitmap s') = numBits (mm_bitmap mm)
      \<and> k \<in> free_pages mm \<and> free_pages s' = free_pages mm - {k}"
    by (fastforce simp: MemoryManager_wf_def MemoryManager_AllocatePage_def)
next
  show "free_pages mm = {} \<Longrightarrow> MemoryManager_AllocatePage mm = Inr (-1, mm)" for mm
    by (simp add: MemoryManager_AllocatePage_def BitMap_Find_full)
next
  fix mm k assume "MemoryManager_wf mm" "k < numBits (mm_bitmap mm)" "k \<notin> free_pages mm"
  with bm.release_ok [of "mm_bitmap mm" k] show "\<exists>s'. MemoryManager_clearPage mm (int k) = Inr s'
      \<and> MemoryManager_wf s' \<and> numBits (mm_bitmap s') = numBits (mm_bitmap mm)
      \<and> free_pages s' = insert k (free_pages mm)"
    by (auto simp: MemoryManager_wf_def MemoryManager_clearPage_def)
qed

lemma MemoryManager_DeallocatePage_ok:
  assumes "MemoryManager_wf mm" and "k < NumPhysPages"
  shows "k \<in> free_pages mm \<Longrightarrow> MemoryManager_DeallocatePage mm (int k) = Inr (-1, mm)"
    and "k \<notin> free_pages mm \<Longrightarrow> \<exists>mm'. MemoryManager_DeallocatePage mm (int k) = Inr (0, mm')
      \<and> MemoryManager_wf mm' \<and> free_pages mm' = insert k (free_pages mm)"
proof -
  have test: "BitMap_Test (mm_bitmap mm) (int k) = Inr (k \<notin> free_pages mm)"
    using assms by (auto simp: BitMap_Test_ok clear_bits_def MemoryManager_wf_def)
  show "k \<in> free_pages mm \<Longrightarrow> MemoryManager_DeallocatePage mm (int k) = Inr (-1, mm)"
    using test by (simp add: MemoryManager_DeallocatePage_def)
  assume "k \<notin> free_pages mm"
  with pages.release_ok [of mm k] assms test
  show "\<exists>mm'. MemoryManager_DeallocatePage mm (int k) = Inr (0, mm')
      \<and> MemoryManager_wf mm' \<and> free_pages mm' = insert k (free_pages mm)"
    by (auto simp: MemoryManager_DeallocatePage_def MemoryManager_clearPage_def MemoryManager_wf_def
        result_inv)
qed

section \<open>Properties\<close>

text \<open>
  C28. On a well-formed bitmap, Mark, Clear and Test of a valid index act on the set of marked bits
  as insertion, deletion and membership, and disturb no other bit.
\<close>

theorem bitmap_is_a_set:
  assumes "BitMap_wf bm" "i < numBits bm"
  shows "(\<exists>bm'. BitMap_Mark bm (int i) = Inr bm' \<and> BitMap_wf bm' \<and> marked bm' = insert i (marked bm))
    \<and> (\<exists>bm'. BitMap_Clear bm (int i) = Inr bm' \<and> BitMap_wf bm' \<and> marked bm' = marked bm - {i})
    \<and> BitMap_Test bm (int i) = Inr (i \<in> marked bm)"
proof (intro conjI)
  show "\<exists>bm'. BitMap_Mark bm (int i) = Inr bm' \<and> BitMap_wf bm' \<and> marked bm' = insert i (marked bm)"
    by (rule BitMap_Mark_ok [OF assms]) blast
  show "\<exists>bm'. BitMap_Clear bm (int i) = Inr bm' \<and> BitMap_wf bm' \<and> marked bm' = marked bm - {i}"
    by (rule BitMap_Clear_ok [OF assms]) blast
qed (rule BitMap_Test_ok [OF assms(2)])

theorem bitmap_is_a_set_witness:
  "BitMap_Test \<lparr>numBits = 40, numWords = 2, numItems = 40, bm_map = [0, 2]\<rparr> 33 = Inr True
   \<and> (\<exists>bm'. BitMap_Clear \<lparr>numBits = 40, numWords = 2, numItems = 40, bm_map = [0, 2]\<rparr> 33 = Inr bm'
        \<and> 33 \<notin> marked bm')"
proof -
  let ?bm = "\<lparr>numBits = 40, numWords = 2, numItems = 40, bm_map = [0, 2]\<rparr>"
  have wf: "BitMap_wf ?bm" "33 < numBits ?bm" "33 \<in> marked ?bm"
    by (simp_all add: BitMap_wf_def divRoundUp_def BitsInWord_def marked_def)
  show ?thesis using bitmap_is_a_set [OF wf(1,2)] wf(3) by auto
qed

text \<open>
  C29. Find returns and marks the lowest clear bit, or returns -1 and changes nothing when every bit is
  marked; NumClear is the number of clear bits.
\<close>

theorem bitmap_find_first_clear:
  assumes "BitMap_wf bm"
  shows "(if clear_bits bm = {} then BitMap_Find bm = Inr (-1, bm)
      else \<exists>bm'. BitMap_Find bm = Inr (int (Min (clear_bits bm)), bm') \<and> BitMap_wf bm'
        \<and> clear_bits bm' = clear_bits bm - {Min (clear_bits bm)})
    \<and> BitMap_NumClear bm = Inr (int (card (clear_bits bm)))"
proof (cases "clear_bits bm = {}")
  case True
  then show ?thesis by (simp add: BitMap_Find_full BitMap_NumClear_ok)
next
  case False
  then obtain bm' where "BitMap_Find bm = Inr (int (Min (clear_bits bm)), bm')" "BitMap_wf bm'"
    "numBits bm' = numBits bm" "marked bm' = insert (Min (clear_bits bm)) (marked bm)"
    using BitMap_Find_ok [OF assms] by metis
  moreover from this have "clear_bits bm' = clear_bits bm - {Min (clear_bits bm)}"
    by (auto simp: clear_bits_def)
  ultimately show ?thesis using False by (simp add: BitMap_NumClear_ok)
qed

theorem bitmap_find_first_clear_witness:
  "\<exists>bm'. BitMap_Find \<lparr>numBits = 3, numWords = 1, numItems = 3, bm_map = [5]\<rparr> = Inr (1, bm')"
proof -
  let ?bm = "\<lparr>numBits = 3, numWords = 1, numItems = 3, bm_map = [5]\<rparr>"
  have wf: "BitMap_wf ?bm" by (simp add: BitMap_wf_def divRoundUp_def BitsInWord_def)
  have "{..<3} = {0, 1, 2 :: nat}" by auto
  moreover have "0 \<in> marked ?bm" "1 \<notin> marked ?bm" "2 \<in> marked ?bm"
    by (simp_all add: marked_def BitsInWord_def)
  moreover have "clear_bits ?bm = {..<3} - marked ?bm" by (auto simp: clear_bits_def)
  ultimately have c: "clear_bits ?bm = {1}" by (simp add: insert_Diff_if)
  show ?thesis using bitmap_find_first_clear [OF wf] c by auto
qed

text \<open>
  A new bitmap has every bit clear whatever the freshly allocated memory contained.
\<close>

theorem bitmap_constructor_clears:
  assumes "length fresh = divRoundUp nitems BitsInWord"
  shows "\<exists>bm. BitMap_BitMap fresh nitems = Inr bm \<and> BitMap_wf bm \<and> numBits bm = nitems \<and> marked bm = {}"
  by (rule BitMap_BitMap_ok [OF assms]) blast

theorem bitmap_constructor_clears_witness:
  "\<exists>bm. BitMap_BitMap [0xdeadbeef, 0xffffffff] 40 = Inr bm \<and> marked bm = {}"
  using bitmap_constructor_clears [of "[0xdeadbeef, 0xffffffff]" 40]
  by (auto simp: divRoundUp_def BitsInWord_def)

text \<open>
  An index outside the bitmap, negative ones included, stops Mark, Clear and Test with a failed
  assertion.
\<close>

theorem bitmap_rejects_out_of_range:
  assumes "which < 0 \<or> which \<ge> int (numBits bm)"
  shows "BitMap_Mark bm which = Inl Assertion \<and> BitMap_Clear bm which = Inl Assertion
    \<and> BitMap_Test bm which = Inl Assertion"
  using BitMap_out_of_range [OF assms] by blast

theorem bitmap_rejects_out_of_range_witness:
  "BitMap_Test \<lparr>numBits = 3, numWords = 1, numItems = 3, bm_map = [5]\<rparr> 3 = Inl Assertion"
  using bitmap_rejects_out_of_range [of 3 "\<lparr>numBits = 3, numWords = 1, numItems = 3, bm_map = [5]\<rparr>"] by simp

text \<open>
  C23. The page allocator never hands out a page twice: as long as enough pages are free, \<open>n\<close> calls of
  AllocatePage give \<open>n\<close> different pages, all of them free before and none of them free after; giving
  them back with clearPage restores the free set.
\<close>

theorem pages_allocated_once:
  assumes "MemoryManager_wf mm" "n \<le> card (free_pages mm)"
  shows "\<exists>ks mm' mm''. find_n MemoryManager_AllocatePage n mm = Inr (map int ks, mm')
    \<and> length ks = n \<and> distinct ks \<and> set ks \<subseteq> free_pages mm \<and> free_pages mm' = free_pages mm - set ks
    \<and> release_all MemoryManager_clearPage (map int ks) mm' = Inr mm'' \<and> free_pages mm'' = free_pages mm"
proof -
  obtain ks mm' where "find_n MemoryManager_AllocatePage n mm = Inr (map int ks, mm')" "length ks = n"
    "distinct ks" "set ks \<subseteq> free_pages mm" "free_pages mm' = free_pages mm - set ks"
    using pages.find_n_ok [OF assms] by blast
  then show ?thesis using pages.find_n_release_all [OF assms] by auto
qed

theorem pages_allocated_once_witness:
  "\<exists>mm ks mm'. MemoryManager_MemoryManager [0, 0xffffffff] = Inr mm
     \<and> find_n MemoryManager_AllocatePage 64 mm = Inr (map int ks, mm') \<and> distinct ks \<and> free_pages mm' = {}"
proof -
  obtain bm where bm: "BitMap_BitMap [0, 0xffffffff] NumPhysPages = Inr bm" "BitMap_wf bm"
      "numBits bm = NumPhysPages" "marked bm = {}"
    using BitMap_BitMap_ok [of "[0, 0xffffffff]" NumPhysPages]
    by (auto simp: divRoundUp_def BitsInWord_def NumPhysPages_def)
  let ?mm = "\<lparr>mm_bitmap = bm\<rparr>"
  have f: "free_pages ?mm = {..<64}" using bm by (auto simp: clear_bits_def NumPhysPages_def)
  have "MemoryManager_wf ?mm" "64 \<le> card (free_pages ?mm)" using bm f by (simp_all add: MemoryManager_wf_def)
  from pages_allocated_once [OF this] obtain ks mm' where
    ks: "find_n MemoryManager_AllocatePage 64 ?mm = Inr (map int ks, mm')" "length ks = 64" "distinct ks"
      "set ks \<subseteq> {..<64}" "free_pages mm' = {..<64} - set ks" unfolding f by blast
  have "set ks = {..<64}" using ks(2-4) by (intro card_subset_eq) (simp_all add: distinct_card)
  with ks bm show ?thesis by (intro exI [of _ ?mm]) (auto simp: MemoryManager_MemoryManager_def)
qed

end
