(* ===== verification/Nachos_Machine.thy ===== *)
theory Nachos_Machine
  imports Nachos_Prelude Nachos_BitMap
begin

text \<open>
  \<^verbatim>\<open>machine/machine.h\<close>, \<^verbatim>\<open>machine/machine.cc\<close> and \<^verbatim>\<open>machine/translate.cc\<close>: the simulated
  workstation as user programs see it. Registers are 32-bit words (the source declares them
  \<^verbatim>\<open>unsigned int\<close>), physical memory is an array of bytes, and every access goes through
  \<open>Machine_Translate\<close>, by a linear page table or a TLB.

  An access that cannot be translated traps: \<open>Machine_RaiseException\<close> records the address,
  completes the pending delayed load, and the outcome \<open>Trapped\<close> carries the cause to the kernel.
  A failed \<^verbatim>\<open>ASSERT\<close> of the simulator, which aborts it, is \<open>Inl Assertion\<close>. The byte order of
  the host is a field of the state, so that the conversion routines are modelled for both.
\<close>

section \<open>Constants and state\<close>

definition SectorSize :: nat where "SectorSize = 128"

definition PageSize :: nat where "PageSize = SectorSize"

definition MemorySize :: nat where "MemorySize = NumPhysPages * PageSize"

definition TLBSize :: nat where "TLBSize = 4"

lemmas machine_sizes = SectorSize_def PageSize_def MemorySize_def NumPhysPages_def TLBSize_def

datatype ExceptionType = NoException | SyscallException | PageFaultException | ReadOnlyException
  | BusErrorException | AddressErrorException | OverflowException | IllegalInstrException
  | NumExceptionTypes

abbreviation (input) StackReg :: nat where "StackReg \<equiv> 29"
abbreviation (input) RetAddrReg :: nat where "RetAddrReg \<equiv> 31"
abbreviation (input) NumGPRegs :: nat where "NumGPRegs \<equiv> 32"
abbreviation (input) HiReg :: nat where "HiReg \<equiv> 32"
abbreviation (input) LoReg :: nat where "LoReg \<equiv> 33"
abbreviation (input) PCReg :: nat where "PCReg \<equiv> 34"
abbreviation (input) NextPCReg :: nat where "NextPCReg \<equiv> 35"
abbreviation (input) PrevPCReg :: nat where "PrevPCReg \<equiv> 36"
abbreviation (input) LoadReg :: nat where "LoadReg \<equiv> 37"
abbreviation (input) LoadValueReg :: nat where "LoadValueReg \<equiv> 38"
abbreviation (input) BadVAddrReg :: nat where "BadVAddrReg \<equiv> 39"
abbreviation (input) NumTotalRegs :: nat where "NumTotalRegs \<equiv> 40"

record TranslationEntry =
  virtualPage :: "32 word"
  physicalPage :: "32 word"
  te_valid :: bool
  readOnly :: bool
  te_use :: bool
  te_dirty :: bool

record Machine =
  registers :: "nat \<Rightarrow> 32 word"
  mainMemory :: "nat \<Rightarrow> 8 word"
  tlb :: "TranslationEntry list option"
  pageTable :: "TranslationEntry list option"
  pageTableSize :: "32 word"
  hostBigEndian :: bool

text \<open>
  The constructor without \<^verbatim>\<open>USE_TLB\<close>: registers and memory zeroed, no TLB, no page table;
  \<open>pageTableSize\<close> is left as it was in the freshly allocated object.
\<close>

definition Machine_Machine :: "bool \<Rightarrow> 32 word \<Rightarrow> Machine" where
  "Machine_Machine big_endian fresh = \<lparr>registers = (\<lambda>_. 0), mainMemory = (\<lambda>_. 0), tlb = None,
     pageTable = None, pageTableSize = fresh, hostBigEndian = big_endian\<rparr>"

section \<open>Registers\<close>

definition Machine_ReadRegister :: "Machine \<Rightarrow> int \<Rightarrow> (32 word) result" where
  "Machine_ReadRegister m num = ASSERT (num \<ge> 0 \<and> num < int NumTotalRegs) (Inr (registers m (nat num)))"

definition set_reg :: "nat \<Rightarrow> 32 word \<Rightarrow> Machine \<Rightarrow> Machine" where
  "set_reg i v m = m\<lparr>registers := (registers m)(i := v)\<rparr>"

definition Machine_WriteRegister :: "Machine \<Rightarrow> int \<Rightarrow> 32 word \<Rightarrow> Machine result" where
  "Machine_WriteRegister m num value =
     ASSERT (num \<ge> 0 \<and> num < int NumTotalRegs) (Inr (set_reg (nat num) value m))"

lemma set_reg_simps [simp]:
  "registers (set_reg i v m) = (registers m)(i := v)" "mainMemory (set_reg i v m) = mainMemory m"
  "tlb (set_reg i v m) = tlb m" "pageTable (set_reg i v m) = pageTable m"
  "pageTableSize (set_reg i v m) = pageTableSize m" "hostBigEndian (set_reg i v m) = hostBigEndian m"
  by (simp_all add: set_reg_def)

text \<open>
  \<open>DelayedLoad\<close> finishes the pending load, whose target register number is itself the content
  of a register: a number beyond the register file would be a wild store.
\<close>

definition Machine_DelayedLoad :: "Machine \<Rightarrow> nat \<Rightarrow> 32 word \<Rightarrow> Machine result" where
  "Machine_DelayedLoad m nextReg nextValue =
     (if unat (registers m LoadReg) < NumTotalRegs
      then Inr (set_reg 0 0 (set_reg LoadValueReg nextValue (set_reg LoadReg (of_nat nextReg)
             (set_reg (unat (registers m LoadReg)) (registers m LoadValueReg) m))))
      else Inl OutOfBounds)"

datatype 'a outcome = Returned 'a | Trapped ExceptionType Machine

definition Machine_RaiseException :: "Machine \<Rightarrow> ExceptionType \<Rightarrow> 32 word \<Rightarrow> 'a outcome result" where
  "Machine_RaiseException m which badVAddr =
     rbind (Machine_DelayedLoad (set_reg BadVAddrReg badVAddr m) 0 0) (\<lambda>m'. Inr (Trapped which m'))"

definition obind :: "'a outcome result \<Rightarrow> ('a \<Rightarrow> 'b outcome result) \<Rightarrow> 'b outcome result" where
  "obind r f = rbind r (\<lambda>oc. case oc of Trapped which m \<Rightarrow> Inr (Trapped which m) | Returned x \<Rightarrow> f x)"

lemma obind_simps [simp]:
  "obind (Inl e) f = Inl e" "obind (Inr (Trapped w m)) f = Inr (Trapped w m)"
  "obind (Inr (Returned x)) f = f x"
  by (simp_all add: obind_def)

section \<open>Byte order\<close>

definition WordToHost :: "bool \<Rightarrow> 32 word \<Rightarrow> 32 word" where
  "WordToHost big_endian w =
     (if big_endian
      then (drop_bit 24 w AND 0x000000ff) OR (drop_bit 8 w AND 0x0000ff00)
           OR (push_bit 8 w AND 0x00ff0000) OR (push_bit 24 w AND 0xff000000)
      else w)"

definition ShortToHost :: "bool \<Rightarrow> 16 word \<Rightarrow> 16 word" where
  "ShortToHost big_endian w =
     (if big_endian then (push_bit 8 w AND 0xff00) OR (drop_bit 8 w AND 0x00ff) else w)"

definition WordToMachine :: "bool \<Rightarrow> 32 word \<Rightarrow> 32 word" where
  "WordToMachine be w = WordToHost be w"

definition ShortToMachine :: "bool \<Rightarrow> 16 word \<Rightarrow> 16 word" where
  "ShortToMachine be w = ShortToHost be w"

text \<open>How the host lays out a short and a word in memory (the casts through pointers).\<close>

definition host_load16 :: "bool \<Rightarrow> (nat \<Rightarrow> 8 word) \<Rightarrow> nat \<Rightarrow> 16 word" where
  "host_load16 be mem a =
     (if be then word_cat (mem a) (mem (a + 1)) else word_cat (mem (a + 1)) (mem a))"

definition host_load32 :: "bool \<Rightarrow> (nat \<Rightarrow> 8 word) \<Rightarrow> nat \<Rightarrow> 32 word" where
  "host_load32 be mem a =
     (if be then word_cat (host_load16 be mem a) (host_load16 be mem (a + 2))
      else word_cat (host_load16 be mem (a + 2)) (host_load16 be mem a))"

definition host_store16 :: "bool \<Rightarrow> nat \<Rightarrow> 16 word \<Rightarrow> (nat \<Rightarrow> 8 word) \<Rightarrow> nat \<Rightarrow> 8 word" where
  "host_store16 be a w mem =
     (if be then mem(a := ucast (drop_bit 8 w), a + 1 := ucast w)
      else mem(a := ucast w, a + 1 := ucast (drop_bit 8 w)))"

definition host_store32 :: "bool \<Rightarrow> nat \<Rightarrow> 32 word \<Rightarrow> (nat \<Rightarrow> 8 word) \<Rightarrow> nat \<Rightarrow> 8 word" where
  "host_store32 be a w mem =
     (if be then mem(a := ucast (drop_bit 24 w), a + 1 := ucast (drop_bit 16 w),
                     a + 2 := ucast (drop_bit 8 w), a + 3 := ucast w)
      else mem(a := ucast w, a + 1 := ucast (drop_bit 8 w),
               a + 2 := ucast (drop_bit 16 w), a + 3 := ucast (drop_bit 24 w)))"

section \<open>Address translation\<close>

text \<open>The search of the TLB: the first valid entry for the virtual page.\<close>

fun find_tlb :: "TranslationEntry list \<Rightarrow> nat \<Rightarrow> 32 word \<Rightarrow> nat option" where
  "find_tlb entries 0 vpn = None"
| "find_tlb [] (Suc n) vpn = None"
| "find_tlb (t # ts) (Suc n) vpn =
     (if te_valid t \<and> virtualPage t = vpn then Some 0 else map_option Suc (find_tlb ts n vpn))"

text \<open>What is done with the entry once it is found; \<open>upd\<close> stores it back into its table.\<close>

definition translate_entry ::
    "Machine \<Rightarrow> TranslationEntry \<Rightarrow> (TranslationEntry \<Rightarrow> Machine) \<Rightarrow> nat \<Rightarrow> nat \<Rightarrow> bool
      \<Rightarrow> (ExceptionType \<times> nat \<times> Machine) result" where
  "translate_entry m entry upd offset sz writing =
     (if readOnly entry \<and> writing then Inr (ReadOnlyException, 0, m)
      else let pageFrame = unat (physicalPage entry) in
        if pageFrame \<ge> NumPhysPages then Inr (BusErrorException, 0, m)
        else let physAddr = pageFrame * PageSize + offset in
          ASSERT (physAddr + sz \<le> MemorySize)
            (Inr (NoException, physAddr,
               upd (entry\<lparr>te_use := True, te_dirty := te_dirty entry \<or> writing\<rparr>))))"

definition Machine_Translate ::
    "Machine \<Rightarrow> 32 word \<Rightarrow> nat \<Rightarrow> bool \<Rightarrow> (ExceptionType \<times> nat \<times> Machine) result" where
  "Machine_Translate m virtAddr sz writing =
     (if (sz = 4 \<and> virtAddr AND 0x3 \<noteq> 0) \<or> (sz = 2 \<and> virtAddr AND 0x1 \<noteq> 0)
      then Inr (AddressErrorException, 0, m)
      else ASSERT (tlb m = None \<or> pageTable m = None) (ASSERT (tlb m \<noteq> None \<or> pageTable m \<noteq> None)
        (let vpn = unat virtAddr div PageSize; offset = unat virtAddr mod PageSize in
         case (tlb m, pageTable m) of
           (None, Some pt) \<Rightarrow>
             if vpn \<ge> unat (pageTableSize m) then Inr (AddressErrorException, 0, m)
             else if vpn \<ge> length pt then Inl OutOfBounds
             else if \<not> te_valid (pt ! vpn) then Inr (PageFaultException, 0, m)
             else translate_entry m (pt ! vpn) (\<lambda>e. m\<lparr>pageTable := Some (pt[vpn := e])\<rparr>) offset sz writing
         | (Some ts, _) \<Rightarrow>
             if length ts < TLBSize then Inl OutOfBounds
             else (case find_tlb ts TLBSize (of_nat vpn) of
                 None \<Rightarrow> Inr (PageFaultException, 0, m)
               | Some i \<Rightarrow> translate_entry m (ts ! i) (\<lambda>e. m\<lparr>tlb := Some (ts[i := e])\<rparr>) offset sz writing)
         | _ \<Rightarrow> Inl Assertion)))"

section \<open>Memory accesses\<close>

text \<open>A byte is a signed \<^verbatim>\<open>char\<close>, so reading one into an \<^verbatim>\<open>int\<close> sign-extends it.\<close>

definition Machine_ReadMem :: "Machine \<Rightarrow> 32 word \<Rightarrow> nat \<Rightarrow> (32 word \<times> Machine) outcome result" where
  "Machine_ReadMem m addr sz = rbind (Machine_Translate m addr sz False)
     (\<lambda>(exception, physicalAddress, m').
       if exception \<noteq> NoException then Machine_RaiseException m' exception addr
       else if sz = 1 then Inr (Returned (scast (mainMemory m' physicalAddress), m'))
       else if sz = 2 then Inr (Returned (ucast (ShortToHost (hostBigEndian m')
              (host_load16 (hostBigEndian m') (mainMemory m') physicalAddress)), m'))
       else if sz = 4 then Inr (Returned (WordToHost (hostBigEndian m')
              (host_load32 (hostBigEndian m') (mainMemory m') physicalAddress), m'))
       else Inl Assertion)"

definition Machine_WriteMem :: "Machine \<Rightarrow> 32 word \<Rightarrow> nat \<Rightarrow> 32 word \<Rightarrow> Machine outcome result" where
  "Machine_WriteMem m addr sz value = rbind (Machine_Translate m addr sz True)
     (\<lambda>(exception, physicalAddress, m').
       if exception \<noteq> NoException then Machine_RaiseException m' exception addr
       else if sz = 1 then Inr (Returned (m'\<lparr>mainMemory :=
              (mainMemory m')(physicalAddress := ucast (value AND 0xff))\<rparr>))
       else if sz = 2 then Inr (Returned (m'\<lparr>mainMemory := host_store16 (hostBigEndian m') physicalAddress
              (ShortToMachine (hostBigEndian m') (ucast (value AND 0xffff))) (mainMemory m')\<rparr>))
       else if sz = 4 then Inr (Returned (m'\<lparr>mainMemory := host_store32 (hostBigEndian m') physicalAddress
              (WordToMachine (hostBigEndian m') value) (mainMemory m')\<rparr>))
       else Inl Assertion)"

section \<open>The little-endian image of memory\<close>

text \<open>
  What the byte-swapping conversions amount to on either host: memory holds numbers with the least
  significant byte first.
\<close>

definition load16_le :: "(nat \<Rightarrow> 8 word) \<Rightarrow> nat \<Rightarrow> 16 word" where
  "load16_le mem a = word_cat (mem (a + 1)) (mem a)"

definition load32_le :: "(nat \<Rightarrow> 8 word) \<Rightarrow> nat \<Rightarrow> 32 word" where
  "load32_le mem a = word_cat (load16_le mem (a + 2)) (load16_le mem a)"

lemma WordToHost_load: "WordToHost be (host_load32 be mem a) = load32_le mem a"
  by (rule word_eq_upt) (simp add: WordToHost_def host_load32_def host_load16_def load32_le_def load16_le_def
      bit_simps upt_word_sizes)

lemma ShortToHost_load: "ShortToHost be (host_load16 be mem a) = load16_le mem a"
  by (rule word_eq_upt) (simp add: ShortToHost_def host_load16_def load16_le_def bit_simps upt_word_sizes)

definition store16_le :: "nat \<Rightarrow> 16 word \<Rightarrow> (nat \<Rightarrow> 8 word) \<Rightarrow> nat \<Rightarrow> 8 word" where
  "store16_le a w mem = mem(a := ucast w, a + 1 := ucast (drop_bit 8 w))"

definition store32_le :: "nat \<Rightarrow> 32 word \<Rightarrow> (nat \<Rightarrow> 8 word) \<Rightarrow> nat \<Rightarrow> 8 word" where
  "store32_le a w mem = mem(a := ucast w, a + 1 := ucast (drop_bit 8 w),
               a + 2 := ucast (drop_bit 16 w), a + 3 := ucast (drop_bit 24 w))"

lemma WordToHost_bytes:
  "ucast (drop_bit 24 (WordToHost True w)) = (ucast w :: 8 word)"
  "ucast (drop_bit 16 (WordToHost True w)) = (ucast (drop_bit 8 w) :: 8 word)"
  "ucast (drop_bit 8 (WordToHost True w)) = (ucast (drop_bit 16 w) :: 8 word)"
  "ucast (WordToHost True w) = (ucast (drop_bit 24 w) :: 8 word)"
  by (rule word_eq_upt; simp add: WordToHost_def bit_simps upt_word_sizes)+

lemma ShortToHost_bytes:
  "ucast (drop_bit 8 (ShortToHost True w)) = (ucast w :: 8 word)"
  "ucast (ShortToHost True w) = (ucast (drop_bit 8 w) :: 8 word)"
  by (rule word_eq_upt; simp add: ShortToHost_def bit_simps upt_word_sizes)+

lemma WordToMachine_store: "host_store32 be a (WordToMachine be w) mem = store32_le a w mem"
  by (cases be) (simp_all add: host_store32_def WordToMachine_def WordToHost_bytes store32_le_def
    WordToHost_def [of False] fun_upd_twist)

lemma ShortToMachine_store: "host_store16 be a (ShortToMachine be w) mem = store16_le a w mem"
  by (cases be) (simp_all add: host_store16_def ShortToMachine_def ShortToHost_bytes store16_le_def
    ShortToHost_def [of False] fun_upd_twist)

lemma load16_store16_le: "load16_le (store16_le a w mem) a = w"
  by (rule word_eq_upt) (simp add: load16_le_def store16_le_def bit_simps upt_word_sizes)

lemma load32_store32_le: "load32_le (store32_le a w mem) a = w"
  by (rule word_eq_upt) (simp add: load32_le_def load16_le_def store32_le_def bit_simps upt_word_sizes)

lemma store16_le_frame: "x < a \<or> x \<ge> a + 2 \<Longrightarrow> store16_le a w mem x = mem x"
  by (auto simp: store16_le_def)

lemma store32_le_frame: "x < a \<or> x \<ge> a + 4 \<Longrightarrow> store32_le a w mem x = mem x"
  by (auto simp: store32_le_def)

lemma mask8: "ucast (v AND 0xff :: 32 word) = (ucast v :: 8 word)"
  by (rule word_eq_upt) (simp add: bit_simps upt_word_sizes)

lemma mask16: "ucast (v AND 0xffff :: 32 word) = (ucast v :: 16 word)"
  by (rule word_eq_upt) (simp add: bit_simps upt_word_sizes)


section \<open>Which accesses are granted\<close>

text \<open>
  \<open>mmu_ok\<close>: exactly one of TLB and page table is installed and its array is as long as the machine
  takes it to be. \<open>entry_for\<close> is the translation in force for an address.
\<close>

definition mmu_ok :: "Machine \<Rightarrow> bool" where
  "mmu_ok m \<longleftrightarrow> (case (tlb m, pageTable m) of
       (None, Some pt) \<Rightarrow> unat (pageTableSize m) \<le> length pt
     | (Some ts, None) \<Rightarrow> TLBSize \<le> length ts
     | _ \<Rightarrow> False)"

definition entry_for :: "Machine \<Rightarrow> 32 word \<Rightarrow> TranslationEntry option" where
  "entry_for m virtAddr = (let vpn = unat virtAddr div PageSize in case (tlb m, pageTable m) of
       (None, Some pt) \<Rightarrow> if vpn < unat (pageTableSize m) \<and> te_valid (pt ! vpn) then Some (pt ! vpn) else None
     | (Some ts, _) \<Rightarrow> map_option ((!) ts) (find_tlb ts TLBSize (of_nat vpn))
     | _ \<Rightarrow> None)"

definition aligned :: "32 word \<Rightarrow> nat \<Rightarrow> bool" where
  "aligned virtAddr sz \<longleftrightarrow> unat virtAddr mod sz = 0"

definition frame_address :: "TranslationEntry \<Rightarrow> 32 word \<Rightarrow> nat" where
  "frame_address e virtAddr = unat (physicalPage e) * PageSize + unat virtAddr mod PageSize"

lemma and_mask_zero_iff:
  "(x :: 32 word) AND 3 = 0 \<longleftrightarrow> unat x mod 4 = 0"
  "(x :: 32 word) AND 1 = 0 \<longleftrightarrow> unat x mod 2 = 0"
proof -
  have "x AND 3 = take_bit 2 x" "x AND 1 = take_bit 1 x"
    by (simp_all add: take_bit_eq_mask mask_numeral)
  then show "x AND 3 = 0 \<longleftrightarrow> unat x mod 4 = 0" "x AND 1 = 0 \<longleftrightarrow> unat x mod 2 = 0"
    by (simp_all add: word_unat_eq_iff unsigned_take_bit_eq take_bit_eq_mod unat_mod_distrib del: take_bit_eq_0_iff)
qed

lemma alignment_check:
  "sz \<in> {1, 2, 4} \<Longrightarrow> ((sz = 4 \<and> virtAddr AND 0x3 \<noteq> 0) \<or> (sz = 2 \<and> virtAddr AND 0x1 \<noteq> 0)) = (\<not> aligned virtAddr sz)"
  by (auto simp: aligned_def and_mask_zero_iff)

lemma aligned_in_page:
  assumes "sz \<in> {1, 2, 4}" "aligned virtAddr sz"
  shows "unat virtAddr mod PageSize + sz \<le> PageSize"
proof -
  have *: "sz dvd PageSize" using assms(1) by (auto simp: machine_sizes)
  then have "sz dvd unat virtAddr mod PageSize"
    using assms(2) by (simp add: aligned_def dvd_mod_iff mod_eq_0_iff_dvd)
  with * obtain a b where ab: "unat virtAddr mod PageSize = sz * a" "PageSize = sz * b"
    by (auto simp: dvd_def)
  have "unat virtAddr mod PageSize < PageSize" by (simp add: machine_sizes)
  then have "sz * a < sz * b" using ab by linarith
  then have "a < b" by simp
  then have "sz * Suc a \<le> sz * b" by (intro mult_le_mono) auto
  with ab show ?thesis by simp
qed

lemma frame_address_bounds:
  assumes "sz \<in> {1, 2, 4}" "aligned virtAddr sz" "unat (physicalPage e) < NumPhysPages"
  shows "frame_address e virtAddr + sz \<le> MemorySize"
    and "\<And>i. i < sz \<Longrightarrow> (frame_address e virtAddr + i) div PageSize = unat (physicalPage e)"
proof -
  note b = aligned_in_page [OF assms(1,2)]
  have "Suc (unat (physicalPage e)) * PageSize \<le> NumPhysPages * PageSize"
    using assms(3) by (intro mult_le_mono) auto
  with b show "frame_address e virtAddr + sz \<le> MemorySize"
    by (simp add: frame_address_def MemorySize_def)
  fix i assume "i < sz"
  with b have "unat virtAddr mod PageSize + i < PageSize" by simp
  then show "(frame_address e virtAddr + i) div PageSize = unat (physicalPage e)"
    by (simp add: frame_address_def machine_sizes)
qed

lemma find_tlb_Some:
  "find_tlb ts n vpn = Some i \<Longrightarrow> i < n \<and> i < length ts \<and> te_valid (ts ! i) \<and> virtualPage (ts ! i) = vpn
     \<and> (\<forall>j<i. \<not> (te_valid (ts ! j) \<and> virtualPage (ts ! j) = vpn))"
  by (induction ts n vpn arbitrary: i rule: find_tlb.induct)
    (auto split: if_splits simp: nth_Cons less_Suc_eq_0_disj split: nat.splits)

lemma find_tlb_update:
  assumes "find_tlb ts n vpn = Some i" "virtualPage e = virtualPage (ts ! i)" "te_valid e = te_valid (ts ! i)"
  shows "find_tlb (ts[i := e]) n vpn = Some i"
  using assms
  by (induction ts n vpn arbitrary: i rule: find_tlb.induct) (auto split: if_splits)

text \<open>An access that \<open>Machine_Translate\<close> grants, and the table it leaves behind.\<close>

definition accessible :: "Machine \<Rightarrow> 32 word \<Rightarrow> nat \<Rightarrow> bool \<Rightarrow> TranslationEntry \<Rightarrow> bool" where
  "accessible m virtAddr sz writing e \<longleftrightarrow> aligned virtAddr sz \<and> entry_for m virtAddr = Some e
     \<and> \<not> (readOnly e \<and> writing) \<and> unat (physicalPage e) < NumPhysPages"

definition touch :: "bool \<Rightarrow> TranslationEntry \<Rightarrow> TranslationEntry" where
  "touch writing e = e\<lparr>te_use := True, te_dirty := te_dirty e \<or> writing\<rparr>"

lemma touch_simps [simp]:
  "virtualPage (touch w e) = virtualPage e" "physicalPage (touch w e) = physicalPage e"
  "te_valid (touch w e) = te_valid e" "readOnly (touch w e) = readOnly e"
  "touch w (touch w e) = touch w e" "touch False (touch w e) = touch w e"
  by (auto simp: touch_def)

definition touch_entry :: "Machine \<Rightarrow> 32 word \<Rightarrow> bool \<Rightarrow> Machine" where
  "touch_entry m virtAddr writing = (let vpn = unat virtAddr div PageSize in case (tlb m, pageTable m) of
       (None, Some pt) \<Rightarrow> m\<lparr>pageTable := Some (pt[vpn := touch writing (pt ! vpn)])\<rparr>
     | (Some ts, _) \<Rightarrow> (case find_tlb ts TLBSize (of_nat vpn) of None \<Rightarrow> m
         | Some i \<Rightarrow> m\<lparr>tlb := Some (ts[i := touch writing (ts ! i)])\<rparr>)
     | _ \<Rightarrow> m)"

lemma touch_entry_keeps [simp]:
  "registers (touch_entry m va w) = registers m" "mainMemory (touch_entry m va w) = mainMemory m"
  "hostBigEndian (touch_entry m va w) = hostBigEndian m" "pageTableSize (touch_entry m va w) = pageTableSize m"
  by (simp_all add: touch_entry_def Let_def split: option.splits)

lemma mmu_ok_cases:
  assumes "mmu_ok m"
  obtains (table) pt where "tlb m = None" "pageTable m = Some pt" "unat (pageTableSize m) \<le> length pt"
  | (tlb) ts where "tlb m = Some ts" "pageTable m = None" "TLBSize \<le> length ts"
  using assms by (auto simp: mmu_ok_def split: option.splits)

lemma touch_entry_mmu_ok [simp]: "mmu_ok (touch_entry m va w) = mmu_ok m"
  by (auto simp: touch_entry_def mmu_ok_def Let_def split: option.splits)

lemma entry_for_touch_entry:
  assumes "mmu_ok m" "entry_for m va = Some e"
  shows "entry_for (touch_entry m va w) va = Some (touch w e)"
  using assms(1)
proof (cases rule: mmu_ok_cases)
  case (table pt)
  then show ?thesis using assms(2)
    by (auto simp: entry_for_def touch_entry_def Let_def split: if_splits)
next
  case (tlb ts)
  with assms(2) obtain i where i: "find_tlb ts TLBSize (of_nat (unat va div PageSize)) = Some i" "e = ts ! i"
    by (auto simp: entry_for_def)
  with find_tlb_Some [OF i(1)] find_tlb_update [OF i(1), of "touch w e"] tlb show ?thesis
    by (simp add: entry_for_def touch_entry_def Let_def)
qed

lemma touch_entry_twice:
  assumes "mmu_ok m" "entry_for m va = Some e" "w' \<longrightarrow> w"
  shows "touch_entry (touch_entry m va w) va w' = touch_entry m va w"
  using assms(1)
proof (cases rule: mmu_ok_cases)
  case (table pt)
  then show ?thesis using assms(2,3)
    by (auto simp: entry_for_def touch_entry_def touch_def Let_def split: if_splits)
next
  case (tlb ts)
  with assms(2) obtain i where i: "find_tlb ts TLBSize (of_nat (unat va div PageSize)) = Some i" "e = ts ! i"
    by (auto simp: entry_for_def)
  with find_tlb_Some [OF i(1)] find_tlb_update [OF i(1), of "touch w e"] tlb assms(3) show ?thesis
    by (auto simp: touch_entry_def touch_def Let_def)
qed

lemma translate_entry_granted:
  assumes "sz \<in> {1, 2, 4}" "aligned va sz" "\<not> (readOnly e \<and> writing)" "unat (physicalPage e) < NumPhysPages"
  shows "translate_entry m e upd (unat va mod PageSize) sz writing
    = Inr (NoException, frame_address e va, upd (touch writing e))"
  using frame_address_bounds(1) [OF assms(1,2,4)] assms
  by (auto simp: translate_entry_def touch_def frame_address_def)

lemma Machine_Translate_granted:
  assumes "mmu_ok m" "sz \<in> {1, 2, 4}" "accessible m va sz writing e"
  shows "Machine_Translate m va sz writing = Inr (NoException, frame_address e va, touch_entry m va writing)"
  using assms(1)
proof (cases rule: mmu_ok_cases)
  case (table pt)
  with assms translate_entry_granted [OF assms(2)] show ?thesis
    unfolding Machine_Translate_def alignment_check [OF assms(2)]
    by (auto simp: accessible_def entry_for_def touch_entry_def Let_def not_le split: if_splits)
next
  case (tlb ts)
  with assms(3) obtain i where i: "find_tlb ts TLBSize (of_nat (unat va div PageSize)) = Some i" "e = ts ! i"
    by (auto simp: entry_for_def accessible_def)
  with tlb assms(3) translate_entry_granted [OF assms(2)] show ?thesis
    unfolding Machine_Translate_def alignment_check [OF assms(2)]
    by (auto simp: accessible_def touch_entry_def Let_def not_le)
qed

text \<open>The exception that refuses an access, in the order of the checks.\<close>

definition refusal :: "Machine \<Rightarrow> 32 word \<Rightarrow> nat \<Rightarrow> bool \<Rightarrow> ExceptionType" where
  "refusal m virtAddr sz writing =
     (if \<not> aligned virtAddr sz then AddressErrorException
      else if tlb m = None \<and> unat virtAddr div PageSize \<ge> unat (pageTableSize m) then AddressErrorException
      else case entry_for m virtAddr of
          None \<Rightarrow> PageFaultException
        | Some e \<Rightarrow> if readOnly e \<and> writing then ReadOnlyException else BusErrorException)"

lemma Machine_Translate_refused:
  assumes "mmu_ok m" "sz \<in> {1, 2, 4}" "\<nexists>e. accessible m va sz writing e"
  shows "Machine_Translate m va sz writing = Inr (refusal m va sz writing, 0, m)"
  using assms(1)
proof (cases rule: mmu_ok_cases)
  case (table pt)
  with assms show ?thesis
    unfolding Machine_Translate_def alignment_check [OF assms(2)]
    by (auto simp: accessible_def entry_for_def refusal_def translate_entry_def Let_def not_le not_less split: if_splits)
next
  case (tlb ts)
  with assms show ?thesis
    unfolding Machine_Translate_def alignment_check [OF assms(2)]
    by (auto simp: accessible_def entry_for_def refusal_def translate_entry_def Let_def not_le not_less
      split: option.splits)
qed

section \<open>Reads and writes of virtual memory\<close>

definition extend_read :: "nat \<Rightarrow> (nat \<Rightarrow> 8 word) \<Rightarrow> nat \<Rightarrow> 32 word" where
  "extend_read sz mem a = (if sz = 1 then scast (mem a)
     else if sz = 2 then ucast (load16_le mem a) else load32_le mem a)"

definition store_le :: "nat \<Rightarrow> nat \<Rightarrow> 32 word \<Rightarrow> (nat \<Rightarrow> 8 word) \<Rightarrow> nat \<Rightarrow> 8 word" where
  "store_le sz a v mem = (if sz = 1 then mem(a := ucast v)
     else if sz = 2 then store16_le a (ucast v) mem else store32_le a v mem)"

lemma store_le_frame: "sz \<in> {1, 2, 4} \<Longrightarrow> x < a \<or> x \<ge> a + sz \<Longrightarrow> store_le sz a v mem x = mem x"
  by (auto simp: store_le_def store16_le_frame store32_le_frame)

definition truncated :: "nat \<Rightarrow> 32 word \<Rightarrow> 32 word" where
  "truncated sz v = (if sz = 1 then scast (ucast v :: 8 word) else if sz = 2 then ucast (ucast v :: 16 word) else v)"

lemma extend_read_store_le: "sz \<in> {1, 2, 4} \<Longrightarrow> extend_read sz (store_le sz a v mem) a = truncated sz v"
  by (auto simp: extend_read_def store_le_def truncated_def load16_store16_le load32_store32_le)

lemma Machine_ReadMem_granted:
  assumes "mmu_ok m" "sz \<in> {1, 2, 4}" "accessible m va sz False e"
  shows "Machine_ReadMem m va sz
    = Inr (Returned (extend_read sz (mainMemory m) (frame_address e va), touch_entry m va False))"
  using assms(2) Machine_Translate_granted [OF assms]
  by (auto simp: Machine_ReadMem_def extend_read_def WordToHost_load ShortToHost_load)

lemma Machine_WriteMem_granted:
  assumes "mmu_ok m" "sz \<in> {1, 2, 4}" "accessible m va sz True e"
  shows "Machine_WriteMem m va sz v = Inr (Returned ((touch_entry m va True)
    \<lparr>mainMemory := store_le sz (frame_address e va) v (mainMemory m)\<rparr>))"
  using assms(2) Machine_Translate_granted [OF assms]
  by (auto simp: Machine_WriteMem_def store_le_def WordToMachine_store ShortToMachine_store mask8 mask16)

lemma refusal_not_NoException: "refusal m va sz w \<noteq> NoException"
  by (simp add: refusal_def split: option.splits)

definition load_pending_ok :: "Machine \<Rightarrow> bool" where
  "load_pending_ok m \<longleftrightarrow> unat (registers m LoadReg) < NumGPRegs"

text \<open>The state in which a trap reaches the kernel.\<close>

definition trap_state :: "Machine \<Rightarrow> 32 word \<Rightarrow> Machine" where
  "trap_state m badVAddr = set_reg 0 0 (set_reg LoadValueReg 0 (set_reg LoadReg 0
     (set_reg (unat (registers m LoadReg)) (registers m LoadValueReg) (set_reg BadVAddrReg badVAddr m))))"

lemma Machine_RaiseException_ok:
  "load_pending_ok m \<Longrightarrow> Machine_RaiseException m which bad = Inr (Trapped which (trap_state m bad))"
  by (simp add: Machine_RaiseException_def Machine_DelayedLoad_def load_pending_ok_def trap_state_def)

lemma Machine_ReadMem_refused:
  assumes "mmu_ok m" "load_pending_ok m" "sz \<in> {1, 2, 4}" "\<nexists>e. accessible m va sz False e"
  shows "Machine_ReadMem m va sz = Inr (Trapped (refusal m va sz False) (trap_state m va))"
  using assms Machine_Translate_refused [OF assms(1,3,4)]
  by (simp add: Machine_ReadMem_def refusal_not_NoException Machine_RaiseException_ok)

lemma Machine_WriteMem_refused:
  assumes "mmu_ok m" "load_pending_ok m" "sz \<in> {1, 2, 4}" "\<nexists>e. accessible m va sz True e"
  shows "Machine_WriteMem m va sz v = Inr (Trapped (refusal m va sz True) (trap_state m va))"
  using assms Machine_Translate_refused [OF assms(1,3,4)]
  by (simp add: Machine_WriteMem_def refusal_not_NoException Machine_RaiseException_ok)

lemma mmu_ok_update_memory [simp]:
  "mmu_ok (m\<lparr>mainMemory := mem\<rparr>) = mmu_ok m" "entry_for (m\<lparr>mainMemory := mem\<rparr>) = entry_for m"
  "touch_entry (m\<lparr>mainMemory := mem\<rparr>) va w = (touch_entry m va w)\<lparr>mainMemory := mem\<rparr>"
  by (auto simp: mmu_ok_def entry_for_def fun_eq_iff touch_entry_def Let_def split: option.splits)

text \<open>What a write that returned leaves behind: bytes of one writable frame, and nothing else.\<close>

lemma Machine_WriteMem_Returned:
  assumes "mmu_ok m" "load_pending_ok m" "sz \<in> {1, 2, 4}" "Machine_WriteMem m va sz v = Inr (Returned m')"
  obtains e where "accessible m va sz True e"
    "m' = (touch_entry m va True)\<lparr>mainMemory := store_le sz (frame_address e va) v (mainMemory m)\<rparr>"
  using assms Machine_WriteMem_refused [OF assms(1,2,3), of va v] Machine_WriteMem_granted [OF assms(1,3)]
  by fastforce

text \<open>
  What the execution of user instructions may change: of the page table the use and dirty bits, and of the memory
  bytes in the frames of the table.
\<close>

definition table_frames :: "Machine \<Rightarrow> nat set" where
  "table_frames m = (case pageTable m of None \<Rightarrow> {} | Some pt \<Rightarrow> (\<lambda>e. unat (physicalPage e)) ` set pt)"

definition paged :: "Machine \<Rightarrow> Machine \<Rightarrow> bool" where
  "paged m m' \<longleftrightarrow> (tlb m' = None \<longleftrightarrow> tlb m = None) \<and> pageTableSize m' = pageTableSize m
     \<and> map_option (map physicalPage) (pageTable m') = map_option (map physicalPage) (pageTable m)
     \<and> (tlb m = None \<longrightarrow> (\<forall>a. mainMemory m' a \<noteq> mainMemory m a \<longrightarrow> a div PageSize \<in> table_frames m))"

lemma table_frames_physical:
  "table_frames m = (case map_option (map physicalPage) (pageTable m) of None \<Rightarrow> {} | Some ps \<Rightarrow> unat ` set ps)"
  by (simp add: table_frames_def image_image split: option.split)

lemma paged_refl [simp]: "paged m m"
  by (simp add: paged_def)

lemma paged_trans: "paged m m1 \<Longrightarrow> paged m1 m2 \<Longrightarrow> paged m m2"
  unfolding paged_def table_frames_physical by metis

lemma paged_set_reg [simp]: "paged m (set_reg r v m') \<longleftrightarrow> paged m m'"
  by (simp add: paged_def set_reg_def)

lemma touch_entry_physical:
  "map_option (map physicalPage) (pageTable (touch_entry m va w)) = map_option (map physicalPage) (pageTable m)"
  "tlb (touch_entry m va w) = None \<longleftrightarrow> tlb m = None"
proof -
  have "(map physicalPage pt)[i := physicalPage (pt ! i)] = map physicalPage pt" for pt i
    by (cases "i < length pt") (simp_all add: list_update_beyond flip: nth_map)
  then show "map_option (map physicalPage) (pageTable (touch_entry m va w)) = map_option (map physicalPage) (pageTable m)"
    by (auto simp: touch_entry_def Let_def map_update split: option.splits)
qed (auto simp: touch_entry_def Let_def split: option.splits)

lemma paged_touch [simp]: "paged m (touch_entry m' va w) \<longleftrightarrow> paged m m'" "paged (touch_entry m va w) m' \<longleftrightarrow> paged m m'"
  by (simp_all add: paged_def table_frames_physical touch_entry_physical)

lemma entry_for_table:
  assumes "mmu_ok m" "tlb m = None" "entry_for m va = Some e"
  shows "unat (physicalPage e) \<in> table_frames m"
  using assms by (cases rule: mmu_ok_cases) (auto simp: entry_for_def table_frames_def Let_def split: if_splits)

lemma paged_store:
  assumes "mmu_ok m" "sz \<in> {1, 2, 4}" "accessible m va sz True e"
  shows "paged m ((touch_entry m va True)\<lparr>mainMemory := store_le sz (frame_address e va) v (mainMemory m)\<rparr>)"
proof -
  have "a div PageSize = unat (physicalPage e)" if "store_le sz (frame_address e va) v (mainMemory m) a \<noteq> mainMemory m a" for a
  proof -
    have "frame_address e va \<le> a" "a < frame_address e va + sz" using that store_le_frame [OF assms(2)] by (meson not_le)+
    moreover from this have "(frame_address e va + (a - frame_address e va)) div PageSize = unat (physicalPage e)"
      by (intro frame_address_bounds(2) [OF assms(2)]) (use assms(3) in \<open>auto simp: accessible_def\<close>)
    ultimately show ?thesis by simp
  qed
  then show ?thesis using entry_for_table [OF assms(1)] assms(3)
    by (auto simp: paged_def touch_entry_physical accessible_def)
qed

lemma write_then_read:
  assumes "mmu_ok m" "load_pending_ok m" "sz \<in> {1, 2, 4}" "Machine_WriteMem m va sz v = Inr (Returned m')"
  shows "Machine_ReadMem m' va sz = Inr (Returned (truncated sz v, m'))"
proof -
  obtain e where e: "accessible m va sz True e"
    and m': "m' = (touch_entry m va True)\<lparr>mainMemory := store_le sz (frame_address e va) v (mainMemory m)\<rparr>"
    using Machine_WriteMem_Returned [OF assms] .
  then have *: "entry_for m va = Some e" "mmu_ok m'" using assms(1) by (auto simp: accessible_def)
  then have "accessible m' va sz False (touch True e)"
    using e assms(1) by (simp add: accessible_def m' entry_for_touch_entry)
  from Machine_ReadMem_granted [OF *(2) assms(3) this] show ?thesis
    using assms(3) by (simp add: m' touch_entry_twice [OF assms(1) *(1)] frame_address_def extend_read_store_le)
qed

section \<open>Properties\<close>

text \<open>
  A machine with a page table of one page, mapped to frame 3 and writable, and a machine like it
  whose page is read-only.
\<close>

definition sample_entry :: "bool \<Rightarrow> TranslationEntry" where
  "sample_entry ro = \<lparr>virtualPage = 0, physicalPage = 3, te_valid = True, readOnly = ro, te_use = False,
     te_dirty = False\<rparr>"

definition sample_machine :: "bool \<Rightarrow> Machine" where
  "sample_machine ro = (Machine_Machine False 1)\<lparr>pageTable := Some [sample_entry ro]\<rparr>"

lemma sample_machine_ok: "mmu_ok (sample_machine ro)" "load_pending_ok (sample_machine ro)"
  by (simp_all add: sample_machine_def Machine_Machine_def mmu_ok_def load_pending_ok_def)

lemma sample_accessible:
  "accessible (sample_machine ro) 4 4 w (sample_entry ro) \<longleftrightarrow> \<not> (ro \<and> w)"
  by (simp add: accessible_def aligned_def entry_for_def sample_machine_def Machine_Machine_def
      sample_entry_def machine_sizes)

lemma sample_store: "\<exists>m'. Machine_WriteMem (sample_machine False) 4 4 v = Inr (Returned m')"
  using sample_machine_ok [of False] sample_accessible [of False True]
  by (auto intro!: exI Machine_WriteMem_granted)

text \<open>
  C19. On a machine with exactly one translation table installed, an access of 1, 2 or 4 bytes is
  either granted, and then the physical bytes all lie inside memory and inside the frame of the
  entry, of which only the use and dirty bits change; or refused with an exception and no change of
  state. The simulator's own assertions on the tables and on the physical address never fail.
\<close>

theorem translate_granted_or_refused:
  assumes "mmu_ok m" "sz \<in> {1, 2, 4}"
  shows "(\<forall>e. accessible m va sz writing e \<longrightarrow>
        Machine_Translate m va sz writing = Inr (NoException, frame_address e va, touch_entry m va writing)
        \<and> frame_address e va + sz \<le> MemorySize
        \<and> (\<forall>i < sz. (frame_address e va + i) div PageSize = unat (physicalPage e)))
    \<and> ((\<nexists>e. accessible m va sz writing e) \<longrightarrow>
        Machine_Translate m va sz writing = Inr (refusal m va sz writing, 0, m)
        \<and> refusal m va sz writing \<noteq> NoException)"
  using Machine_Translate_granted [OF assms] Machine_Translate_refused [OF assms]
    frame_address_bounds [OF assms(2)] refusal_not_NoException
  by (auto simp: accessible_def)

theorem translate_granted_or_refused_witness:
  "Machine_Translate (sample_machine False) 4 4 True
     = Inr (NoException, 388, touch_entry (sample_machine False) 4 True)
   \<and> Machine_Translate (sample_machine True) 4 4 True = Inr (ReadOnlyException, 0, sample_machine True)"
proof -
  have "Machine_Translate (sample_machine False) 4 4 True
      = Inr (NoException, frame_address (sample_entry False) 4, touch_entry (sample_machine False) 4 True)"
    using translate_granted_or_refused [OF sample_machine_ok(1), of 4 False 4 True] sample_accessible [of False True]
    by simp
  moreover have "\<nexists>e. accessible (sample_machine True) 4 4 True e"
    by (auto simp: accessible_def entry_for_def sample_machine_def Machine_Machine_def sample_entry_def
        machine_sizes)
  then have "Machine_Translate (sample_machine True) 4 4 True
      = Inr (refusal (sample_machine True) 4 4 True, 0, sample_machine True)"
    using translate_granted_or_refused [OF sample_machine_ok(1), of 4 True 4 True] by simp
  ultimately show ?thesis
    by (simp add: frame_address_def refusal_def aligned_def entry_for_def sample_machine_def
        Machine_Machine_def sample_entry_def machine_sizes)
qed

lemma store_confined:
  assumes "mmu_ok m" "load_pending_ok m" "sz \<in> {1, 2, 4}" "Machine_WriteMem m va sz v = Inr (Returned m')"
  shows "\<exists>e. entry_for m va = Some e \<and> \<not> readOnly e
    \<and> (\<forall>a. mainMemory m' a \<noteq> mainMemory m a \<longrightarrow> a div PageSize = unat (physicalPage e))
    \<and> registers m' = registers m"
proof -
  obtain e where e: "accessible m va sz True e"
    and m': "m' = (touch_entry m va True)\<lparr>mainMemory := store_le sz (frame_address e va) v (mainMemory m)\<rparr>"
    using Machine_WriteMem_Returned [OF assms] .
  have "a div PageSize = unat (physicalPage e)" if "mainMemory m' a \<noteq> mainMemory m a" for a
  proof -
    have "frame_address e va \<le> a" "a < frame_address e va + sz"
      using that store_le_frame [OF assms(3), of a "frame_address e va" v "mainMemory m"]
      by (simp_all add: m') (meson not_less)+
    then show ?thesis
      using frame_address_bounds(2) [OF assms(3), of va e "a - frame_address e va"] e
      by (auto simp: accessible_def)
  qed
  with e show ?thesis by (auto simp: accessible_def m')
qed

text \<open>
  C22. Memory protection: a store that returns went through a valid entry that is not read-only, and
  every byte of physical memory it changed lies in that entry's frame; the registers are untouched.
\<close>

theorem store_confined_to_writable_frame:
  assumes "mmu_ok m" "load_pending_ok m" "sz \<in> {1, 2, 4}" "Machine_WriteMem m va sz v = Inr (Returned m')"
  shows "\<exists>e. entry_for m va = Some e \<and> \<not> readOnly e
    \<and> (\<forall>a. mainMemory m' a \<noteq> mainMemory m a \<longrightarrow> a div PageSize = unat (physicalPage e))
    \<and> registers m' = registers m"
  using assms by (rule store_confined)

theorem store_confined_to_writable_frame_witness:
  "\<exists>m'. Machine_WriteMem (sample_machine False) 4 4 9 = Inr (Returned m')
     \<and> (\<forall>a. mainMemory m' a \<noteq> mainMemory (sample_machine False) a \<longrightarrow> a div PageSize = 3)"
proof -
  obtain m' where m': "Machine_WriteMem (sample_machine False) 4 4 9 = Inr (Returned m')"
    using sample_store ..
  have "entry_for (sample_machine False) 4 = Some (sample_entry False)"
    using sample_accessible [of False True] by (simp add: accessible_def)
  with m' store_confined_to_writable_frame [OF sample_machine_ok _ m'] show ?thesis
    by (auto simp: sample_entry_def)
qed

text \<open>
  C26. Reading back what was just stored at an address gives the stored value, cut to the size of the
  access (a byte comes back sign-extended), and changes nothing further in the machine.
\<close>

theorem store_load_roundtrip:
  assumes "mmu_ok m" "load_pending_ok m" "sz \<in> {1, 2, 4}" "Machine_WriteMem m va sz v = Inr (Returned m')"
  shows "Machine_ReadMem m' va sz = Inr (Returned (truncated sz v, m'))"
  by (rule write_then_read [OF assms])

theorem store_load_roundtrip_witness:
  "\<exists>m'. Machine_WriteMem (sample_machine False) 4 4 0xcafe = Inr (Returned m')
     \<and> Machine_ReadMem m' 4 4 = Inr (Returned (0xcafe, m'))"
proof -
  obtain m' where m': "Machine_WriteMem (sample_machine False) 4 4 0xcafe = Inr (Returned m')"
    using sample_store ..
  with store_load_roundtrip [OF sample_machine_ok _ m'] show ?thesis by (simp add: truncated_def)
qed

text \<open>
  C27. The byte-order conversions make the simulated memory little-endian on either host: loads and
  stores of shorts and words through WordToHost, ShortToHost, WordToMachine and ShortToMachine have
  the same effect on memory whatever the byte order of the host.
\<close>

theorem memory_little_endian_on_any_host:
  "WordToHost be (host_load32 be mem a) = load32_le mem a
   \<and> ShortToHost be (host_load16 be mem a) = load16_le mem a
   \<and> host_store32 be a (WordToMachine be w) mem = store32_le a w mem
   \<and> host_store16 be a (ShortToMachine be h) mem = store16_le a h mem"
  by (simp add: WordToHost_load ShortToHost_load WordToMachine_store ShortToMachine_store)

end
