(* ===== verification/Nachos_MIPS.thy ===== *)
theory Nachos_MIPS
  imports Nachos_Machine
begin

text \<open>
  \<^verbatim>\<open>machine/mipssim.h\<close> and \<^verbatim>\<open>machine/mipssim.cc\<close>: the interpreter of the MIPS R2000/3000
  instruction set. \<open>Instruction_Decode\<close> and its two tables, the shift-and-add \<open>Mult\<close>, and
  \<open>Machine_OneInstruction\<close>, whose switch is split at the source's case labels into a chain of
  definitions, each passing the opcodes it does not list to the next.

  The registers are \<^verbatim>\<open>unsigned int\<close>, so a comparison or division of two registers, or
  of a register with an \<^verbatim>\<open>int\<close>, is unsigned, and \<open>>>\<close> on a register is logical; the
  locals \<open>sum\<close>, \<open>diff\<close>, \<open>tmp\<close> and \<open>value\<close> are \<^verbatim>\<open>int\<close>, so \<open>>>\<close> on
  them is arithmetic (\<open>signed_drop_bit\<close>). Signed additions wrap, as they do on the hosts Nachos
  is built for.
\<close>

section \<open>Instructions and their encoding\<close>

datatype (plugins only: size) opcode =
  OP_ADD | OP_ADDI | OP_ADDIU | OP_ADDU | OP_AND | OP_ANDI | OP_BEQ | OP_BGEZ | OP_BGEZAL |
  OP_BGTZ | OP_BLEZ | OP_BLTZ | OP_BLTZAL | OP_BNE | OP_DIV | OP_DIVU | OP_J | OP_JAL | OP_JALR
  | OP_JR | OP_LB | OP_LBU | OP_LH | OP_LHU | OP_LUI | OP_LW | OP_LWL | OP_LWR | OP_MFHI |
  OP_MFLO | OP_MTHI | OP_MTLO | OP_MULT | OP_MULTU | OP_NOR | OP_OR | OP_ORI | OP_RFE | OP_SB |
  OP_SH | OP_SLL | OP_SLLV | OP_SLT | OP_SLTI | OP_SLTIU | OP_SLTU | OP_SRA | OP_SRAV | OP_SRL |
  OP_SRLV | OP_SUB | OP_SUBU | OP_SW | OP_SWL | OP_SWR | OP_XOR | OP_XORI | OP_SYSCALL |
  OP_UNIMP | OP_RES | SPECIAL | BCOND

datatype opformat = IFMT | JFMT | RFMT

definition opTable :: "(opcode \<times> opformat) list" where
  "opTable = [
    (SPECIAL, RFMT), (BCOND, IFMT), (OP_J, JFMT), (OP_JAL, JFMT),
    (OP_BEQ, IFMT), (OP_BNE, IFMT), (OP_BLEZ, IFMT), (OP_BGTZ, IFMT),
    (OP_ADDI, IFMT), (OP_ADDIU, IFMT), (OP_SLTI, IFMT), (OP_SLTIU, IFMT),
    (OP_ANDI, IFMT), (OP_ORI, IFMT), (OP_XORI, IFMT), (OP_LUI, IFMT),
    (OP_UNIMP, IFMT), (OP_UNIMP, IFMT), (OP_UNIMP, IFMT), (OP_UNIMP, IFMT),
    (OP_RES, IFMT), (OP_RES, IFMT), (OP_RES, IFMT), (OP_RES, IFMT),
    (OP_RES, IFMT), (OP_RES, IFMT), (OP_RES, IFMT), (OP_RES, IFMT),
    (OP_RES, IFMT), (OP_RES, IFMT), (OP_RES, IFMT), (OP_RES, IFMT),
    (OP_LB, IFMT), (OP_LH, IFMT), (OP_LWL, IFMT), (OP_LW, IFMT),
    (OP_LBU, IFMT), (OP_LHU, IFMT), (OP_LWR, IFMT), (OP_RES, IFMT),
    (OP_SB, IFMT), (OP_SH, IFMT), (OP_SWL, IFMT), (OP_SW, IFMT),
    (OP_RES, IFMT), (OP_RES, IFMT), (OP_SWR, IFMT), (OP_RES, IFMT),
    (OP_UNIMP, IFMT), (OP_UNIMP, IFMT), (OP_UNIMP, IFMT), (OP_UNIMP, IFMT),
    (OP_RES, IFMT), (OP_RES, IFMT), (OP_RES, IFMT), (OP_RES, IFMT),
    (OP_UNIMP, IFMT), (OP_UNIMP, IFMT), (OP_UNIMP, IFMT), (OP_UNIMP, IFMT),
    (OP_RES, IFMT), (OP_RES, IFMT), (OP_RES, IFMT), (OP_RES, IFMT)
   ]"

definition specialTable :: "opcode list" where
  "specialTable = [
    OP_SLL, OP_RES, OP_SRL, OP_SRA, OP_SLLV, OP_RES, OP_SRLV, OP_SRAV,
    OP_JR, OP_JALR, OP_RES, OP_RES, OP_SYSCALL, OP_UNIMP, OP_RES, OP_RES,
    OP_MFHI, OP_MTHI, OP_MFLO, OP_MTLO, OP_RES, OP_RES, OP_RES, OP_RES,
    OP_MULT, OP_MULTU, OP_DIV, OP_DIVU, OP_RES, OP_RES, OP_RES, OP_RES,
    OP_ADD, OP_ADDU, OP_SUB, OP_SUBU, OP_AND, OP_OR, OP_XOR, OP_NOR,
    OP_RES, OP_RES, OP_SLT, OP_SLTU, OP_RES, OP_RES, OP_RES, OP_RES,
    OP_RES, OP_RES, OP_RES, OP_RES, OP_RES, OP_RES, OP_RES, OP_RES,
    OP_RES, OP_RES, OP_RES, OP_RES, OP_RES, OP_RES, OP_RES, OP_RES
   ]"

record Instruction =
  i_value :: "32 word"
  opCode :: opcode
  rs :: nat
  rt :: nat
  rd :: nat
  extra :: "32 word"

definition Instruction_Decode :: "32 word \<Rightarrow> Instruction" where
  "Instruction_Decode value =
     (let opPtr = opTable ! unat (drop_bit 26 value AND 0x3f);
          ext = (case snd opPtr of
              IFMT \<Rightarrow> (let ext = value AND 0xffff in if ext AND 0x8000 \<noteq> 0 then ext OR 0xffff0000 else ext)
            | RFMT \<Rightarrow> drop_bit 6 value AND 0x1f
            | JFMT \<Rightarrow> value AND 0x3ffffff);
          op = (if fst opPtr = SPECIAL then specialTable ! unat (value AND 0x3f)
            else if fst opPtr = BCOND then
              (let i = value AND 0x1f0000 in
               if i = 0 then OP_BLTZ else if i = 0x10000 then OP_BGEZ
               else if i = 0x100000 then OP_BLTZAL else if i = 0x110000 then OP_BGEZAL else OP_UNIMP)
            else fst opPtr)
      in \<lparr>i_value = value, opCode = op, rs = unat (drop_bit 21 value AND 0x1f),
          rt = unat (drop_bit 16 value AND 0x1f), rd = unat (drop_bit 11 value AND 0x1f), extra = ext\<rparr>)"

abbreviation (input) IndexToAddr :: "32 word \<Rightarrow> 32 word" where "IndexToAddr x \<equiv> push_bit 2 x"

abbreviation (input) SIGN_BIT :: "32 word" where "SIGN_BIT \<equiv> 0x80000000"

section \<open>Multiplication\<close>

fun Mult_loop :: "nat \<Rightarrow> 32 word \<Rightarrow> 32 word \<Rightarrow> 32 word \<Rightarrow> 32 word \<Rightarrow> 32 word \<Rightarrow> 32 word \<times> 32 word" where
  "Mult_loop 0 a bLo bHi lo hi = (lo, hi)"
| "Mult_loop (Suc i) a bLo bHi lo hi =
     (let lo' = (if a AND 1 \<noteq> 0 then lo + bLo else lo);
          hi' = (if a AND 1 \<noteq> 0 then hi + (if lo' < bLo then 1 else 0) + bHi else hi)
      in if a AND 1 \<noteq> 0 \<and> a AND 0xfffffffe = 0 then (lo', hi')
         else Mult_loop i (signed_drop_bit 1 a) (push_bit 1 bLo)
                (if bLo AND 0x80000000 \<noteq> 0 then push_bit 1 bHi OR 1 else push_bit 1 bHi) lo' hi')"

definition Mult :: "32 word \<Rightarrow> 32 word \<Rightarrow> bool \<Rightarrow> 32 word \<times> 32 word" where
  "Mult a b signedArith =
     (if a = 0 \<or> b = 0 then (0, 0)
      else let neg_a = signedArith \<and> a <s 0; neg_b = signedArith \<and> b <s 0;
          (lo, hi) = Mult_loop 32 (if neg_a then - a else a) (if neg_b then - b else b) 0 0 0
        in if neg_a \<noteq> neg_b
           then (let lo' = NOT lo + 1 in (if lo' = 0 then NOT hi + 1 else NOT hi, lo'))
           else (hi, lo))"

section \<open>One instruction\<close>

text \<open>
  What the switch leaves for the code after it: the machine, \<open>pcAfter\<close>, \<open>nextLoadReg\<close> and
  \<open>nextLoadValue\<close>. A case that returns early traps.
\<close>

type_synonym executed = "(Machine \<times> 32 word \<times> nat \<times> 32 word) outcome result"

definition break_with :: "Machine \<Rightarrow> 32 word \<Rightarrow> executed" where
  "break_with m pcAfter = Inr (Returned (m, pcAfter, 0, 0))"

definition write_break :: "Machine \<Rightarrow> nat \<Rightarrow> 32 word \<Rightarrow> executed" where
  "write_break m r v = break_with (set_reg r v m) (registers m NextPCReg + 4)"

definition branch_if :: "Machine \<Rightarrow> bool \<Rightarrow> Instruction \<Rightarrow> executed" where
  "branch_if m c i = break_with m (if c then registers m NextPCReg + IndexToAddr (extra i)
                                   else registers m NextPCReg + 4)"

definition link :: "Machine \<Rightarrow> nat \<Rightarrow> Machine" where
  "link m r = set_reg r (registers m NextPCReg + 4) m"

definition load_break :: "Machine \<Rightarrow> nat \<Rightarrow> 32 word \<Rightarrow> executed" where
  "load_break m r v = Inr (Returned (m, registers m NextPCReg + 4, r, v))"

definition store_break :: "Machine \<Rightarrow> 32 word \<Rightarrow> nat \<Rightarrow> 32 word \<Rightarrow> executed" where
  "store_break m addr sz v = obind (Machine_WriteMem m addr sz v)
     (\<lambda>m'. break_with m' (registers m NextPCReg + 4))"

definition switch_SWL_RES :: "Machine \<Rightarrow> Instruction \<Rightarrow> executed" where
  "switch_SWL_RES m i = (case opCode i of
     OP_SWL \<Rightarrow> (let tmp = registers m (rs i) + extra i in ASSERT (tmp AND 0x3 = 0)
       (obind (Machine_ReadMem m (tmp AND NOT 0x3) 4) (\<lambda>(value, m).
         let value = (if tmp AND 0x3 = 0 then registers m (rt i)
           else if tmp AND 0x3 = 1 then (value AND 0xff000000) OR (drop_bit 8 (registers m (rt i)) AND 0xffffff)
           else if tmp AND 0x3 = 2 then (value AND 0xffff0000) OR (drop_bit 16 (registers m (rt i)) AND 0xffff)
           else (value AND 0xffffff00) OR (drop_bit 24 (registers m (rt i)) AND 0xff))
         in store_break m (tmp AND NOT 0x3) 4 value)))
   | OP_SWR \<Rightarrow> (let tmp = registers m (rs i) + extra i in ASSERT (tmp AND 0x3 = 0)
       (obind (Machine_ReadMem m (tmp AND NOT 0x3) 4) (\<lambda>(value, m).
         let value = (if tmp AND 0x3 = 0 then (value AND 0xffffff) OR push_bit 24 (registers m (rt i))
           else if tmp AND 0x3 = 1 then (value AND 0xffff) OR push_bit 16 (registers m (rt i))
           else if tmp AND 0x3 = 2 then (value AND 0xff) OR push_bit 8 (registers m (rt i))
           else registers m (rt i))
         in store_break m (tmp AND NOT 0x3) 4 value)))
   | OP_SYSCALL \<Rightarrow> Machine_RaiseException m SyscallException 0
   | OP_XOR \<Rightarrow> write_break m (rd i) (registers m (rs i) XOR registers m (rt i))
   | OP_XORI \<Rightarrow> write_break m (rt i) (registers m (rs i) XOR (extra i AND 0xffff))
   | OP_RES \<Rightarrow> Machine_RaiseException m IllegalInstrException 0
   | OP_UNIMP \<Rightarrow> Machine_RaiseException m IllegalInstrException 0
   | _ \<Rightarrow> Inl Assertion)"

definition switch_SLL_SW :: "Machine \<Rightarrow> Instruction \<Rightarrow> executed" where
  "switch_SLL_SW m i = (case opCode i of
     OP_SLL \<Rightarrow> write_break m (rd i) (push_bit (unat (extra i)) (registers m (rt i)))
   | OP_SLLV \<Rightarrow> write_break m (rd i) (push_bit (unat (registers m (rs i) AND 0x1f)) (registers m (rt i)))
   | OP_SLT \<Rightarrow> write_break m (rd i) (if registers m (rs i) < registers m (rt i) then 1 else 0)
   | OP_SLTI \<Rightarrow> write_break m (rt i) (if registers m (rs i) < extra i then 1 else 0)
   | OP_SLTIU \<Rightarrow> write_break m (rt i) (if registers m (rs i) < extra i then 1 else 0)
   | OP_SLTU \<Rightarrow> write_break m (rd i) (if registers m (rs i) < registers m (rt i) then 1 else 0)
   | OP_SRA \<Rightarrow> write_break m (rd i) (drop_bit (unat (extra i)) (registers m (rt i)))
   | OP_SRAV \<Rightarrow> write_break m (rd i) (drop_bit (unat (registers m (rs i) AND 0x1f)) (registers m (rt i)))
   | OP_SRL \<Rightarrow> write_break m (rd i) (signed_drop_bit (unat (extra i)) (registers m (rt i)))
   | OP_SRLV \<Rightarrow> write_break m (rd i) (signed_drop_bit (unat (registers m (rs i) AND 0x1f)) (registers m (rt i)))
   | OP_SUB \<Rightarrow> (let diff = registers m (rs i) - registers m (rt i) in
       if (registers m (rs i) XOR registers m (rt i)) AND SIGN_BIT \<noteq> 0
           \<and> (registers m (rs i) XOR diff) AND SIGN_BIT \<noteq> 0
       then Machine_RaiseException m OverflowException 0 else write_break m (rd i) diff)
   | OP_SUBU \<Rightarrow> write_break m (rd i) (registers m (rs i) - registers m (rt i))
   | OP_SW \<Rightarrow> store_break m (registers m (rs i) + extra i) 4 (registers m (rt i))
   | _ \<Rightarrow> switch_SWL_RES m i)"

definition switch_MFHI_SH :: "Machine \<Rightarrow> Instruction \<Rightarrow> executed" where
  "switch_MFHI_SH m i = (case opCode i of
     OP_MFHI \<Rightarrow> write_break m (rd i) (registers m HiReg)
   | OP_MFLO \<Rightarrow> write_break m (rd i) (registers m LoReg)
   | OP_MTHI \<Rightarrow> write_break m HiReg (registers m (rs i))
   | OP_MTLO \<Rightarrow> write_break m LoReg (registers m (rs i))
   | OP_MULT \<Rightarrow> (let (hi, lo) = Mult (registers m (rs i)) (registers m (rt i)) True
       in write_break (set_reg HiReg hi m) LoReg lo)
   | OP_MULTU \<Rightarrow> (let (hi, lo) = Mult (registers m (rs i)) (registers m (rt i)) False
       in write_break (set_reg HiReg hi m) LoReg lo)
   | OP_NOR \<Rightarrow> write_break m (rd i) (NOT (registers m (rs i) OR registers m (rt i)))
   | OP_OR \<Rightarrow> write_break m (rd i) (registers m (rs i) OR registers m (rs i))
   | OP_ORI \<Rightarrow> write_break m (rt i) (registers m (rs i) OR (extra i AND 0xffff))
   | OP_SB \<Rightarrow> store_break m (registers m (rs i) + extra i) 1 (registers m (rt i))
   | OP_SH \<Rightarrow> store_break m (registers m (rs i) + extra i) 2 (registers m (rt i))
   | _ \<Rightarrow> switch_SLL_SW m i)"

definition switch_LWL_LWR :: "Machine \<Rightarrow> Instruction \<Rightarrow> executed" where
  "switch_LWL_LWR m i = (case opCode i of
     OP_LWL \<Rightarrow> (let tmp = registers m (rs i) + extra i in ASSERT (tmp AND 0x3 = 0)
       (obind (Machine_ReadMem m tmp 4) (\<lambda>(value, m).
         let nextLoadValue = (if registers m LoadReg = of_nat (rt i) then registers m LoadValueReg
             else registers m (rt i))
         in load_break m (rt i)
           (if tmp AND 0x3 = 0 then value
            else if tmp AND 0x3 = 1 then (nextLoadValue AND 0xff) OR push_bit 8 value
            else if tmp AND 0x3 = 2 then (nextLoadValue AND 0xffff) OR push_bit 16 value
            else (nextLoadValue AND 0xffffff) OR push_bit 24 value))))
   | OP_LWR \<Rightarrow> (let tmp = registers m (rs i) + extra i in ASSERT (tmp AND 0x3 = 0)
       (obind (Machine_ReadMem m tmp 4) (\<lambda>(value, m).
         let nextLoadValue = (if registers m LoadReg = of_nat (rt i) then registers m LoadValueReg
             else registers m (rt i))
         in load_break m (rt i)
           (if tmp AND 0x3 = 0 then (nextLoadValue AND 0xffffff00) OR (signed_drop_bit 24 value AND 0xff)
            else if tmp AND 0x3 = 1 then (nextLoadValue AND 0xffff0000) OR (signed_drop_bit 16 value AND 0xffff)
            else if tmp AND 0x3 = 2 then (nextLoadValue AND 0xff000000) OR (signed_drop_bit 8 value AND 0xffffff)
            else value))))
   | _ \<Rightarrow> switch_MFHI_SH m i)"

definition exec_LB :: "Machine \<Rightarrow> Instruction \<Rightarrow> executed" where
  "exec_LB m i = obind (Machine_ReadMem m (registers m (rs i) + extra i) 1) (\<lambda>(value, m).
     load_break m (rt i)
       (if value AND 0x80 \<noteq> 0 \<and> opCode i = OP_LB then value OR 0xffffff00 else value AND 0xff))"

definition exec_LH :: "Machine \<Rightarrow> Instruction \<Rightarrow> executed" where
  "exec_LH m i = (let tmp = registers m (rs i) + extra i in
     if tmp AND 0x1 \<noteq> 0 then Machine_RaiseException m AddressErrorException tmp
     else obind (Machine_ReadMem m tmp 2) (\<lambda>(value, m).
       load_break m (rt i)
         (if value AND 0x8000 \<noteq> 0 \<and> opCode i = OP_LH then value OR 0xffff0000 else value AND 0xffff)))"

definition switch_DIV_LW :: "Machine \<Rightarrow> Instruction \<Rightarrow> executed" where
  "switch_DIV_LW m i = (case opCode i of
     OP_DIV \<Rightarrow> (if registers m (rt i) = 0 then write_break (set_reg LoReg 0 m) HiReg 0
       else let m' = set_reg LoReg (registers m (rs i) div registers m (rt i)) m
         in write_break m' HiReg (registers m' (rs i) mod registers m' (rt i)))
   | OP_DIVU \<Rightarrow> (if registers m (rt i) = 0 then write_break (set_reg LoReg 0 m) HiReg 0
       else write_break (set_reg LoReg (registers m (rs i) div registers m (rt i)) m) HiReg
              (registers m (rs i) mod registers m (rt i)))
   | OP_JAL \<Rightarrow> break_with (link m 31)
       (((registers m NextPCReg + 4) AND 0xf0000000) OR IndexToAddr (extra i))
   | OP_J \<Rightarrow> break_with m (((registers m NextPCReg + 4) AND 0xf0000000) OR IndexToAddr (extra i))
   | OP_JALR \<Rightarrow> (let m' = link m (rd i) in break_with m' (registers m' (rs i)))
   | OP_JR \<Rightarrow> break_with m (registers m (rs i))
   | OP_LB \<Rightarrow> exec_LB m i
   | OP_LBU \<Rightarrow> exec_LB m i
   | OP_LH \<Rightarrow> exec_LH m i
   | OP_LHU \<Rightarrow> exec_LH m i
   | OP_LUI \<Rightarrow> write_break m (rt i) (push_bit 16 (extra i))
   | OP_LW \<Rightarrow> (let tmp = registers m (rs i) + extra i in
       if tmp AND 0x3 \<noteq> 0 then Machine_RaiseException m AddressErrorException tmp
       else obind (Machine_ReadMem m tmp 4) (\<lambda>(value, m). load_break m (rt i) value))
   | _ \<Rightarrow> switch_LWL_LWR m i)"

definition switch_ADD_BNE :: "Machine \<Rightarrow> Instruction \<Rightarrow> executed" where
  "switch_ADD_BNE m i = (case opCode i of
     OP_ADD \<Rightarrow> (let sum = registers m (rs i) + registers m (rt i) in
       if (registers m (rs i) XOR registers m (rt i)) AND SIGN_BIT = 0
           \<and> (registers m (rs i) XOR sum) AND SIGN_BIT \<noteq> 0
       then Machine_RaiseException m OverflowException 0 else write_break m (rd i) sum)
   | OP_ADDI \<Rightarrow> (let sum = registers m (rs i) + extra i in
       if (registers m (rs i) XOR extra i) AND SIGN_BIT = 0 \<and> (extra i XOR sum) AND SIGN_BIT \<noteq> 0
       then Machine_RaiseException m OverflowException 0 else write_break m (rt i) sum)
   | OP_ADDIU \<Rightarrow> write_break m (rt i) (registers m (rs i) + extra i)
   | OP_ADDU \<Rightarrow> write_break m (rd i) (registers m (rs i) + registers m (rt i))
   | OP_AND \<Rightarrow> write_break m (rd i) (registers m (rs i) AND registers m (rt i))
   | OP_ANDI \<Rightarrow> write_break m (rt i) (registers m (rs i) AND (extra i AND 0xffff))
   | OP_BEQ \<Rightarrow> branch_if m (registers m (rs i) = registers m (rt i)) i
   | OP_BGEZAL \<Rightarrow> (let m' = link m 31 in branch_if m' (registers m' (rs i) AND SIGN_BIT = 0) i)
   | OP_BGEZ \<Rightarrow> branch_if m (registers m (rs i) AND SIGN_BIT = 0) i
   | OP_BGTZ \<Rightarrow> branch_if m (registers m (rs i) > 0) i
   | OP_BLEZ \<Rightarrow> branch_if m (registers m (rs i) \<le> 0) i
   | OP_BLTZAL \<Rightarrow> (let m' = link m 31 in branch_if m' (registers m' (rs i) AND SIGN_BIT \<noteq> 0) i)
   | OP_BLTZ \<Rightarrow> branch_if m (registers m (rs i) AND SIGN_BIT \<noteq> 0) i
   | OP_BNE \<Rightarrow> branch_if m (registers m (rs i) \<noteq> registers m (rt i)) i
   | _ \<Rightarrow> switch_DIV_LW m i)"

lemmas switch_defs = switch_ADD_BNE_def switch_DIV_LW_def switch_LWL_LWR_def switch_MFHI_SH_def
  switch_SLL_SW_def switch_SWL_RES_def

text \<open>After the switch: the delayed load, then the program counters.\<close>

definition finish_instruction :: "Machine \<times> 32 word \<times> nat \<times> 32 word \<Rightarrow> Machine outcome result" where
  "finish_instruction = (\<lambda>(m, pcAfter, nextLoadReg, nextLoadValue).
     rbind (Machine_DelayedLoad m nextLoadReg nextLoadValue) (\<lambda>m.
       Inr (Returned (set_reg NextPCReg pcAfter (set_reg PCReg (registers m NextPCReg)
         (set_reg PrevPCReg (registers m PCReg) m))))))"

definition Machine_OneInstruction :: "Machine \<Rightarrow> Machine outcome result" where
  "Machine_OneInstruction m = obind (Machine_ReadMem m (registers m PCReg) 4)
     (\<lambda>(raw, m). obind (switch_ADD_BNE m (Instruction_Decode raw)) finish_instruction)"

section \<open>The product\<close>

text \<open>The double word held by a low and a high register.\<close>

definition double :: "32 word \<Rightarrow> 32 word \<Rightarrow> 64 word" where
  "double lo hi = of_int (uint lo + 2 ^ 32 * uint hi)"

lemma two_pow_64 [simp]: "(18446744073709551616 :: 64 word) = 0"
  by (simp add: word_unat_eq_iff)

lemma uint_double: "uint (double lo hi) = uint lo + 2 ^ 32 * uint hi"
proof -
  have *: "uint lo < 2 ^ 32" "uint hi < 2 ^ 32" "uint lo \<ge> 0" "uint hi \<ge> 0"
    using uint_lt2p [of lo] uint_lt2p [of hi] by simp_all
  have "(uint lo + 2 ^ 32 * uint hi) mod 2 ^ 64 = uint lo + 2 ^ 32 * uint hi"
    using * by (intro mod_pos_pos_trivial) auto
  then show ?thesis unfolding double_def uint_word_of_int by simp
qed

lemma double_add:
  "double (lo + b) (hi + (if lo + b < b then 1 else 0) + c) = double lo hi + double b c"
proof -
  have "uint lo < 2 ^ 32" "uint hi < 2 ^ 32" "uint b < 2 ^ 32" "uint c < 2 ^ 32"
    using uint_lt2p [of lo] uint_lt2p [of hi] uint_lt2p [of b] uint_lt2p [of c] by simp_all
  moreover have "uint lo \<ge> 0" "uint b \<ge> 0" "uint hi \<ge> 0" "uint c \<ge> 0" by simp_all
  ultimately show ?thesis
    by (auto simp: double_def uint_plus_if' word_less_def algebra_simps)
qed

lemma and_sign_bit: "(b :: 32 word) AND 0x80000000 \<noteq> 0 \<longleftrightarrow> bit b 31"
proof -
  have "b AND 0x80000000 = (if bit b 31 then push_bit 31 1 else 0)"
    by (rule word_eq_upt) (simp add: upt_word_sizes bit_simps)
  then show ?thesis by simp
qed

lemma bit_31_iff: "bit (b :: 32 word) 31 \<longleftrightarrow> 2 ^ 31 \<le> uint b"
proof -
  have "bit b 31 = bit (uint b) 31" by (simp add: bit_uint_iff)
  then have b: "bit b 31 \<longleftrightarrow> odd (uint b div 2 ^ 31)" by (simp add: bit_iff_odd [of "uint b"])
  have "uint b < 4294967296" "uint b \<ge> 0" using uint_lt2p [of b] by simp_all
  then have "uint b div 2147483648 = (if uint b < 2147483648 then 0 else 1)"
    using div_pos_geq [of 2147483648 "uint b"] by simp
  with b show ?thesis by simp
qed

lemma double_shift:
  "double (push_bit 1 b) (if b AND 0x80000000 \<noteq> 0 then push_bit 1 c OR 1 else push_bit 1 c) = 2 * double b c"
proof -
  have "uint b < 2 ^ 32" using uint_lt2p [of b] by simp
  then have "(b + b < b) = (b AND 0x80000000 \<noteq> 0)"
    unfolding and_sign_bit bit_31_iff word_less_def uint_plus_if' [of b b] by auto
  moreover have "push_bit 1 b = b + b" "push_bit 1 c = c + c" "push_bit 1 c OR 1 = c + 1 + c"
    by (simp_all add: push_bit_eq_mult or_one_eq)
  ultimately have "(if b AND 0x80000000 \<noteq> 0 then push_bit 1 c OR 1 else push_bit 1 c)
      = c + (if b + b < b then 1 else 0) + c" "push_bit 1 b = b + b" by simp_all
  then show ?thesis by (simp only: double_add) simp
qed

lemma double_neg:
  "double (NOT lo + 1) (if NOT lo + 1 = 0 then NOT hi + 1 else NOT hi) = - double lo hi"
proof -
  have "double lo hi + double (- lo) (if - lo = 0 then - hi else - hi - 1) = double 0 0"
    by (subst double_add [symmetric]) (simp add: word_gt_0)
  then have "double lo hi + double (- lo) (if - lo = 0 then - hi else - hi - 1) = 0"
    by (simp add: double_def)
  then have "double (- lo) (if - lo = 0 then - hi else - hi - 1) = - double lo hi"
    by (simp only: eq_neg_iff_add_eq_0 add.commute)
  moreover have "NOT lo + 1 = - lo" "NOT hi + 1 = - hi" "NOT hi = - hi - 1" by (simp_all add: not_eq_complement)
  ultimately show ?thesis by (simp only:)
qed

lemma take_bit_signed_shift:
  assumes "k < 32"
  shows "take_bit k (uint (signed_drop_bit 1 (a :: 32 word))) = take_bit k (uint a div 2)"
proof -
  have "take_bit k (signed_drop_bit 1 a) = take_bit k (drop_bit 1 a)"
    using assms by (intro bit_word_eqI) (auto simp: bit_simps)
  then have "uint (take_bit k (signed_drop_bit 1 a)) = uint (take_bit k (drop_bit 1 a))" by simp
  then show ?thesis by (simp add: unsigned_take_bit_eq drop_bit_eq_div uint_div_distrib)
qed

lemma and_1_iff: "(a :: 32 word) AND 1 \<noteq> 0 \<longleftrightarrow> odd (uint a)"
  by (simp add: and_one_eq even_iff_mod_2_eq_zero uint_mod_distrib word_uint_eq_iff)

lemma last_bit:
  assumes "(a :: 32 word) AND 1 \<noteq> 0" "a AND 0xfffffffe = 0"
  shows "a = 1"
proof -
  have "a AND 1 = 1" using assms(1) by (simp add: and_one_eq)
  moreover have "a = (a AND 1) OR (a AND 0xfffffffe)"
    by (rule word_eq_upt) (simp add: upt_word_sizes bit_simps)
  ultimately show ?thesis using assms(2) by simp
qed

lemma Mult_loop_double:
  assumes "n \<le> 32" "Mult_loop n a bLo bHi lo hi = (lo', hi')"
  shows "double lo' hi' = double lo hi + of_int (take_bit n (uint a)) * double bLo bHi"
  using assms
proof (induction n a bLo bHi lo hi arbitrary: lo' hi' rule: Mult_loop.induct)
  case (2 i a bLo bHi lo hi)
  let ?lo = "if a AND 1 \<noteq> 0 then lo + bLo else lo"
  let ?hi = "if a AND 1 \<noteq> 0 then hi + (if ?lo < bLo then 1 else 0) + bHi else hi"
  let ?odd = "a AND 1 \<noteq> 0"
  have add: "double ?lo ?hi = double lo hi + of_bool ?odd * double bLo bHi"
    using double_add [of lo bLo hi bHi] by simp
  show ?case
  proof (cases "?odd \<and> a AND 0xfffffffe = 0")
    case True
    with last_bit have "a = 1" by blast
    with 2 True add show ?thesis by (auto simp: Let_def)
  next
    case False
    let ?a = "signed_drop_bit 1 a"
    have "double lo' hi' = double ?lo ?hi + of_int (take_bit i (uint ?a)) * (2 * double bLo bHi)"
      using 2 False unfolding double_shift [symmetric] by (auto simp: Let_def)
    moreover have "take_bit (Suc i) (uint a) = of_bool ?odd + 2 * take_bit i (uint ?a)"
      using 2(2) take_bit_signed_shift [of i a] by (simp add: take_bit_Suc and_1_iff mod_2_eq_odd)
    ultimately show ?thesis using add by (simp add: algebra_simps)
  qed
qed simp

lemma sint_uint_32: "sint (a :: 32 word) = (if uint a < 2 ^ 31 then uint a else uint a - 2 ^ 32)"
proof -
  have *: "uint a < 2 ^ 32" "uint a \<ge> 0" using uint_lt2p [of a] by simp_all
  have "sint a = signed_take_bit 31 (uint a)" by (simp add: signed_take_bit_eq_if_positive sint_uint)
  then show ?thesis
    using * mod_pos_geq [of 4294967296 "uint a + 2147483648"]
    by (auto simp: signed_take_bit_eq_take_bit_shift take_bit_eq_mod)
qed

lemma uint_abs_word:
  "uint (if a <s 0 then - a else a :: 32 word) = \<bar>sint a\<bar>"
proof -
  have *: "uint a < 2 ^ 32" "uint a \<ge> 0" using uint_lt2p [of a] by simp_all
  have n: "uint (- a) = (if uint a = 0 then 0 else 2 ^ 32 - uint a)"
    using * uint_sub_if' [of 0 a] by (auto simp: not_less)
  show ?thesis using * by (auto simp: word_sless_alt n sint_uint_32)
qed

lemma Mult_double:
  assumes "Mult a b signedArith = (hi, lo)"
  shows "double lo hi = (if signedArith then of_int (sint a * sint b) else of_int (uint a * uint b))"
proof (cases "a = 0 \<or> b = 0")
  case True
  with assms show ?thesis by (auto simp: Mult_def double_def)
next
  case False
  define a' b' where "a' = (if signedArith \<and> a <s 0 then - a else a)" "b' = (if signedArith \<and> b <s 0 then - b else b)"
  have take_bit_uint: "take_bit 32 (uint a') = uint a'"
    using uint_lt2p [of a'] by (simp add: take_bit_eq_mod)
  obtain l h where lh: "Mult_loop 32 a' b' 0 0 0 = (l, h)" by fastforce
  have p: "double l h = of_int (uint a' * uint b')"
    using Mult_loop_double [OF _ lh] by (simp add: double_def take_bit_uint)
  have r: "(hi, lo) = (if signedArith \<and> ((a <s 0) \<noteq> (b <s 0))
      then (if NOT l + 1 = 0 then NOT h + 1 else NOT h, NOT l + 1) else (h, l))"
    using assms False lh by (auto simp: Mult_def Let_def a'_b'_def split: if_splits)
  have "double lo hi = (if signedArith \<and> ((a <s 0) \<noteq> (b <s 0)) then - double l h else double l h)"
    using r double_neg [of l h] by (auto split: if_splits)
  also have "\<dots> = of_int (if signedArith \<and> ((a <s 0) \<noteq> (b <s 0)) then - (uint a' * uint b') else uint a' * uint b')"
    by (simp add: p)
  also have "(if signedArith \<and> ((a <s 0) \<noteq> (b <s 0)) then - (uint a' * uint b') else uint a' * uint b')
      = (if signedArith then sint a * sint b else uint a * uint b)"
    using uint_abs_word [of a] uint_abs_word [of b] by (auto simp: a'_b'_def word_sless_alt)
  finally show ?thesis by simp
qed

lemma Mult_exact:
  assumes "Mult a b signedArith = (hi, lo)"
  shows "uint hi * 2 ^ 32 + uint lo = (if signedArith then sint a * sint b else uint a * uint b) mod 2 ^ 64"
proof -
  have "uint hi * 2 ^ 32 + uint lo = uint (double lo hi)" by (simp add: uint_double)
  also have "\<dots> = (if signedArith then sint a * sint b else uint a * uint b) mod 2 ^ 64"
    unfolding Mult_double [OF assms] by (simp del: of_int_mult add: uint_word_of_int)
  finally show ?thesis .
qed

section \<open>Decoded instructions\<close>

lemma and_mask_less:
  "unat ((x :: 32 word) AND 0x1f) < 32" "unat ((x :: 32 word) AND 0x3f) < 64"
proof -
  have "x AND 0x1f = take_bit 5 x" "x AND 0x3f = take_bit 6 x" by (simp_all add: take_bit_eq_mask mask_numeral)
  then show "unat (x AND 0x1f) < 32" "unat (x AND 0x3f) < 64"
    using take_bit_nat_less_exp [of 5 "unat x"] take_bit_nat_less_exp [of 6 "unat x"]
    by (simp_all add: unsigned_take_bit_eq del: take_bit_nat_less_exp)
qed

lemma opTable_nth: "k < 64 \<Longrightarrow> opTable ! k \<in> set opTable"
  by (rule nth_mem) (simp add: opTable_def)

lemma specialTable_nth: "k < 64 \<Longrightarrow> specialTable ! k \<in> set specialTable"
  by (rule nth_mem) (simp add: specialTable_def)

definition decoded :: "Instruction \<Rightarrow> bool" where
  "decoded i \<longleftrightarrow> rs i < 32 \<and> rt i < 32 \<and> rd i < 32 \<and> opCode i \<notin> {OP_RFE, SPECIAL, BCOND}
     \<and> (opCode i \<in> {OP_SLL, OP_SRA, OP_SRL} \<longrightarrow> unat (extra i) < 32)"

lemma opTable_entries:
  "\<forall>(op, fmt) \<in> set opTable. op \<notin> {OP_RFE, OP_SLL, OP_SRA, OP_SRL} \<and> (op = SPECIAL \<longrightarrow> fmt = RFMT)"
  by (simp add: opTable_def)

lemma specialTable_entries: "\<forall>op \<in> set specialTable. op \<notin> {OP_RFE, SPECIAL, BCOND}"
  by (simp add: specialTable_def)

lemma Instruction_Decode_decoded: "decoded (Instruction_Decode w)"
proof -
  obtain op fmt where o: "opTable ! unat (drop_bit 26 w AND 0x3f) = (op, fmt)" by fastforce
  have "(op, fmt) \<in> set opTable" using opTable_nth [OF and_mask_less(2), of "drop_bit 26 w"] o by simp
  then have t: "op \<notin> {OP_RFE, OP_SLL, OP_SRA, OP_SRL}" "op = SPECIAL \<Longrightarrow> fmt = RFMT"
    using opTable_entries by auto
  have sp: "specialTable ! unat (w AND 0x3f) \<notin> {OP_RFE, SPECIAL, BCOND}"
    using specialTable_nth [OF and_mask_less(2), of w] specialTable_entries by blast
  show ?thesis
    unfolding decoded_def Instruction_Decode_def Let_def o
    using t sp and_mask_less(1) by (auto simp: Let_def)
qed

section \<open>What one instruction may do\<close>

definition mmu_state :: "Machine \<Rightarrow> bool" where
  "mmu_state m \<longleftrightarrow> mmu_ok m \<and> load_pending_ok m"

text \<open>The instructions whose unaligned use stops the simulator with a failed assertion.\<close>

definition unaligned_partial :: "Machine \<Rightarrow> Instruction \<Rightarrow> bool" where
  "unaligned_partial m i \<longleftrightarrow> opCode i \<in> {OP_LWL, OP_LWR, OP_SWL, OP_SWR}
     \<and> (registers m (rs i) + extra i) AND 0x3 \<noteq> 0"

definition control_regs_kept :: "Machine \<Rightarrow> Machine \<Rightarrow> bool" where
  "control_regs_kept m m' \<longleftrightarrow> (\<forall>r\<in>{PCReg, NextPCReg, PrevPCReg, LoadReg, LoadValueReg, BadVAddrReg}.
     registers m' r = registers m r)"

text \<open>
  The contract of the switch: it returns with the control registers as they were and a legal
  target for the delayed load, or it traps with nothing of the instruction done.
\<close>

definition trapped_ok :: "Machine \<Rightarrow> ExceptionType \<Rightarrow> Machine \<Rightarrow> bool" where
  "trapped_ok m w m' \<longleftrightarrow> w \<noteq> NoException \<and> mmu_ok m' \<and> paged m m' \<and> mainMemory m' = mainMemory m
     \<and> (\<exists>bad. registers m' = registers (trap_state m bad))"

definition executed_ok :: "Machine \<Rightarrow> bool \<Rightarrow> executed \<Rightarrow> bool" where
  "executed_ok m may_fail r \<longleftrightarrow> (case r of
       Inl e \<Rightarrow> may_fail \<and> e = Assertion
     | Inr (Returned (m', pcAfter, nextLoadReg, nextLoadValue)) \<Rightarrow>
         mmu_ok m' \<and> paged m m' \<and> control_regs_kept m m' \<and> nextLoadReg < NumGPRegs
     | Inr (Trapped w m') \<Rightarrow> trapped_ok m w m')"

lemma mmu_state_reg [simp]: "mmu_ok (set_reg r v m) = mmu_ok m"
  by (auto simp: mmu_ok_def split: option.splits)

lemma mmu_state_trap [simp]: "mmu_ok (trap_state m bad) = mmu_ok m" "mainMemory (trap_state m bad) = mainMemory m"
  "paged m' (trap_state m bad) = paged m' m"
  by (simp_all add: trap_state_def)

lemma executed_ok_raise:
  assumes "mmu_state m" "w \<noteq> NoException"
  shows "executed_ok m f (Machine_RaiseException m w bad)"
  using assms by (auto simp: mmu_state_def Machine_RaiseException_ok executed_ok_def trapped_ok_def)

lemma executed_ok_break:
  "mmu_state m \<Longrightarrow> executed_ok m f (break_with m pc)"
  by (simp add: break_with_def executed_ok_def mmu_state_def control_regs_kept_def)

lemma executed_ok_link_break:
  "mmu_state m \<Longrightarrow> r < 32 \<Longrightarrow> executed_ok m f (break_with (link m r) pc)"
  by (auto simp: break_with_def executed_ok_def mmu_state_def control_regs_kept_def link_def)

lemma executed_ok_branch:
  "mmu_state m \<Longrightarrow> executed_ok m f (branch_if m c i)"
  "mmu_state m \<Longrightarrow> executed_ok m f (branch_if (link m 31) c i)"
  by (simp_all add: branch_if_def executed_ok_break executed_ok_link_break)

lemma executed_ok_write:
  "mmu_state m \<Longrightarrow> r < 34 \<Longrightarrow> executed_ok m f (write_break m r v)"
  "mmu_state m \<Longrightarrow> r < 34 \<Longrightarrow> r' < 34 \<Longrightarrow> executed_ok m f (write_break (set_reg r' v' m) r v)"
  by (auto simp: write_break_def break_with_def executed_ok_def mmu_state_def control_regs_kept_def)

lemma executed_ok_store:
  assumes "mmu_state m" "sz \<in> {1, 2, 4}"
  shows "executed_ok m f (store_break m va sz v)"
proof (cases "\<exists>e. accessible m va sz True e")
  case True
  then obtain e where e: "accessible m va sz True e" ..
  from Machine_WriteMem_granted [OF _ assms(2) e, of v] assms(1) show ?thesis
    by (simp add: store_break_def break_with_def executed_ok_def mmu_state_def control_regs_kept_def paged_store [OF _ assms(2) e])
next
  case False
  from Machine_WriteMem_refused [OF _ _ assms(2) False, of v] assms(1) show ?thesis
    by (auto simp: store_break_def executed_ok_def mmu_state_def trapped_ok_def refusal_not_NoException)
qed

lemma executed_ok_load:
  assumes "mmu_state m" "sz \<in> {1, 2, 4}"
    and "\<And>v. executed_ok m f (k (v, touch_entry m va False))"
  shows "executed_ok m f (obind (Machine_ReadMem m va sz) k)"
proof (cases "\<exists>e. accessible m va sz False e")
  case True
  then obtain e where "accessible m va sz False e" ..
  from Machine_ReadMem_granted [OF _ assms(2) this] assms(1,3) show ?thesis
    by (simp add: mmu_state_def)
next
  case False
  from Machine_ReadMem_refused [OF _ _ assms(2) False] assms(1) show ?thesis
    by (auto simp: executed_ok_def mmu_state_def trapped_ok_def refusal_not_NoException)
qed

lemma executed_ok_load_break:
  "mmu_state m \<Longrightarrow> r < 32 \<Longrightarrow> executed_ok m f (load_break (touch_entry m va w) r v)"
  by (simp add: load_break_def executed_ok_def mmu_state_def control_regs_kept_def)

lemma mmu_state_touch [simp]: "mmu_state (touch_entry m va w) = mmu_state m"
  by (simp add: mmu_state_def load_pending_ok_def)

lemma executed_ok_touch: "executed_ok (touch_entry m va w) f r = executed_ok m f r"
  by (simp add: executed_ok_def control_regs_kept_def trapped_ok_def trap_state_def split: sum.splits outcome.splits)

lemma executed_ok_store_touch:
  "mmu_state m \<Longrightarrow> sz \<in> {1, 2, 4} \<Longrightarrow> executed_ok m f (store_break (touch_entry m va' w) va sz v)"
  using executed_ok_store [of "touch_entry m va' w" sz f va v] by (simp add: executed_ok_touch)

lemma executed_ok_ASSERT: "(P \<Longrightarrow> executed_ok m f r) \<Longrightarrow> (\<not> P \<Longrightarrow> f) \<Longrightarrow> executed_ok m f (ASSERT P r)"
  by (cases P) (auto simp: executed_ok_def)

lemmas executed_ok_intros = executed_ok_raise executed_ok_break executed_ok_link_break executed_ok_branch
  executed_ok_write executed_ok_store executed_ok_load executed_ok_load_break executed_ok_store_touch executed_ok_ASSERT

lemma exec_LB_ok: "mmu_state m \<Longrightarrow> decoded i \<Longrightarrow> executed_ok m f (exec_LB m i)"
  by (auto simp: exec_LB_def decoded_def intro!: executed_ok_intros)

lemma exec_LH_ok: "mmu_state m \<Longrightarrow> decoded i \<Longrightarrow> executed_ok m f (exec_LH m i)"
  by (auto simp: exec_LH_def decoded_def Let_def intro!: executed_ok_intros)

lemma exec_DIV_ok:
  "mmu_state m \<Longrightarrow> executed_ok m f (write_break (set_reg LoReg q m) HiReg r)"
  by (rule executed_ok_write) simp_all

text \<open>The whole switch, opcode by opcode along the chain.\<close>

lemma switch_ok:
  assumes "mmu_state m" "decoded i"
  shows "executed_ok m (unaligned_partial m i) (switch_ADD_BNE m i)"
proof -
  have r: "rs i < 34" "rt i < 34" "rd i < 34" "rt i < 32" "rd i < 32" "opCode i \<notin> {OP_RFE, SPECIAL, BCOND}"
    using assms(2) by (auto simp: decoded_def)
  show ?thesis
    using assms r
    by (cases "opCode i") (simp_all add: switch_defs Let_def unaligned_partial_def executed_ok_intros
      exec_LB_ok exec_LH_ok split: prod.split)
qed

definition cpu_ok :: "Machine \<Rightarrow> bool" where
  "cpu_ok m \<longleftrightarrow> mmu_ok m \<and> load_pending_ok m \<and> registers m 0 = 0"

text \<open>How the general registers look once the pending load has been completed.\<close>

definition load_done :: "Machine \<Rightarrow> nat \<Rightarrow> 32 word" where
  "load_done m = (registers m)(unat (registers m LoadReg) := registers m LoadValueReg, 0 := 0)"

lemma trap_state_ok:
  assumes "load_pending_ok m" "registers m' = registers (trap_state m bad)"
  shows "load_pending_ok m'" "\<And>r. r < NumGPRegs \<Longrightarrow> registers m' r = load_done m r"
    "registers m' BadVAddrReg = bad" "registers m' LoadReg = 0" "registers m' 0 = 0"
    "\<And>r. r \<in> {HiReg, LoReg, PCReg, NextPCReg, PrevPCReg} \<Longrightarrow> registers m' r = registers m r"
  using assms by (auto simp: trap_state_def load_pending_ok_def load_done_def)

lemma finish_instruction_ok:
  assumes "mmu_ok m'" "control_regs_kept m m'" "load_pending_ok m" "nextLoadReg < NumGPRegs"
  obtains m'' where "finish_instruction (m', pcAfter, nextLoadReg, v) = Inr (Returned m'')" "cpu_ok m''" "paged m' m''"
    "registers m'' PCReg = registers m NextPCReg" "registers m'' NextPCReg = pcAfter"
    "registers m'' PrevPCReg = registers m PCReg"
    "registers m'' LoadReg = of_nat nextLoadReg" "registers m'' LoadValueReg = v"
    "mainMemory m'' = mainMemory m'" "\<And>r. r < LoReg + 1 \<Longrightarrow> registers m'' r =
      (if r = 0 then 0 else if r = unat (registers m LoadReg) then registers m LoadValueReg else registers m' r)"
  using assms
  by (auto simp: finish_instruction_def Machine_DelayedLoad_def control_regs_kept_def load_pending_ok_def
      cpu_ok_def unat_of_nat)

lemma Machine_OneInstruction_cases:
  assumes "cpu_ok m"
  obtains (fetch_trap) "\<nexists>e. accessible m (registers m PCReg) 4 False e"
      "Machine_OneInstruction m = Inr (Trapped (refusal m (registers m PCReg) 4 False)
         (trap_state m (registers m PCReg)))"
  | (trap) raw m1 w m' where "Machine_ReadMem m (registers m PCReg) 4 = Inr (Returned (raw, m1))"
      "switch_ADD_BNE m1 (Instruction_Decode raw) = Inr (Trapped w m')"
      "Machine_OneInstruction m = Inr (Trapped w m')" "trapped_ok m w m'"
  | (assertion) raw m1 where "Machine_ReadMem m (registers m PCReg) 4 = Inr (Returned (raw, m1))"
      "unaligned_partial m (Instruction_Decode raw)" "Machine_OneInstruction m = Inl Assertion"
  | (finished) raw m1 m' pcAfter nextLoadReg v m'' where
      "Machine_ReadMem m (registers m PCReg) 4 = Inr (Returned (raw, m1))"
      "switch_ADD_BNE m1 (Instruction_Decode raw) = Inr (Returned (m', pcAfter, nextLoadReg, v))"
      "finish_instruction (m', pcAfter, nextLoadReg, v) = Inr (Returned m'')"
      "Machine_OneInstruction m = Inr (Returned m'')"
      "mmu_ok m'" "control_regs_kept m m'" "nextLoadReg < NumGPRegs" "cpu_ok m''" "paged m m''"
proof (cases "\<exists>e. accessible m (registers m PCReg) 4 False e")
  case False
  have "Machine_ReadMem m (registers m PCReg) 4 = Inr (Trapped (refusal m (registers m PCReg) 4 False)
         (trap_state m (registers m PCReg)))"
    using assms False by (intro Machine_ReadMem_refused) (simp_all add: cpu_ok_def)
  then show ?thesis using fetch_trap False by (simp add: Machine_OneInstruction_def)
next
  case True
  define m1 where "m1 = touch_entry m (registers m PCReg) False"
  from True obtain raw where raw: "Machine_ReadMem m (registers m PCReg) 4 = Inr (Returned (raw, m1))"
    using Machine_ReadMem_granted [of m 4 "registers m PCReg"] assms by (auto simp: cpu_ok_def m1_def)
  have one: "Machine_OneInstruction m = obind (switch_ADD_BNE m1 (Instruction_Decode raw)) finish_instruction"
    by (simp add: Machine_OneInstruction_def raw)
  have ok: "executed_ok m (unaligned_partial m (Instruction_Decode raw)) (switch_ADD_BNE m1 (Instruction_Decode raw))"
    using switch_ok [of m1 "Instruction_Decode raw"] assms
    by (simp add: m1_def executed_ok_touch mmu_state_def cpu_ok_def Instruction_Decode_decoded unaligned_partial_def
      load_pending_ok_def)
  consider (f) e where "switch_ADD_BNE m1 (Instruction_Decode raw) = Inl e"
    | (t) w m' where "switch_ADD_BNE m1 (Instruction_Decode raw) = Inr (Trapped w m')"
    | (r) m' pcAfter l v where "switch_ADD_BNE m1 (Instruction_Decode raw) = Inr (Returned (m', pcAfter, l, v))"
    by (metis outcome.exhaust prod_cases4 sum.exhaust)
  then show ?thesis
  proof cases
    case f
    then show ?thesis using assertion [OF raw] ok one by (simp add: executed_ok_def)
  next
    case t
    then show ?thesis using trap [OF raw t] ok one by (simp add: executed_ok_def)
  next
    case r
    with ok have k: "mmu_ok m'" "control_regs_kept m m'" "l < NumGPRegs" "paged m m'" by (simp_all add: executed_ok_def)
    obtain m'' where "finish_instruction (m', pcAfter, l, v) = Inr (Returned m'')" "cpu_ok m''" "paged m m''"
      using finish_instruction_ok [OF k(1,2) _ k(3)] assms paged_trans [OF k(4)] by (metis cpu_ok_def)
    then show ?thesis using finished [OF raw r _ _ k(1-3)] one r by simp
  qed
qed

text \<open>An instruction, whether it completes or traps, stays within the frames of the page table.\<close>

lemma Machine_OneInstruction_paged:
  assumes "cpu_ok m"
  shows "case Machine_OneInstruction m of Inl e \<Rightarrow> True | Inr (Returned m') \<Rightarrow> paged m m' \<and> cpu_ok m' | Inr (Trapped w m') \<Rightarrow> paged m m' \<and> cpu_ok m'"
  using assms
proof (cases rule: Machine_OneInstruction_cases)
  case fetch_trap
  then show ?thesis
    using assms trap_state_ok [of m "trap_state m (registers m PCReg)" "registers m PCReg"] by (simp add: cpu_ok_def)
next
  case (trap raw m1 w m')
  then show ?thesis using assms trap_state_ok [of m m'] by (auto simp: trapped_ok_def cpu_ok_def)
qed auto

section \<open>Overflow\<close>

lemma sign_differs:
  "((a :: 32 word) XOR b) AND 0x80000000 \<noteq> 0 \<longleftrightarrow> (2 ^ 31 \<le> uint a) \<noteq> (2 ^ 31 \<le> uint b)"
  "((a :: 32 word) XOR b) AND 0x80000000 = 0 \<longleftrightarrow> (2 ^ 31 \<le> uint a) = (2 ^ 31 \<le> uint b)"
proof -
  have "bit (a XOR b) 31 \<longleftrightarrow> bit a 31 \<noteq> bit b 31" by (simp add: bit_xor_iff)
  then show "((a :: 32 word) XOR b) AND 0x80000000 \<noteq> 0 \<longleftrightarrow> (2 ^ 31 \<le> uint a) \<noteq> (2 ^ 31 \<le> uint b)"
    "((a :: 32 word) XOR b) AND 0x80000000 = 0 \<longleftrightarrow> (2 ^ 31 \<le> uint a) = (2 ^ 31 \<le> uint b)"
    using and_sign_bit [of "a XOR b"] bit_31_iff [of a] bit_31_iff [of b] by blast+
qed

lemma add_overflow_iff:
  "((a XOR b) AND 0x80000000 = 0 \<and> (a XOR (a + b)) AND 0x80000000 \<noteq> 0) = (\<not> in_int (sint a + sint (b :: 32 word)))"
proof -
  define x y where xy: "x = uint a" "y = uint b"
  have "0 \<le> x" "x < 2 ^ 32" "0 \<le> y" "y < 2 ^ 32" using uint_lt2p [of a] uint_lt2p [of b] by (simp_all add: xy)
  then show ?thesis
    unfolding sign_differs sint_uint_32 uint_plus_if' xy [symmetric] by (auto simp: in_int_def)
qed

lemma sub_overflow_iff:
  "((a XOR b) AND 0x80000000 \<noteq> 0 \<and> (a XOR (a - b)) AND 0x80000000 \<noteq> 0) = (\<not> in_int (sint a - sint (b :: 32 word)))"
proof -
  define x y where xy: "x = uint a" "y = uint b"
  have "0 \<le> x" "x < 2 ^ 32" "0 \<le> y" "y < 2 ^ 32" using uint_lt2p [of a] uint_lt2p [of b] by (simp_all add: xy)
  then show ?thesis
    unfolding sign_differs sint_uint_32 uint_sub_if' xy [symmetric] by (auto simp: in_int_def)
qed

section \<open>Properties\<close>

text \<open>
  C20. Mult leaves in the high and low words exactly the 64-bit two's-complement product, of the
  operands read as signed numbers for MULT and as unsigned numbers for MULTU.
\<close>

theorem mult_is_the_double_word_product:
  "(case Mult a b signedArith of (hi, lo) \<Rightarrow> uint hi * 2 ^ 32 + uint lo)
    = (if signedArith then sint a * sint b else uint a * uint b) mod 2 ^ 64"
  by (cases "Mult a b signedArith") (simp only: prod.case Mult_exact)

text \<open>
  C25. Decode is total and well-formed on all 2^32 instruction words: register fields below 32, an
  opcode the interpreter's switch handles (never the table's internal SPECIAL and BCOND, nor RFE,
  so the switch's default assertion is dead code), and a shift amount below 32 for immediate shifts.
\<close>

theorem decode_always_executable:
  "rs (Instruction_Decode w) < 32 \<and> rt (Instruction_Decode w) < 32 \<and> rd (Instruction_Decode w) < 32
   \<and> opCode (Instruction_Decode w) \<notin> {OP_RFE, SPECIAL, BCOND}
   \<and> (opCode (Instruction_Decode w) \<in> {OP_SLL, OP_SRA, OP_SRL} \<longrightarrow> unat (extra (Instruction_Decode w)) < 32)"
  using Instruction_Decode_decoded [of w] unfolding decoded_def .

theorem decode_always_executable_witness:
  "opCode (Instruction_Decode 0x000207c2) = OP_SRL \<and> unat (extra (Instruction_Decode 0x000207c2)) < 32"
proof -
  have "opCode (Instruction_Decode 0x000207c2) = OP_SRL"
    by (simp add: Instruction_Decode_def Let_def opTable_def specialTable_def)
  then show ?thesis using decode_always_executable [of "0x000207c2"] by simp
qed

text \<open>A machine about to execute the word \<open>w\<close> at address 0 of its only page, which is frame 3.\<close>

definition sample_cpu :: "32 word \<Rightarrow> (nat \<Rightarrow> 32 word) \<Rightarrow> Machine" where
  "sample_cpu w regs = (sample_machine False)\<lparr>mainMemory := store32_le 384 w (\<lambda>_. 0), registers := regs\<rparr>"

lemma sample_cpu_ok: "unat (regs LoadReg) < 32 \<Longrightarrow> regs 0 = 0 \<Longrightarrow> cpu_ok (sample_cpu w regs)"
  by (simp add: cpu_ok_def sample_cpu_def sample_machine_def Machine_Machine_def mmu_ok_def load_pending_ok_def)

lemma sample_cpu_fetch:
  "Machine_ReadMem (sample_cpu w regs) 0 4 = Inr (Returned (w, touch_entry (sample_cpu w regs) 0 False))"
proof -
  have a: "accessible (sample_cpu w regs) 0 4 False (sample_entry False)"
    by (simp add: accessible_def aligned_def entry_for_def sample_cpu_def sample_machine_def
        Machine_Machine_def sample_entry_def machine_sizes)
  have "mmu_ok (sample_cpu w regs)"
    by (simp add: sample_cpu_def sample_machine_def Machine_Machine_def mmu_ok_def)
  from Machine_ReadMem_granted [OF this _ a] show ?thesis
    using load32_store32_le [of 384 w "\<lambda>_. 0"]
    by (simp add: extend_read_def frame_address_def sample_entry_def sample_cpu_def machine_sizes)
qed

text \<open>The instruction word 0 is a shift of register 0 by nothing into register 0.\<close>

lemma sample_cpu_nop:
  assumes "unat (regs LoadReg) < 32" "regs PCReg = 0"
  shows "\<exists>m'. Machine_OneInstruction (sample_cpu 0 regs) = Inr (Returned m')"
proof -
  have "registers (sample_cpu 0 regs) = regs" by (simp add: sample_cpu_def)
  with assms sample_cpu_fetch [of 0 regs] show ?thesis
    by (simp add: Machine_OneInstruction_def Instruction_Decode_def Let_def opTable_def specialTable_def
        switch_defs write_break_def break_with_def finish_instruction_def Machine_DelayedLoad_def)
qed

text \<open>
  C18. Executing one instruction keeps the processor invariant (register 0 is zero, the pending load
  targets a general register, the translation tables are consistent) whether it completes or traps.
  The only way to stop the simulator is an LWL, LWR, SWL or SWR with an unaligned address.
\<close>

theorem one_instruction_keeps_invariant:
  assumes "cpu_ok m"
  shows "case Machine_OneInstruction m of
      Inr (Returned m') \<Rightarrow> cpu_ok m'
    | Inr (Trapped which m') \<Rightarrow> which \<noteq> NoException \<and> cpu_ok m'
    | Inl e \<Rightarrow> e = Assertion \<and> (\<exists>raw m1. Machine_ReadMem m (registers m PCReg) 4 = Inr (Returned (raw, m1))
        \<and> unaligned_partial m (Instruction_Decode raw))"
  using assms
proof (cases rule: Machine_OneInstruction_cases)
  case fetch_trap
  then show ?thesis
    using assms trap_state_ok [of m "trap_state m (registers m PCReg)" "registers m PCReg"]
    by (simp add: refusal_not_NoException cpu_ok_def)
next
  case (trap raw m1 w m')
  then show ?thesis using assms trap_state_ok [of m m'] by (auto simp: trapped_ok_def cpu_ok_def)
qed auto

theorem one_instruction_keeps_invariant_witness:
  "\<exists>m'. Machine_OneInstruction (sample_cpu 0 (\<lambda>_. 0)) = Inr (Returned m') \<and> cpu_ok m'"
  using one_instruction_keeps_invariant [OF sample_cpu_ok [of "\<lambda>_. 0" 0]] sample_cpu_nop [of "\<lambda>_. 0"] by auto

text \<open>
  C21. Traps are precise: when an instruction traps, memory, HI, LO and the program counters are what
  they were before it, and the general registers differ only by the completion of the load that was
  pending; so the instruction can be restarted.
\<close>

theorem traps_are_precise:
  assumes "cpu_ok m" "Machine_OneInstruction m = Inr (Trapped which m')"
  shows "mainMemory m' = mainMemory m
    \<and> (\<forall>r \<in> {HiReg, LoReg, PCReg, NextPCReg, PrevPCReg}. registers m' r = registers m r)
    \<and> (\<forall>r < NumGPRegs. registers m' r = load_done m r) \<and> registers m' LoadReg = 0"
  using assms(1)
proof (cases rule: Machine_OneInstruction_cases)
  case fetch_trap
  then show ?thesis
    using assms trap_state_ok [of m "trap_state m (registers m PCReg)" "registers m PCReg"]
    by (auto simp: cpu_ok_def)
next
  case (trap raw m1 w m'')
  then obtain bad where "registers m' = registers (trap_state m bad)" "mainMemory m' = mainMemory m"
    using assms(2) by (auto simp: trapped_ok_def)
  then show ?thesis using assms(1) trap_state_ok [of m m' bad] by (auto simp: cpu_ok_def)
qed (use assms(2) in simp_all)

theorem traps_are_precise_witness:
  "\<exists>m'. Machine_OneInstruction (sample_cpu 0 ((\<lambda>_. 0)(PCReg := 2))) = Inr (Trapped AddressErrorException m')
     \<and> registers m' PCReg = 2"
proof -
  let ?m = "sample_cpu 0 ((\<lambda>_. 0)(PCReg := 2))"
  have ok: "cpu_ok ?m" by (rule sample_cpu_ok) simp_all
  have r: "registers ?m = (\<lambda>_. 0)(PCReg := 2)" by (simp add: sample_cpu_def)
  have "\<exists>m'. Machine_OneInstruction ?m = Inr (Trapped AddressErrorException m')"
    by (simp add: Machine_OneInstruction_def Machine_ReadMem_def Machine_Translate_def r
        Machine_RaiseException_ok ok [unfolded cpu_ok_def])
  then obtain m' where m': "Machine_OneInstruction ?m = Inr (Trapped AddressErrorException m')" ..
  from traps_are_precise [OF ok m'] have "registers m' PCReg = registers ?m PCReg" by blast
  with m' show ?thesis by (simp add: r)
qed

text \<open>
  Delay slots: a completed instruction moves NextPC into PC, so the instruction after a branch
  is always executed; and the load that was pending before the instruction is in its register after
  it, whatever the instruction itself wrote there.
\<close>

theorem delay_slots:
  assumes "cpu_ok m" "Machine_OneInstruction m = Inr (Returned m')"
  shows "registers m' PCReg = registers m NextPCReg \<and> registers m' PrevPCReg = registers m PCReg
    \<and> (registers m LoadReg \<noteq> 0 \<longrightarrow> registers m' (unat (registers m LoadReg)) = registers m LoadValueReg)"
  using assms(1)
proof (cases rule: Machine_OneInstruction_cases)
  case (finished raw m1 m2 pcAfter nextLoadReg v m'')
  have lp: "load_pending_ok m" using assms(1) by (simp add: cpu_ok_def)
  have eq: "m'' = m'" using finished(4) assms(2) by simp
  show ?thesis
    by (rule finish_instruction_ok [OF finished(5,6) lp finished(7), of pcAfter v])
      (use finished(3) eq lp in \<open>auto simp: load_pending_ok_def unat_eq_zero\<close>)
qed (use assms(2) in simp_all)

theorem delay_slots_witness:
  "\<exists>m'. Machine_OneInstruction (sample_cpu 0 ((\<lambda>_. 0)(LoadReg := 5, LoadValueReg := 77))) = Inr (Returned m')
     \<and> registers m' 5 = 77"
proof -
  let ?regs = "(\<lambda>_. 0)(LoadReg := 5, LoadValueReg := 77) :: nat \<Rightarrow> 32 word"
  have ok: "cpu_ok (sample_cpu 0 ?regs)" by (rule sample_cpu_ok) simp_all
  obtain m' where m': "Machine_OneInstruction (sample_cpu 0 ?regs) = Inr (Returned m')"
    using sample_cpu_nop [of ?regs] by auto
  from delay_slots [OF ok m'] have "registers m' 5 = 77" by (simp add: sample_cpu_def)
  with m' show ?thesis by blast
qed

text \<open>
  C24. ADD, ADDI and SUB trap with OverflowException exactly when the signed result does not fit in
  32 bits; otherwise they write that result.
\<close>

theorem signed_overflow_traps:
  "(opCode i = OP_ADD \<longrightarrow> (let r = sint (registers m (rs i)) + sint (registers m (rt i)) in
      switch_ADD_BNE m i = (if in_int r then write_break m (rd i) (of_int r)
                            else Machine_RaiseException m OverflowException 0)))
   \<and> (opCode i = OP_ADDI \<longrightarrow> (let r = sint (registers m (rs i)) + sint (extra i) in
      switch_ADD_BNE m i = (if in_int r then write_break m (rt i) (of_int r)
                            else Machine_RaiseException m OverflowException 0)))
   \<and> (opCode i = OP_SUB \<longrightarrow> (let r = sint (registers m (rs i)) - sint (registers m (rt i)) in
      switch_ADD_BNE m i = (if in_int r then write_break m (rd i) (of_int r)
                            else Machine_RaiseException m OverflowException 0)))"
proof (intro conjI impI)
  have addi: "((a XOR b) AND 0x80000000 = 0 \<and> (b XOR (a + b)) AND 0x80000000 \<noteq> 0) = (\<not> in_int (sint a + sint b))"
    for a b :: "32 word"
    using add_overflow_iff [of b a] by (simp add: xor.commute add.commute)
  assume "opCode i = OP_ADDI"
  then show "let r = sint (registers m (rs i)) + sint (extra i) in
      switch_ADD_BNE m i = (if in_int r then write_break m (rt i) (of_int r)
                            else Machine_RaiseException m OverflowException 0)"
    by (simp add: switch_defs Let_def addi)
next
  assume "opCode i = OP_ADD"
  then show "let r = sint (registers m (rs i)) + sint (registers m (rt i)) in
      switch_ADD_BNE m i = (if in_int r then write_break m (rd i) (of_int r)
                            else Machine_RaiseException m OverflowException 0)"
    by (simp add: switch_defs Let_def add_overflow_iff)
next
  assume "opCode i = OP_SUB"
  then show "let r = sint (registers m (rs i)) - sint (registers m (rt i)) in
      switch_ADD_BNE m i = (if in_int r then write_break m (rd i) (of_int r)
                            else Machine_RaiseException m OverflowException 0)"
    by (simp add: switch_defs Let_def sub_overflow_iff)
qed

theorem signed_overflow_traps_witness:
  "switch_ADD_BNE (sample_cpu 0 ((\<lambda>_. 0)(1 := 0x7fffffff, 2 := 1))) (Instruction_Decode 0x00221820)
     = Machine_RaiseException (sample_cpu 0 ((\<lambda>_. 0)(1 := 0x7fffffff, 2 := 1))) OverflowException 0"
proof -
  let ?i = "Instruction_Decode 0x00221820"
  have i: "opCode ?i = OP_ADD" "rs ?i = 1" "rt ?i = 2"
    by (simp_all add: Instruction_Decode_def Let_def opTable_def specialTable_def)
  show ?thesis
    using signed_overflow_traps [of ?i "sample_cpu 0 ((\<lambda>_. 0)(1 := 0x7fffffff, 2 := 1))"]
    by (simp add: i sample_cpu_def in_int_def Let_def sint_uint_32)
qed

text \<open>
  The MIPS manual's OR is the disjunction of both operands; the interpreter reads \<open>rs\<close> twice.
\<close>

lemma OR_ignores_rt: "opCode i = OP_OR \<Longrightarrow> switch_ADD_BNE m i = write_break m (rd i) (registers m (rs i))"
  by (simp add: switch_defs)

text \<open>SLT compares the registers as unsigned numbers, like SLTU.\<close>

lemma SLT_is_unsigned:
  "opCode i = OP_SLT \<Longrightarrow> switch_ADD_BNE m i =
    write_break m (rd i) (if uint (registers m (rs i)) < uint (registers m (rt i)) then 1 else 0)"
  by (simp add: switch_defs word_less_def)

text \<open>SRA shifts in zeros and SRL shifts in copies of the sign bit.\<close>

lemma SRA_SRL_exchanged:
  "opCode i = OP_SRA \<Longrightarrow> switch_ADD_BNE m i =
     write_break m (rd i) (drop_bit (unat (extra i)) (registers m (rt i)))"
  "opCode i = OP_SRL \<Longrightarrow> switch_ADD_BNE m i =
     write_break m (rd i) (signed_drop_bit (unat (extra i)) (registers m (rt i)))"
  by (simp_all add: switch_defs)

text \<open>BGTZ is taken for every nonzero register, negative ones included.\<close>

lemma BGTZ_taken_unless_zero:
  "opCode i = OP_BGTZ \<Longrightarrow> switch_ADD_BNE m i = branch_if m (registers m (rs i) \<noteq> 0) i"
  by (simp add: switch_defs word_gt_0)

end
