(* ===== verification/Nachos_Interrupt.thy ===== *)
theory Nachos_Interrupt
  imports Nachos_List Nachos_Machine
begin

text \<open>
  \<^verbatim>\<open>machine/interrupt.cc\<close>, \<^verbatim>\<open>machine/timer.cc\<close> and \<^verbatim>\<open>machine/stats.cc\<close>: simulated time and the
  interrupts that are scheduled to happen in it. The state is the global objects these routines
  reach: the statistics (which hold the clock), the fields of \<open>Interrupt\<close> and, in a kernel built
  with \<^verbatim>\<open>USER_PROGRAM\<close>, the machine whose pending load is finished before a handler runs. Other
  components extend this record.

  A pending interrupt names the C function it will call, one of those the device simulators pass
  to \<open>Schedule\<close>. What such a call does to the state is an argument \<open>callHandler\<close> of the routines here, so that this
  component does not depend on the devices; the laws it relies on are a locale. Simulated time is an
  unbounded integer: the counters stay far below \<open>2\<^sup>31\<close> ticks in any run.
\<close>

section \<open>State\<close>

datatype IntStatus = IntOff | IntOn

datatype MachineStatus = IdleMode | SystemMode | UserMode

datatype IntType = TimerInt | DiskInt | ConsoleWriteInt | ConsoleReadInt | NetworkSendInt | NetworkRecvInt

datatype VoidFunctionPtr = TimerHandler | DiskDone | ConsoleReadPoll | ConsoleWriteDone
  | NetworkReadPoll | NetworkSendDone

record PendingInterrupt =
  pi_handler :: VoidFunctionPtr
  pi_arg :: int
  pi_when :: int
  pi_type :: IntType

record Statistics =
  totalTicks :: int
  idleTicks :: int
  systemTicks :: int
  userTicks :: int
  numDiskReads :: int
  numDiskWrites :: int
  numConsoleCharsRead :: int
  numConsoleCharsWritten :: int
  numPageFaults :: int
  numPacketsSent :: int
  numPacketsRecvd :: int

definition UserTick :: int where "UserTick = 1"
definition SystemTick :: int where "SystemTick = 10"
definition RotationTime :: int where "RotationTime = 500"
definition SeekTime :: int where "SeekTime = 500"
definition ConsoleTime :: int where "ConsoleTime = 100"
definition NetworkTime :: int where "NetworkTime = 100"
definition TimerTicks :: int where "TimerTicks = 100"

record sim =
  stats :: Statistics
  level :: IntStatus
  pending :: "PendingInterrupt nlist"
  inHandler :: bool
  yieldOnReturn :: bool
  int_status :: MachineStatus
  machine :: "Machine option"

definition Statistics_Statistics :: Statistics where
  "Statistics_Statistics = \<lparr>totalTicks = 0, idleTicks = 0, systemTicks = 0, userTicks = 0, numDiskReads = 0,
     numDiskWrites = 0, numConsoleCharsRead = 0, numConsoleCharsWritten = 0, numPageFaults = 0,
     numPacketsSent = 0, numPacketsRecvd = 0\<rparr>"

definition Interrupt_Interrupt :: "'a sim_scheme \<Rightarrow> 'a sim_scheme" where
  "Interrupt_Interrupt s = s\<lparr>level := IntOff, pending := List_empty, inHandler := False,
     yieldOnReturn := False, int_status := SystemMode\<rparr>"

abbreviation now :: "'a sim_scheme \<Rightarrow> int" where
  "now s \<equiv> totalTicks (stats s)"

section \<open>Results of a run\<close>

text \<open>
  A loop that never ends is \<open>None\<close>; a routine that ends gives a \<open>result\<close>, which may be a failed
  assertion.
\<close>

type_synonym 's run = "'s result option"

definition run_bind :: "'a run \<Rightarrow> ('a \<Rightarrow> 'b run) \<Rightarrow> 'b run" where
  "run_bind r f = (case r of None \<Rightarrow> None | Some (Inl e) \<Rightarrow> Some (Inl e) | Some (Inr x) \<Rightarrow> f x)"

lemma run_bind_simps [simp]:
  "run_bind None f = None" "run_bind (Some (Inl e)) f = Some (Inl e)" "run_bind (Some (Inr x)) f = f x"
  by (simp_all add: run_bind_def)

section \<open>Scheduling and firing\<close>

definition PendingInterrupt_PendingInterrupt ::
    "VoidFunctionPtr \<Rightarrow> int \<Rightarrow> int \<Rightarrow> IntType \<Rightarrow> PendingInterrupt" where
  "PendingInterrupt_PendingInterrupt func param time kind =
     \<lparr>pi_handler = func, pi_arg = param, pi_when = time, pi_type = kind\<rparr>"

definition Interrupt_Schedule ::
    "VoidFunctionPtr \<Rightarrow> int \<Rightarrow> int \<Rightarrow> IntType \<Rightarrow> 'a sim_scheme \<Rightarrow> 'a sim_scheme result" where
  "Interrupt_Schedule handler arg fromNow type s =
     (let when = now s + fromNow; toOccur = PendingInterrupt_PendingInterrupt handler arg when type
      in ASSERT (fromNow > 0) (Inr (s\<lparr>pending := List_SortedInsert toOccur when (pending s)\<rparr>)))"

definition Interrupt_ChangeLevel :: "IntStatus \<Rightarrow> 'a sim_scheme \<Rightarrow> 'a sim_scheme" where
  "Interrupt_ChangeLevel new s = s\<lparr>level := new\<rparr>"

definition Interrupt_YieldOnReturn :: "'a sim_scheme \<Rightarrow> 'a sim_scheme result" where
  "Interrupt_YieldOnReturn s = ASSERT (inHandler s = True) (Inr (s\<lparr>yieldOnReturn := True\<rparr>))"

text \<open>Finishing the user program's pending load, before a handler runs.\<close>

definition finish_user_load :: "'a sim_scheme \<Rightarrow> 'a sim_scheme result" where
  "finish_user_load s = (case machine s of None \<Rightarrow> Inr s
     | Some m \<Rightarrow> rbind (Machine_DelayedLoad m 0 0) (\<lambda>m'. Inr (s\<lparr>machine := Some m'\<rparr>)))"

text \<open>The part of \<open>CheckIfDue\<close> that calls the handler of \<open>toOccur\<close>.\<close>

definition invoke_handler ::
    "(VoidFunctionPtr \<Rightarrow> int \<Rightarrow> 'a sim_scheme \<Rightarrow> 'a sim_scheme result) \<Rightarrow> PendingInterrupt
      \<Rightarrow> 'a sim_scheme \<Rightarrow> 'a sim_scheme result" where
  "invoke_handler callHandler toOccur s =
     rbind (finish_user_load s) (\<lambda>s1.
     rbind (callHandler (pi_handler toOccur) (pi_arg toOccur) (s1\<lparr>inHandler := True, int_status := SystemMode\<rparr>)) (\<lambda>s2.
       Inr (s2\<lparr>int_status := int_status s, inHandler := False\<rparr>)))"

definition Interrupt_CheckIfDue ::
    "(VoidFunctionPtr \<Rightarrow> int \<Rightarrow> 'a sim_scheme \<Rightarrow> 'a sim_scheme result) \<Rightarrow> bool
      \<Rightarrow> 'a sim_scheme \<Rightarrow> (bool \<times> 'a sim_scheme) result" where
  "Interrupt_CheckIfDue callHandler advanceClock s = ASSERT (level s = IntOff)
     (case List_SortedRemove (pending s) of
        (None, rest) \<Rightarrow> Inr (False, s\<lparr>pending := rest\<rparr>)
      | (Some (when, toOccur), rest) \<Rightarrow>
          if \<not> advanceClock \<and> when > now s
          then Inr (False, s\<lparr>pending := List_SortedInsert toOccur when rest\<rparr>)
          else
            let s1 = (if when > now s
                then s\<lparr>pending := rest, stats := (stats s)\<lparr>idleTicks := idleTicks (stats s) + (when - now s),
                       totalTicks := when\<rparr>\<rparr>
                else s\<lparr>pending := rest\<rparr>)
            in if int_status s = IdleMode \<and> pi_type toOccur = TimerInt \<and> List_IsEmpty (pending s1)
               then Inr (False, s1\<lparr>pending := List_SortedInsert toOccur when (pending s1)\<rparr>)
               else rbind (invoke_handler callHandler toOccur s1) (\<lambda>s2. Inr (True, s2)))"

text \<open>\<^verbatim>\<open>while (CheckIfDue(FALSE));\<close>\<close>

partial_function (option) fire_due ::
    "(VoidFunctionPtr \<Rightarrow> int \<Rightarrow> 'a sim_scheme \<Rightarrow> 'a sim_scheme result) \<Rightarrow> 'a sim_scheme \<Rightarrow> 'a sim_scheme run" where
  "fire_due callHandler s = (case Interrupt_CheckIfDue callHandler False s of
       Inl e \<Rightarrow> Some (Inl e)
     | Inr (fired, s') \<Rightarrow> if fired then fire_due callHandler s' else Some (Inr s'))"

declare fire_due.simps [code]

text \<open>
  The rest of \<open>OneTick\<close>, \<^verbatim>\<open>currentThread->Yield(); status = old;\<close>, belongs to the thread system, which may
  run other threads before it comes back. It is left to the caller: \<open>OneTick\<close> also returns whether
  that rest has to be executed, and with which \<open>old\<close>.
\<close>

definition Interrupt_OneTick ::
    "(VoidFunctionPtr \<Rightarrow> int \<Rightarrow> 'a sim_scheme \<Rightarrow> 'a sim_scheme result) \<Rightarrow> 'a sim_scheme
      \<Rightarrow> (MachineStatus option \<times> 'a sim_scheme) run" where
  "Interrupt_OneTick callHandler s =
     (let old = int_status s;
          st = stats s;
          s1 = s\<lparr>stats := (if int_status s = SystemMode
                 then st\<lparr>totalTicks := totalTicks st + SystemTick, systemTicks := systemTicks st + SystemTick\<rparr>
                 else st\<lparr>totalTicks := totalTicks st + UserTick, userTicks := userTicks st + UserTick\<rparr>)\<rparr>
      in run_bind (fire_due callHandler (Interrupt_ChangeLevel IntOff s1)) (\<lambda>s2.
           let s3 = Interrupt_ChangeLevel IntOn s2
           in if yieldOnReturn s3
              then Some (Inr (Some old, s3\<lparr>yieldOnReturn := False, int_status := SystemMode\<rparr>))
              else Some (Inr (None, s3))))"

definition Interrupt_SetLevel ::
    "(VoidFunctionPtr \<Rightarrow> int \<Rightarrow> 'a sim_scheme \<Rightarrow> 'a sim_scheme result)
      \<Rightarrow> IntStatus \<Rightarrow> 'a sim_scheme \<Rightarrow> (MachineStatus option \<times> 'a sim_scheme) run" where
  "Interrupt_SetLevel callHandler new s =
     (let old = level s in
      if \<not> (new = IntOff \<or> inHandler s = False) then Some (Inl Assertion)
      else let s1 = Interrupt_ChangeLevel new s in
        if new = IntOn \<and> old = IntOff then Interrupt_OneTick callHandler s1
        else Some (Inr (None, s1)))"

definition Interrupt_Enable ::
    "(VoidFunctionPtr \<Rightarrow> int \<Rightarrow> 'a sim_scheme \<Rightarrow> 'a sim_scheme result)
      \<Rightarrow> 'a sim_scheme \<Rightarrow> (MachineStatus option \<times> 'a sim_scheme) run" where
  "Interrupt_Enable callHandler s = Interrupt_SetLevel callHandler IntOn s"

text \<open>\<open>Idle\<close> returns whether the machine goes on; \<open>False\<close> is the halt, which does not return.\<close>

definition Interrupt_Idle ::
    "(VoidFunctionPtr \<Rightarrow> int \<Rightarrow> 'a sim_scheme \<Rightarrow> 'a sim_scheme result)
      \<Rightarrow> 'a sim_scheme \<Rightarrow> (bool \<times> 'a sim_scheme) run" where
  "Interrupt_Idle callHandler s = (case Interrupt_CheckIfDue callHandler True (s\<lparr>int_status := IdleMode\<rparr>) of
       Inl e \<Rightarrow> Some (Inl e)
     | Inr (fired, s1) \<Rightarrow>
         if fired then run_bind (fire_due callHandler s1) (\<lambda>s2.
           Some (Inr (True, s2\<lparr>yieldOnReturn := False, int_status := SystemMode\<rparr>)))
         else Some (Inr (False, s1)))"

section \<open>The timer\<close>

record Timer =
  randomize :: bool

text \<open>\<open>random\<close> is the next value of the pseudo-random generator, which is not negative.\<close>

definition Timer_TimeOfNextInterrupt :: "Timer \<Rightarrow> nat \<Rightarrow> int" where
  "Timer_TimeOfNextInterrupt t random =
     (if randomize t then 1 + (int random mod (TimerTicks * 2)) else TimerTicks)"

definition TimerInterruptHandler :: "'a sim_scheme \<Rightarrow> 'a sim_scheme result" where
  "TimerInterruptHandler s = (if int_status s \<noteq> IdleMode then Interrupt_YieldOnReturn s else Inr s)"

definition Timer_Timer :: "int \<Rightarrow> Timer \<Rightarrow> nat \<Rightarrow> 'a sim_scheme \<Rightarrow> 'a sim_scheme result" where
  "Timer_Timer this t random s =
     Interrupt_Schedule TimerHandler this (Timer_TimeOfNextInterrupt t random) TimerInt s"

definition Timer_TimerExpired :: "int \<Rightarrow> Timer \<Rightarrow> nat \<Rightarrow> 'a sim_scheme \<Rightarrow> 'a sim_scheme result" where
  "Timer_TimerExpired this t random s =
     rbind (Interrupt_Schedule TimerHandler this (Timer_TimeOfNextInterrupt t random) TimerInt s)
       TimerInterruptHandler"

section \<open>The invariant and the handlers' contract\<close>

definition user_load_ok :: "'a sim_scheme \<Rightarrow> bool" where
  "user_load_ok s \<longleftrightarrow> (case machine s of None \<Rightarrow> True | Some m \<Rightarrow> load_pending_ok m)"

definition ints_ok :: "'a sim_scheme \<Rightarrow> bool" where
  "ints_ok s \<longleftrightarrow> sorted_by_key (pending s) \<and> user_load_ok s"

text \<open>The interrupts whose time has come, in the order of the list.\<close>

definition due :: "'a sim_scheme \<Rightarrow> PendingInterrupt nlist" where
  "due s = takeWhile (\<lambda>e. fst e \<le> now s) (pending s)"

fun fire_all ::
    "(VoidFunctionPtr \<Rightarrow> int \<Rightarrow> 'a sim_scheme \<Rightarrow> 'a sim_scheme result) \<Rightarrow> PendingInterrupt list
      \<Rightarrow> 'a sim_scheme \<Rightarrow> 'a sim_scheme result" where
  "fire_all callHandler [] s = Inr s"
| "fire_all callHandler (p # ps) s =
     rbind (invoke_handler callHandler p (s\<lparr>pending := tl (pending s)\<rparr>)) (fire_all callHandler ps)"

fun put_back :: "'b nlist \<Rightarrow> 'b nlist" where
  "put_back [] = []"
| "put_back ((k, p) # rest) = List_SortedInsert p k rest"

lemma set_put_back [simp]: "set (put_back l) = set l"
  by (cases l) auto

lemma sorted_put_back: "sorted_by_key l \<Longrightarrow> sorted_by_key (put_back l)"
  by (cases l) (auto simp: List_SortedInsert_sorted)

lemma takeWhile_SortedInsert:
  assumes "sorted_by_key l" "t < k"
  shows "takeWhile (\<lambda>e. fst e \<le> t) (List_SortedInsert x k l) = takeWhile (\<lambda>e. fst e \<le> t) l"
  using assms(1)
proof (induction l)
  case Nil
  then show ?case using assms(2) by (simp add: List_SortedInsert_def)
next
  case (Cons e l)
  then show ?case using assms(2) by (auto simp: List_SortedInsert_def)
qed

lemma takeWhile_sorted_inserts:
  assumes "sorted_by_key l" "\<forall>e \<in> set xs. t < fst e"
  shows "takeWhile (\<lambda>e. fst e \<le> t) (sorted_inserts xs l) = takeWhile (\<lambda>e. fst e \<le> t) l"
  using assms by (induction xs arbitrary: l) (auto simp: takeWhile_SortedInsert List_SortedInsert_sorted)

lemma sorted_all_later:
  assumes "sorted_by_key l" "takeWhile (\<lambda>e. fst e \<le> t) l = []"
  shows "\<forall>e \<in> set l. t < fst e"
  using assms by (cases l) (auto split: if_splits)

text \<open>Finishing a load writes registers only.\<close>

definition same_memory :: "Machine option \<Rightarrow> Machine option \<Rightarrow> bool" where
  "same_memory a b \<longleftrightarrow> (\<exists>r. b = map_option (\<lambda>m. m\<lparr>registers := r\<rparr>) a)"

lemma same_memory_refl [simp]: "same_memory a a"
  by (cases a) (auto simp: same_memory_def intro!: exI [of _ "registers (the a)"])

lemma same_memory_trans: "same_memory a b \<Longrightarrow> same_memory b c \<Longrightarrow> same_memory a c"
  by (cases a) (auto simp: same_memory_def)

lemma same_memory_None: "same_memory a b \<Longrightarrow> b = None \<longleftrightarrow> a = None"
  by (auto simp: same_memory_def)

lemma finish_user_load_ok:
  assumes "user_load_ok s"
  obtains m where "finish_user_load s = Inr (s\<lparr>machine := m\<rparr>)" "user_load_ok (s\<lparr>machine := m\<rparr>)" "same_memory (machine s) m"
proof (cases "machine s")
  case None
  then have "finish_user_load s = Inr (s\<lparr>machine := None\<rparr>)" by (simp add: finish_user_load_def)
  with None show ?thesis by (intro that [of None]) (simp_all add: user_load_ok_def)
next
  case (Some m)
  with assms have "unat (registers m LoadReg) < 32" by (simp add: user_load_ok_def load_pending_ok_def)
  then obtain m' where "Machine_DelayedLoad m 0 0 = Inr m'" "load_pending_ok m'" "same_memory (Some m) (Some m')"
    by (auto simp: Machine_DelayedLoad_def load_pending_ok_def same_memory_def set_reg_def)
  with Some show ?thesis by (intro that [of "Some m'"]) (simp_all add: finish_user_load_def user_load_ok_def)
qed

text \<open>
  What interrupt handlers promise about the part of the state that is their own and their clients', \<open>sim.more\<close>:
  they keep an invariant \<open>inv\<close>, change the state only as the preorder \<open>rel\<close> allows, return, do not touch the clock, the
  interrupt level or the user registers, and only schedule interrupts for the future.
\<close>

locale interrupt_handlers =
  fixes callHandler :: "VoidFunctionPtr \<Rightarrow> int \<Rightarrow> 'a sim_scheme \<Rightarrow> 'a sim_scheme result"
    and inv :: "'a \<Rightarrow> bool"
    and rel :: "'a \<Rightarrow> 'a \<Rightarrow> bool"
  assumes rel_refl: "rel x x"
    and rel_trans: "rel x y \<Longrightarrow> rel y z \<Longrightarrow> rel x z"
    and handler_ok: "inv (sim.more s) \<Longrightarrow> ints_ok s \<Longrightarrow> level s = IntOff \<Longrightarrow> inHandler s \<Longrightarrow> int_status s = SystemMode \<Longrightarrow>
      \<exists>s' new. callHandler h a s = Inr s' \<and> inv (sim.more s') \<and> rel (sim.more s) (sim.more s') \<and> level s' = IntOff
        \<and> now s' = now s \<and> machine s' = machine s \<and> pending s' = sorted_inserts new (pending s) \<and> (\<forall>e \<in> set new. now s < fst e)"
begin

definition quiescent :: "'a sim_scheme \<Rightarrow> bool" where
  "quiescent s \<longleftrightarrow> inv (sim.more s) \<and> ints_ok s \<and> level s = IntOff \<and> \<not> inHandler s"

definition carried :: "'a sim_scheme \<Rightarrow> 'a sim_scheme \<Rightarrow> bool" where
  "carried s s' \<longleftrightarrow> rel (sim.more s) (sim.more s') \<and> int_status s' = int_status s \<and> (same_memory (machine s) (machine s'))"

lemma carried_same: "sim.more s' = sim.more s \<Longrightarrow> int_status s' = int_status s \<Longrightarrow> machine s' = machine s \<Longrightarrow> carried s s'"
  by (simp add: carried_def rel_refl)

lemma carried_trans: "carried s s1 \<Longrightarrow> carried s1 s2 \<Longrightarrow> carried s s2"
  using rel_trans same_memory_trans by (auto simp: carried_def)

lemma quiescent_pending [simp]:
  "quiescent (s\<lparr>pending := l, stats := st\<rparr>) \<longleftrightarrow> inv (sim.more s) \<and> sorted_by_key l \<and> user_load_ok s \<and> level s = IntOff \<and> \<not> inHandler s"
  "quiescent (s\<lparr>pending := l\<rparr>) \<longleftrightarrow> inv (sim.more s) \<and> sorted_by_key l \<and> user_load_ok s \<and> level s = IntOff \<and> \<not> inHandler s"
  by (auto simp: quiescent_def ints_ok_def user_load_ok_def)

lemma quiescentD:
  assumes "quiescent s"
  shows "inv (sim.more s)" "sorted_by_key (pending s)" "user_load_ok s" "level s = IntOff" "\<not> inHandler s"
  using assms by (simp_all add: quiescent_def ints_ok_def)

lemma invoke_handler_ok:
  assumes "quiescent s"
  shows "\<exists>s' new. invoke_handler callHandler p s = Inr s' \<and> quiescent s' \<and> carried s s' \<and> now s' = now s
    \<and> pending s' = sorted_inserts new (pending s) \<and> (\<forall>e \<in> set new. now s < fst e)"
proof -
  obtain m where m: "finish_user_load s = Inr (s\<lparr>machine := m\<rparr>)" "user_load_ok (s\<lparr>machine := m\<rparr>)"
      "same_memory (machine s) m"
    using assms finish_user_load_ok by (auto simp: quiescent_def ints_ok_def)
  define s1 where "s1 = s\<lparr>machine := m\<rparr>"
  have s1: "finish_user_load s = Inr s1" "sim.more s1 = sim.more s" "ints_ok s1"
      "level s1 = IntOff" "stats s1 = stats s" "pending s1 = pending s" "same_memory (machine s) (machine s1)"
    using assms m by (simp_all add: quiescent_def ints_ok_def s1_def)
  let ?s = "s1\<lparr>inHandler := True, int_status := SystemMode\<rparr>"
  have "inv (sim.more ?s)" using s1(2) assms by (simp add: quiescent_def)
  moreover have "ints_ok ?s" "level ?s = IntOff" "inHandler ?s" "int_status ?s = SystemMode"
    using s1 assms by (auto simp: quiescent_def ints_ok_def user_load_ok_def)
  ultimately obtain s2 new where
    s2: "callHandler (pi_handler p) (pi_arg p) ?s = Inr s2" "inv (sim.more s2)" "rel (sim.more s1) (sim.more s2)" "level s2 = IntOff"
      "now s2 = now s1" "machine s2 = machine s1" "pending s2 = sorted_inserts new (pending s1)"
      "\<forall>e \<in> set new. now s1 < fst e"
    using handler_ok [of ?s "pi_handler p" "pi_arg p"] by auto
  let ?t = "s2\<lparr>int_status := int_status s, inHandler := False\<rparr>"
  have "invoke_handler callHandler p s = Inr ?t" by (simp add: invoke_handler_def s1(1) s2(1))
  moreover have "quiescent ?t" "carried s ?t"
    using s1 s2 by (simp_all add: quiescent_def ints_ok_def user_load_ok_def sorted_inserts_sorted carried_def)
  ultimately show ?thesis using s1 s2 by auto
qed

text \<open>The head of the list fires.\<close>

lemma fire_head:
  assumes "quiescent s" "pending s = (k, p) # rest" "k \<le> now s \<or> adv" "\<not> (int_status s = IdleMode \<and> pi_type p = TimerInt \<and> rest = [])"
  shows "\<exists>s1. Interrupt_CheckIfDue callHandler adv s = Inr (True, s1) \<and> quiescent s1 \<and> carried s s1
    \<and> now s1 = max k (now s) \<and> (k \<le> now s \<longrightarrow> invoke_handler callHandler p (s\<lparr>pending := rest\<rparr>) = Inr s1 \<and> due s = (k, p) # due s1)"
proof -
  note q = quiescentD [OF assms(1)]
  define st where "st = (if k > now s then (stats s)\<lparr>idleTicks := idleTicks (stats s) + (k - now s), totalTicks := k\<rparr> else stats s)"
  let ?s = "s\<lparr>pending := rest, stats := st\<rparr>"
  have "quiescent ?s" using q assms(2) by simp
  from invoke_handler_ok [OF this, of p] obtain s1 new where
    s1: "invoke_handler callHandler p ?s = Inr s1" "quiescent s1" "carried ?s s1" "now s1 = now ?s"
      "pending s1 = sorted_inserts new rest" "\<forall>e \<in> set new. now ?s < fst e" by auto
  have st: "k \<le> now s \<Longrightarrow> st = stats s" "totalTicks st = max k (now s)" by (auto simp: st_def)
  have "Interrupt_CheckIfDue callHandler adv s = Inr (True, s1)"
  proof (cases "k > now s")
    case True
    then show ?thesis using assms q s1(1) by (auto simp: Interrupt_CheckIfDue_def Let_def st_def List_IsEmpty_def)
  next
    case False
    then show ?thesis using assms q s1(1) by (auto simp: Interrupt_CheckIfDue_def Let_def st_def List_IsEmpty_def)
  qed
  moreover have "carried s s1" using s1(3) by (simp add: carried_def)
  moreover have "invoke_handler callHandler p (s\<lparr>pending := rest\<rparr>) = Inr s1 \<and> due s = (k, p) # due s1" if "k \<le> now s"
  proof -
    have "sorted_by_key rest" using q assms(2) by simp
    then show ?thesis using s1 st that assms(2) by (simp add: due_def takeWhile_sorted_inserts)
  qed
  ultimately show ?thesis using s1 st by auto
qed

lemma fire_due_head:
  assumes "quiescent s" "pending s = (k, p) # rest" "k \<le> now s" "\<not> (int_status s = IdleMode \<and> pi_type p = TimerInt \<and> rest = [])"
  shows "\<exists>s1. Interrupt_CheckIfDue callHandler False s = Inr (True, s1) \<and> quiescent s1 \<and> carried s s1 \<and> now s1 = now s
    \<and> invoke_handler callHandler p (s\<lparr>pending := rest\<rparr>) = Inr s1 \<and> due s = (k, p) # due s1"
proof -
  have "max k (now s) = now s" using assms(3) by simp
  then show ?thesis using fire_head [OF assms(1,2) _ assms(4), of False] assms(3) by metis
qed

text \<open>The loop fires exactly the due interrupts, in the order of their times, and ends with nothing due.\<close>

lemma fire_due_ok:
  assumes "quiescent s" "int_status s \<noteq> IdleMode"
  shows "\<exists>s' s1. fire_due callHandler s = Some (Inr s') \<and> fire_all callHandler (items (due s)) s = Inr s1
    \<and> s' = s1\<lparr>pending := put_back (pending s1)\<rparr> \<and> quiescent s' \<and> carried s s' \<and> now s' = now s
    \<and> (\<forall>e \<in> set (pending s'). now s' < fst e)"
  using assms
proof (induction "length (due s)" arbitrary: s)
  case 0
  note q = quiescentD [OF 0(2)]
  have later: "\<forall>e \<in> set (pending s). now s < fst e"
    using 0 q sorted_all_later [of "pending s" "now s"] by (simp add: due_def)
  have "Interrupt_CheckIfDue callHandler False s = Inr (False, s\<lparr>pending := put_back (pending s)\<rparr>)"
    using q later by (cases "pending s") (auto simp: Interrupt_CheckIfDue_def)
  then have "fire_due callHandler s = Some (Inr (s\<lparr>pending := put_back (pending s)\<rparr>))"
    by (subst fire_due.simps) simp
  then show ?case using 0 q later by (simp add: sorted_put_back carried_same)
next
  case (Suc n)
  then obtain k p rest where l: "pending s = (k, p) # rest" "k \<le> now s"
    by (cases "pending s") (auto simp: due_def split: if_splits)
  obtain s1 where s1: "Interrupt_CheckIfDue callHandler False s = Inr (True, s1)" "quiescent s1" "carried s s1" "now s1 = now s"
      "invoke_handler callHandler p (s\<lparr>pending := rest\<rparr>) = Inr s1" "due s = (k, p) # due s1"
    using fire_due_head [OF Suc.prems(1) l] Suc.prems(2) by blast
  then have "n = length (due s1)" using Suc.hyps(2) by simp
  from Suc.hyps(1) [OF this s1(2)] Suc.prems(2) s1(3) obtain s' s2 where
    s': "fire_due callHandler s1 = Some (Inr s')" "fire_all callHandler (items (due s1)) s1 = Inr s2"
      "s' = s2\<lparr>pending := put_back (pending s2)\<rparr>" "quiescent s'" "carried s1 s'" "now s' = now s1"
      "\<forall>e \<in> set (pending s'). now s' < fst e" by (auto simp: carried_def)
  have "fire_due callHandler s = Some (Inr s')" using s'(1) s1(1) by (subst fire_due.simps) simp
  moreover have "fire_all callHandler (items (due s)) s = Inr s2" using s1(5) s'(2) by (simp add: s1(6) l)
  moreover have "carried s s'" "now s' = now s" using carried_trans s1(3,4) s'(5,6) by auto
  ultimately show ?case using s'(3,4,7) by blast
qed

text \<open>When the machine is idle, the loop may stop at the timer; it ends too.\<close>

lemma fire_due_idle:
  assumes "quiescent s" "int_status s = IdleMode"
  shows "\<exists>s'. fire_due callHandler s = Some (Inr s') \<and> quiescent s' \<and> carried s s' \<and> now s' = now s"
  using assms
proof (induction "length (due s)" arbitrary: s rule: less_induct)
  case less
  note q = quiescentD [OF less.prems(1)]
  show ?case
  proof (cases "pending s = [] \<or> (\<exists>k p rest. pending s = (k, p) # rest \<and> (k > now s \<or> pi_type p = TimerInt \<and> rest = []))")
    case True
    then have "Interrupt_CheckIfDue callHandler False s = Inr (False, s\<lparr>pending := put_back (pending s)\<rparr>)"
      using q less.prems(2) by (auto simp: Interrupt_CheckIfDue_def List_IsEmpty_def)
    then have "fire_due callHandler s = Some (Inr (s\<lparr>pending := put_back (pending s)\<rparr>))"
      by (subst fire_due.simps) simp
    then show ?thesis using q by (simp add: sorted_put_back carried_same)
  next
    case False
    then obtain k p rest where l: "pending s = (k, p) # rest" "k \<le> now s" "\<not> (pi_type p = TimerInt \<and> rest = [])"
      by (cases "pending s") (auto simp: not_less)
    obtain s1 where s1: "Interrupt_CheckIfDue callHandler False s = Inr (True, s1)" "quiescent s1" "carried s s1" "now s1 = now s"
        "due s = (k, p) # due s1"
      using fire_due_head [OF less.prems(1) l(1,2)] l(3) by blast
    have "length (due s1) < length (due s)" using s1(5) by simp
    from less.hyps [OF this s1(2)] s1(3) less.prems(2) obtain s' where
      "fire_due callHandler s1 = Some (Inr s')" "quiescent s'" "carried s1 s'" "now s' = now s1" by (auto simp: carried_def)
    moreover from this have "fire_due callHandler s = Some (Inr s')" using s1(1) by (subst fire_due.simps) simp
    ultimately show ?thesis using s1(3,4) carried_trans by metis
  qed
qed

text \<open>\<open>OneTick\<close> and \<open>Idle\<close> return; the machine halts exactly when no interrupt but the timer's is left to wait for.\<close>

definition tick :: "'a sim_scheme \<Rightarrow> int" where
  "tick s = (if int_status s = SystemMode then SystemTick else UserTick)"

lemma OneTick_ok:
  assumes "inv (sim.more s)" "ints_ok s" "\<not> inHandler s" "int_status s \<noteq> IdleMode"
  shows "\<exists>r s'. Interrupt_OneTick callHandler s = Some (Inr (r, s')) \<and> inv (sim.more s') \<and> ints_ok s' \<and> level s' = IntOn
    \<and> \<not> inHandler s' \<and> rel (sim.more s) (sim.more s') \<and> (same_memory (machine s) (machine s')) \<and> now s' = now s + tick s
    \<and> int_status s' = (case r of None \<Rightarrow> int_status s | Some old \<Rightarrow> SystemMode) \<and> (\<forall>old. r = Some old \<longrightarrow> old = int_status s)
    \<and> (\<forall>e \<in> set (pending s'). now s' < fst e)"
proof -
  define s0 where "s0 = s\<lparr>stats := (if int_status s = SystemMode
      then (stats s)\<lparr>totalTicks := now s + SystemTick, systemTicks := systemTicks (stats s) + SystemTick\<rparr>
      else (stats s)\<lparr>totalTicks := now s + UserTick, userTicks := userTicks (stats s) + UserTick\<rparr>), level := IntOff\<rparr>"
  have "quiescent s0" "int_status s0 \<noteq> IdleMode"
    using assms by (simp_all add: s0_def quiescent_def ints_ok_def user_load_ok_def)
  from fire_due_ok [OF this] obtain s2 where
    s2: "fire_due callHandler s0 = Some (Inr s2)" "quiescent s2" "carried s0 s2" "now s2 = now s0" "\<forall>e \<in> set (pending s2). now s2 < fst e"
    by auto
  have s0: "now s0 = now s + tick s" "sim.more s0 = sim.more s" "int_status s0 = int_status s" "machine s0 = machine s"
    by (simp_all add: s0_def tick_def)
  have "Interrupt_OneTick callHandler s = Some (Inr (if yieldOnReturn s2
      then (Some (int_status s), s2\<lparr>level := IntOn, yieldOnReturn := False, int_status := SystemMode\<rparr>)
      else (None, s2\<lparr>level := IntOn\<rparr>)))"
    using s2(1) by (simp add: Interrupt_OneTick_def Let_def Interrupt_ChangeLevel_def s0_def)
  then show ?thesis using quiescentD [OF s2(2)] s2(3-5) s0
    by (cases "yieldOnReturn s2") (auto simp: carried_def ints_ok_def user_load_ok_def)
qed

definition only_timer :: "'a sim_scheme \<Rightarrow> bool" where
  "only_timer s \<longleftrightarrow> (case pending s of [] \<Rightarrow> True | [(k, p)] \<Rightarrow> pi_type p = TimerInt | _ \<Rightarrow> False)"

lemma Idle_ok:
  assumes "quiescent s"
  shows "\<exists>r s'. Interrupt_Idle callHandler s = Some (Inr (r, s')) \<and> quiescent s' \<and> rel (sim.more s) (sim.more s')
    \<and> (same_memory (machine s) (machine s')) \<and> now s \<le> now s' \<and> (r \<longleftrightarrow> \<not> only_timer s) \<and> (r \<longrightarrow> int_status s' = SystemMode)"
proof (cases "only_timer s")
  case True
  let ?s = "s\<lparr>int_status := IdleMode\<rparr>"
  note q = quiescentD [OF assms]
  obtain s' where "Interrupt_CheckIfDue callHandler True ?s = Inr (False, s')" "sim.more s' = sim.more s" "machine s' = machine s"
      "now s \<le> now s'" "quiescent s'"
  proof (cases "pending s")
    case Nil
    then show ?thesis using q by (intro that [of ?s]) (simp_all add: Interrupt_CheckIfDue_def quiescent_def ints_ok_def user_load_ok_def)
  next
    case (Cons e rest)
    then obtain k p where "pending s = [(k, p)]" "pi_type p = TimerInt"
      using True by (cases e, cases rest) (auto simp: only_timer_def)
    then show ?thesis using q
      by (intro that [of "?s\<lparr>pending := [(k, p)], stats := (if k > now s then (stats s)\<lparr>idleTicks := idleTicks (stats s) + (k - now s), totalTicks := k\<rparr> else stats s)\<rparr>"])
        (auto simp: Interrupt_CheckIfDue_def List_IsEmpty_def List_SortedInsert_def Let_def quiescent_def ints_ok_def user_load_ok_def)
  qed
  then show ?thesis using True q by (auto simp: Interrupt_Idle_def rel_refl)
next
  case False
  let ?s = "s\<lparr>int_status := IdleMode\<rparr>"
  obtain k p rest where l: "pending s = (k, p) # rest" "\<not> (pi_type p = TimerInt \<and> rest = [])"
    using False by (cases "pending s") (auto simp: only_timer_def split: list.splits)
  have q: "quiescent ?s" using assms by (simp add: quiescent_def ints_ok_def user_load_ok_def)
  obtain s1 where s1: "Interrupt_CheckIfDue callHandler True ?s = Inr (True, s1)" "quiescent s1" "carried ?s s1" "now s1 = max k (now s)"
    using fire_head [OF q, of k p rest True] l by auto
  obtain s2 where s2: "fire_due callHandler s1 = Some (Inr s2)" "quiescent s2" "carried s1 s2" "now s2 = now s1"
    using fire_due_idle [OF s1(2)] s1(3) by (auto simp: carried_def)
  let ?t = "s2\<lparr>yieldOnReturn := False, int_status := SystemMode\<rparr>"
  have "Interrupt_Idle callHandler s = Some (Inr (True, ?t))" using s1(1) s2(1) by (simp add: Interrupt_Idle_def)
  moreover have "quiescent ?t" using s2(2) by (simp add: quiescent_def ints_ok_def user_load_ok_def)
  moreover have "rel (sim.more s) (sim.more ?t)" "same_memory (machine s) (machine ?t)"
    using s1(3) s2(3) rel_trans same_memory_trans by (auto simp: carried_def)
  ultimately show ?thesis using s1(4) s2(4) False by auto
qed

end

end
