(* ===== verification/Nachos_Disk.thy ===== *)
theory Nachos_Disk
  imports Nachos_Interrupt
begin

text \<open>
  \<^verbatim>\<open>machine/disk.cc\<close>: the simulated disk. Its contents are a UNIX file, kept here as the list of its
  bytes: a magic number followed by the sectors. A request transfers its sector at once and
  schedules the interrupt that will announce it; its latency depends on the position of the head
  at the simulated time and on the track buffer. The system calls on the UNIX file are \<open>file_read\<close>
  and \<open>file_write\<close>, with the assertions that \<^verbatim>\<open>sysdep.cc\<close> puts on their results.
\<close>

section \<open>Bytes\<close>

type_synonym byte = "8 word"

text \<open>An \<^verbatim>\<open>int\<close> in memory, on a little-endian host.\<close>

definition word_bytes :: "32 word \<Rightarrow> byte list" where
  "word_bytes w = [ucast w, ucast (drop_bit 8 w), ucast (drop_bit 16 w), ucast (drop_bit 24 w)]"

definition bytes_word :: "byte list \<Rightarrow> 32 word" where
  "bytes_word bs = load32_le ((!) bs) 0"

lemma length_word_bytes [simp]: "length (word_bytes w) = 4"
  by (simp add: word_bytes_def)

lemma bytes_word_bytes [simp]: "bytes_word (word_bytes w @ bs) = w" "bytes_word (word_bytes w) = w"
proof -
  have "load32_le ((!) (word_bytes w @ bs)) 0 = load32_le (store32_le 0 w (\<lambda>_. 0)) 0" for bs
    by (simp add: load32_le_def load16_le_def store32_le_def word_bytes_def)
  from this [of bs] this [of "[]"] show "bytes_word (word_bytes w @ bs) = w" "bytes_word (word_bytes w) = w"
    by (simp_all add: bytes_word_def load32_store32_le)
qed

text \<open>\<^verbatim>\<open>bcopy\<close> of \<open>data\<close> into a buffer at an offset.\<close>

definition overlay :: "'a list \<Rightarrow> nat \<Rightarrow> 'a list \<Rightarrow> 'a list" where
  "overlay buf off data = take off buf @ data @ drop (off + length data) buf"

lemma length_overlay [simp]: "off + length data \<le> length buf \<Longrightarrow> length (overlay buf off data) = length buf"
  by (simp add: overlay_def)

lemma nth_overlay:
  assumes "off + length data \<le> length buf" "i < length buf"
  shows "overlay buf off data ! i = (if off \<le> i \<and> i < off + length data then data ! (i - off) else buf ! i)"
  using assms by (auto simp: overlay_def nth_append)

section \<open>The UNIX file\<close>

definition file_read :: "byte list \<Rightarrow> nat \<Rightarrow> nat \<Rightarrow> (byte list) result" where
  "file_read f off n = ASSERT (off + n \<le> length f) (Inr (take n (drop off f)))"

definition file_write :: "byte list \<Rightarrow> nat \<Rightarrow> byte list \<Rightarrow> byte list" where
  "file_write f off data = overlay (f @ replicate (off + length data - length f) 0) off data"

section \<open>The disk\<close>

definition SectorsPerTrack :: nat where "SectorsPerTrack = 32"
definition NumTracks :: nat where "NumTracks = 32"
definition NumSectors :: nat where "NumSectors = SectorsPerTrack * NumTracks"
definition MagicNumber :: "32 word" where "MagicNumber = 0x456789ab"
definition MagicSize :: nat where "MagicSize = 4"
definition DiskSize :: nat where "DiskSize = MagicSize + NumSectors * SectorSize"

lemmas disk_sizes = SectorsPerTrack_def NumTracks_def NumSectors_def MagicSize_def DiskSize_def SectorSize_def

record Disk =
  disk_file :: "byte list"
  active :: bool
  lastSector :: int
  bufferInit :: int

definition Disk_Disk :: "byte list option \<Rightarrow> Disk result" where
  "Disk_Disk existing = (case existing of
       Some f \<Rightarrow> rbind (file_read f 0 MagicSize) (\<lambda>magicNum.
         ASSERT (bytes_word magicNum = MagicNumber)
           (Inr \<lparr>disk_file = f, active = False, lastSector = 0, bufferInit = 0\<rparr>))
     | None \<Rightarrow> Inr \<lparr>disk_file = file_write (file_write [] 0 (word_bytes MagicNumber)) (DiskSize - 4) (word_bytes 0),
         active = False, lastSector = 0, bufferInit = 0\<rparr>)"

text \<open>The seek time and the rotation left when the head arrives, at time \<open>t\<close>.\<close>

definition Disk_TimeToSeek :: "Disk \<Rightarrow> int \<Rightarrow> int \<Rightarrow> int \<times> int" where
  "Disk_TimeToSeek d t newSector =
     (let newTrack = newSector div int SectorsPerTrack;
          oldTrack = lastSector d div int SectorsPerTrack;
          seek = \<bar>newTrack - oldTrack\<bar> * SeekTime;
          over = (t + seek) mod RotationTime
      in (seek, if over > 0 then RotationTime - over else 0))"

definition Disk_ModuloDiff :: "int \<Rightarrow> int \<Rightarrow> int" where
  "Disk_ModuloDiff to frm =
     (let toOffset = to mod int SectorsPerTrack; fromOffset = frm mod int SectorsPerTrack
      in ((toOffset - fromOffset) + int SectorsPerTrack) mod int SectorsPerTrack)"

definition Disk_ComputeLatency :: "Disk \<Rightarrow> int \<Rightarrow> int \<Rightarrow> bool \<Rightarrow> int" where
  "Disk_ComputeLatency d t newSector writing =
     (case Disk_TimeToSeek d t newSector of (seek, rotation) \<Rightarrow>
        let timeAfter = t + seek + rotation in
        if writing = False \<and> seek = 0
            \<and> (timeAfter - bufferInit d) div RotationTime > Disk_ModuloDiff newSector (bufferInit d div RotationTime)
        then RotationTime
        else seek + (rotation + Disk_ModuloDiff newSector (timeAfter div RotationTime) * RotationTime) + RotationTime)"

definition Disk_UpdateLast :: "Disk \<Rightarrow> int \<Rightarrow> int \<Rightarrow> Disk" where
  "Disk_UpdateLast d t newSector = (case Disk_TimeToSeek d t newSector of (seek, rot) \<Rightarrow>
     (if seek \<noteq> 0 then d\<lparr>bufferInit := t + seek + rot\<rparr> else d)\<lparr>lastSector := newSector\<rparr>)"

text \<open>\<open>this\<close> is the address of the disk object, which the interrupt hands back.\<close>

definition Disk_ReadRequest ::
    "int \<Rightarrow> Disk \<Rightarrow> int \<Rightarrow> 'a sim_scheme \<Rightarrow> (byte list \<times> Disk \<times> 'a sim_scheme) result" where
  "Disk_ReadRequest this d sectorNumber s =
     (let ticks = Disk_ComputeLatency d (now s) sectorNumber False in
      ASSERT (\<not> active d) (ASSERT (sectorNumber \<ge> 0 \<and> sectorNumber < int NumSectors)
        (rbind (file_read (disk_file d) (SectorSize * nat sectorNumber + MagicSize) SectorSize) (\<lambda>data.
          let d' = Disk_UpdateLast (d\<lparr>active := True\<rparr>) (now s) sectorNumber;
              s' = s\<lparr>stats := (stats s)\<lparr>numDiskReads := numDiskReads (stats s) + 1\<rparr>\<rparr>
          in rbind (Interrupt_Schedule DiskDone this ticks DiskInt s') (\<lambda>s''. Inr (data, d', s''))))))"

definition Disk_WriteRequest ::
    "int \<Rightarrow> Disk \<Rightarrow> int \<Rightarrow> byte list \<Rightarrow> 'a sim_scheme \<Rightarrow> (Disk \<times> 'a sim_scheme) result" where
  "Disk_WriteRequest this d sectorNumber data s =
     (let ticks = Disk_ComputeLatency d (now s) sectorNumber True in
      ASSERT (\<not> active d) (ASSERT (sectorNumber \<ge> 0 \<and> sectorNumber < int NumSectors)
        (let d' = Disk_UpdateLast (d\<lparr>disk_file := file_write (disk_file d)
                    (SectorSize * nat sectorNumber + MagicSize) (take SectorSize data), active := True\<rparr>)
                    (now s) sectorNumber;
             s' = s\<lparr>stats := (stats s)\<lparr>numDiskWrites := numDiskWrites (stats s) + 1\<rparr>\<rparr>
         in rbind (Interrupt_Schedule DiskDone this ticks DiskInt s') (\<lambda>s''. Inr (d', s'')))))"

text \<open>\<open>upcall\<close> is the kernel's routine that the disk was created with.\<close>

definition Disk_HandleInterrupt :: "('b \<Rightarrow> 'b result) \<Rightarrow> Disk \<Rightarrow> 'b \<Rightarrow> (Disk \<times> 'b) result" where
  "Disk_HandleInterrupt upcall d s = rbind (upcall s) (\<lambda>s'. Inr (d\<lparr>active := False\<rparr>, s'))"

section \<open>Latency\<close>

lemma Disk_ModuloDiff_range: "0 \<le> Disk_ModuloDiff a b" "Disk_ModuloDiff a b < int SectorsPerTrack"
  by (simp_all add: Disk_ModuloDiff_def Let_def disk_sizes)

lemma Disk_ModuloDiff_rotates:
  "(b + Disk_ModuloDiff a b) mod int SectorsPerTrack = a mod int SectorsPerTrack"
  by (simp add: Disk_ModuloDiff_def Let_def mod_simps)

lemma Disk_TimeToSeek_range:
  "0 \<le> fst (Disk_TimeToSeek d t n)" "0 \<le> snd (Disk_TimeToSeek d t n)" "snd (Disk_TimeToSeek d t n) < RotationTime"
proof -
  have "0 \<le> x mod RotationTime" "x mod RotationTime < RotationTime" for x
    by (simp_all add: RotationTime_def)
  from this(2) [of "t + _"] this(1) [of "t + _"]
  show "0 \<le> fst (Disk_TimeToSeek d t n)" "0 \<le> snd (Disk_TimeToSeek d t n)"
    "snd (Disk_TimeToSeek d t n) < RotationTime"
    by (auto simp: Disk_TimeToSeek_def Let_def SeekTime_def RotationTime_def)
qed

text \<open>After the seek and the rounding the head is at a sector boundary.\<close>

lemma Disk_TimeToSeek_aligned:
  "(t + fst (Disk_TimeToSeek d t n) + snd (Disk_TimeToSeek d t n)) mod RotationTime = 0"
proof -
  have "(x + (if x mod RotationTime > 0 then RotationTime - x mod RotationTime else 0)) mod RotationTime = 0" for x
  proof -
    have "x + (RotationTime - x mod RotationTime) = RotationTime * (x div RotationTime + 1)"
      using mult_div_mod_eq [of RotationTime x] by (simp add: algebra_simps)
    moreover have "0 \<le> x mod RotationTime" by (simp add: RotationTime_def)
    ultimately show ?thesis by auto
  qed
  then show ?thesis by (simp add: Disk_TimeToSeek_def Let_def)
qed

lemma Disk_ComputeLatency_positive: "RotationTime \<le> Disk_ComputeLatency d t n w"
  using Disk_TimeToSeek_range [of d t n] Disk_ModuloDiff_range(1)
  by (auto simp: Disk_ComputeLatency_def Let_def RotationTime_def split: prod.split)

text \<open>
  Without the track buffer, the transfer starts when the head is at the beginning of the sector.
\<close>

lemma Disk_ComputeLatency_rotation:
  assumes "Disk_ComputeLatency d t n w \<noteq> RotationTime \<or> w"
  shows "(t + Disk_ComputeLatency d t n w - RotationTime) mod RotationTime = 0"
    "((t + Disk_ComputeLatency d t n w - RotationTime) div RotationTime) mod int SectorsPerTrack = n mod int SectorsPerTrack"
proof -
  define after where "after = t + fst (Disk_TimeToSeek d t n) + snd (Disk_TimeToSeek d t n)"
  have start: "t + Disk_ComputeLatency d t n w - RotationTime
      = after + Disk_ModuloDiff n (after div RotationTime) * RotationTime"
    using assms by (auto simp: Disk_ComputeLatency_def Let_def after_def split: prod.splits if_splits)
  have al: "after mod RotationTime = 0" using Disk_TimeToSeek_aligned by (simp add: after_def)
  then show "(t + Disk_ComputeLatency d t n w - RotationTime) mod RotationTime = 0"
    unfolding start by simp
  have "(after + Disk_ModuloDiff n (after div RotationTime) * RotationTime) div RotationTime
      = after div RotationTime + Disk_ModuloDiff n (after div RotationTime)"
    by (subst div_mult_self1) (simp_all add: RotationTime_def)
  then show "((t + Disk_ComputeLatency d t n w - RotationTime) div RotationTime) mod int SectorsPerTrack
      = n mod int SectorsPerTrack"
    unfolding start by (simp add: Disk_ModuloDiff_rotates)
qed

section \<open>Sectors\<close>

definition disk_ok :: "Disk \<Rightarrow> bool" where
  "disk_ok d \<longleftrightarrow> length (disk_file d) = DiskSize \<and> take MagicSize (disk_file d) = word_bytes MagicNumber"

definition sector :: "Disk \<Rightarrow> nat \<Rightarrow> byte list" where
  "sector d n = take SectorSize (drop (SectorSize * n + MagicSize) (disk_file d))"

definition set_sector :: "Disk \<Rightarrow> nat \<Rightarrow> byte list \<Rightarrow> Disk" where
  "set_sector d n data = d\<lparr>disk_file := overlay (disk_file d) (SectorSize * n + MagicSize) data\<rparr>"

lemma sector_inside: "n < NumSectors \<Longrightarrow> SectorSize * n + MagicSize + SectorSize \<le> DiskSize"
proof -
  assume "n < NumSectors"
  then have "SectorSize * Suc n \<le> SectorSize * NumSectors" by (intro mult_le_mono) auto
  then show ?thesis by (simp add: DiskSize_def mult.commute add.commute)
qed

lemma length_sector [simp]: "disk_ok d \<Longrightarrow> n < NumSectors \<Longrightarrow> length (sector d n) = SectorSize"
  using sector_inside [of n] by (simp add: sector_def disk_ok_def)

lemma take_drop_overlay_same:
  "off + length data \<le> length buf \<Longrightarrow> take (length data) (drop off (overlay buf off data)) = data"
  by (simp add: overlay_def)

lemma take_drop_overlay_other:
  assumes "off + length data \<le> length buf" "a + n \<le> off \<or> off + length data \<le> a"
  shows "take n (drop a (overlay buf off data)) = take n (drop a buf)"
  using assms by (auto simp: overlay_def min_def drop_take)

lemma sectors_apart:
  assumes "m \<noteq> (n :: nat)"
  shows "SectorSize * m + MagicSize + SectorSize \<le> SectorSize * n + MagicSize
    \<or> SectorSize * n + MagicSize + SectorSize \<le> SectorSize * m + MagicSize"
proof -
  have "SectorSize * Suc m \<le> SectorSize * n \<or> SectorSize * Suc n \<le> SectorSize * m"
    using assms mult_le_mono2 [of "Suc m" n SectorSize] mult_le_mono2 [of "Suc n" m SectorSize]
    by (cases "m < n") auto
  then show ?thesis by (simp add: add.commute)
qed

lemma set_sector_ok [simp]:
  "disk_ok d \<Longrightarrow> n < NumSectors \<Longrightarrow> length data = SectorSize \<Longrightarrow> disk_ok (set_sector d n data)"
  using sector_inside [of n] take_drop_overlay_other [of "SectorSize * n + MagicSize" data "disk_file d" 0 MagicSize]
  by (simp add: disk_ok_def set_sector_def)

lemma sector_set_sector:
  assumes "disk_ok d" "n < NumSectors" "length data = SectorSize"
  shows "sector (set_sector d n data) m = (if m = n then data else sector d m)"
proof (cases "m = n")
  case True
  then show ?thesis
    using assms sector_inside [OF assms(2)]
      take_drop_overlay_same [of "SectorSize * n + MagicSize" data "disk_file d"]
    by (simp add: sector_def set_sector_def disk_ok_def)
next
  case False
  then show ?thesis
    using assms sector_inside [OF assms(2)] sectors_apart [OF False]
      take_drop_overlay_other [of "SectorSize * n + MagicSize" data "disk_file d" "SectorSize * m + MagicSize" SectorSize]
    by (simp add: sector_def set_sector_def disk_ok_def)
qed

lemma Disk_Disk_fresh: "\<exists>d. Disk_Disk None = Inr d \<and> disk_ok d \<and> \<not> active d"
  by (simp add: Disk_Disk_def disk_ok_def file_write_def overlay_def disk_sizes min_def)

lemma Disk_ReadRequest_ok:
  assumes "disk_ok d" "\<not> active d" "n < NumSectors"
  shows "\<exists>d' s'. Disk_ReadRequest this d (int n) s = Inr (sector d n, d', s')
    \<and> disk_file d' = disk_file d \<and> active d'
    \<and> (let when = now s + Disk_ComputeLatency d (now s) (int n) False in
        pending s' = List_SortedInsert (PendingInterrupt_PendingInterrupt DiskDone this when DiskInt) when (pending s))"
proof -
  have "0 < Disk_ComputeLatency d (now s) (int n) False"
    using Disk_ComputeLatency_positive [of d "now s" "int n" False] by (simp add: RotationTime_def)
  then show ?thesis using assms sector_inside [OF assms(3)]
    by (simp add: Disk_ReadRequest_def Let_def file_read_def sector_def disk_ok_def Interrupt_Schedule_def
        Disk_UpdateLast_def split: prod.split)
qed

lemma Disk_WriteRequest_ok:
  assumes "disk_ok d" "\<not> active d" "n < NumSectors" "length data = SectorSize"
  shows "\<exists>d' s'. Disk_WriteRequest this d (int n) data s = Inr (d', s')
    \<and> disk_file d' = disk_file (set_sector d n data) \<and> active d'
    \<and> (let when = now s + Disk_ComputeLatency d (now s) (int n) True in
        pending s' = List_SortedInsert (PendingInterrupt_PendingInterrupt DiskDone this when DiskInt) when (pending s))"
proof -
  have "0 < Disk_ComputeLatency d (now s) (int n) True"
    using Disk_ComputeLatency_positive [of d "now s" "int n" True] by (simp add: RotationTime_def)
  moreover have "file_write (disk_file d) (SectorSize * n + MagicSize) data
      = disk_file (set_sector d n data)"
    using assms sector_inside [OF assms(3)] by (simp add: file_write_def set_sector_def disk_ok_def)
  ultimately show ?thesis using assms
    by (simp add: Disk_WriteRequest_def Let_def Interrupt_Schedule_def Disk_UpdateLast_def split: prod.split)
qed

end
