(* ===== verification/Nachos_File.thy ===== *)
theory Nachos_File
  imports Nachos_Disk "HOL-Library.Signed_Division"
begin

text \<open>
  \<^verbatim>\<open>filesys/filehdr.cc\<close> and \<^verbatim>\<open>filesys/openfile.cc\<close> over the sectors of \<^verbatim>\<open>filesys/synchdisk.cc\<close>: a
  file is a header, which fills one sector, and the data sectors it lists.

  \<open>SynchDisk_ReadSector\<close> and \<open>SynchDisk_WriteSector\<close> are what a caller sees once the request has
  completed; the file system assumes no concurrent access. The header is stored as the 32
  \<^verbatim>\<open>int\<close>s of the object in memory. Memory from \<^verbatim>\<open>new char[]\<close> has arbitrary contents, the
  argument \<open>junk\<close>. An access through a header outside its array of sector numbers is \<open>OutOfBounds\<close>.
\<close>

section \<open>The synchronous disk\<close>

definition SynchDisk_ReadSector :: "Disk \<Rightarrow> int \<Rightarrow> (byte list) result" where
  "SynchDisk_ReadSector d sectorNumber = ASSERT (sectorNumber \<ge> 0 \<and> sectorNumber < int NumSectors)
     (file_read (disk_file d) (SectorSize * nat sectorNumber + MagicSize) SectorSize)"

definition SynchDisk_WriteSector :: "Disk \<Rightarrow> int \<Rightarrow> byte list \<Rightarrow> Disk result" where
  "SynchDisk_WriteSector d sectorNumber data = ASSERT (sectorNumber \<ge> 0 \<and> sectorNumber < int NumSectors)
     (Inr (d\<lparr>disk_file := file_write (disk_file d) (SectorSize * nat sectorNumber + MagicSize) (take SectorSize data)\<rparr>))"

lemma SynchDisk_ReadSector_ok:
  "disk_ok d \<Longrightarrow> n < NumSectors \<Longrightarrow> SynchDisk_ReadSector d (int n) = Inr (sector d n)"
  using sector_inside [of n] by (simp add: SynchDisk_ReadSector_def file_read_def sector_def disk_ok_def)

lemma SynchDisk_WriteSector_ok:
  "disk_ok d \<Longrightarrow> n < NumSectors \<Longrightarrow> length data = SectorSize \<Longrightarrow>
   SynchDisk_WriteSector d (int n) data = Inr (set_sector d n data)"
  using sector_inside [of n] by (simp add: SynchDisk_WriteSector_def set_sector_def file_write_def disk_ok_def)

section \<open>Arrays of integers as bytes\<close>

definition int_bytes :: "int \<Rightarrow> byte list" where
  "int_bytes x = word_bytes (of_int x)"

fun bytes_ints :: "nat \<Rightarrow> byte list \<Rightarrow> int list" where
  "bytes_ints 0 bs = []"
| "bytes_ints (Suc n) bs = sint (bytes_word bs) # bytes_ints n (drop 4 bs)"

lemma length_int_bytes [simp]: "length (int_bytes x) = 4"
  by (simp add: int_bytes_def)

lemma length_bytes_ints [simp]: "length (bytes_ints n bs) = n"
  by (induction n arbitrary: bs) auto

lemma length_concat_int_bytes [simp]: "length (concat (map int_bytes xs)) = 4 * length xs"
  by (induction xs) auto

lemma sint_of_int_in_int: "in_int x \<Longrightarrow> sint (of_int x :: 32 word) = x"
  by (simp add: in_int_def sint_sbintrunc' signed_take_bit_int_eq_self)

lemma bytes_ints_concat:
  "list_all in_int xs \<Longrightarrow> bytes_ints (length xs) (concat (map int_bytes xs) @ bs) = xs"
proof (induction xs)
  case (Cons x xs)
  then show ?case by (simp add: int_bytes_def sint_of_int_in_int)
qed simp

section \<open>File headers\<close>

definition NumDirect :: nat where "NumDirect = (SectorSize - 2 * 4) div 4"

record FileHeader =
  numBytes :: int
  numSectors :: int
  dataSectors :: "int list"

definition divRoundUp_int :: "int \<Rightarrow> int \<Rightarrow> int" where
  "divRoundUp_int n s = (n sdiv s) + (if n smod s > 0 then 1 else 0)"

text \<open>The loop that fills \<open>dataSectors\<close> writes past the array when the file needs more than \<open>NumDirect\<close> sectors.\<close>

definition FileHeader_Allocate ::
    "FileHeader \<Rightarrow> BitMap \<Rightarrow> int \<Rightarrow> (bool \<times> FileHeader \<times> BitMap) result" where
  "FileHeader_Allocate h freeMap fileSize =
     (let h1 = h\<lparr>numBytes := fileSize, numSectors := divRoundUp_int fileSize (int SectorSize)\<rparr> in
      rbind (BitMap_NumClear freeMap) (\<lambda>clear.
        if clear < numSectors h1 then Inr (False, h1, freeMap)
        else if nat (numSectors h1) > length (dataSectors h1) then Inl OutOfBounds
        else rbind (find_n BitMap_Find (nat (numSectors h1)) freeMap) (\<lambda>(found, freeMap').
          Inr (True, h1\<lparr>dataSectors := overlay (dataSectors h1) 0 found\<rparr>, freeMap'))))"

fun dealloc_loop :: "int list \<Rightarrow> BitMap \<Rightarrow> BitMap result" where
  "dealloc_loop [] freeMap = Inr freeMap"
| "dealloc_loop (x # xs) freeMap = rbind (BitMap_Test freeMap x) (\<lambda>t. ASSERT t
     (rbind (BitMap_Clear freeMap x) (dealloc_loop xs)))"

definition FileHeader_Deallocate :: "FileHeader \<Rightarrow> BitMap \<Rightarrow> BitMap result" where
  "FileHeader_Deallocate h freeMap =
     (if nat (numSectors h) > length (dataSectors h) then Inl OutOfBounds
      else dealloc_loop (take (nat (numSectors h)) (dataSectors h)) freeMap)"

definition header_bytes :: "FileHeader \<Rightarrow> byte list" where
  "header_bytes h = concat (map int_bytes (numBytes h # numSectors h # dataSectors h))"

definition FileHeader_FetchFrom :: "Disk \<Rightarrow> int \<Rightarrow> FileHeader result" where
  "FileHeader_FetchFrom d sectorNumber = rbind (SynchDisk_ReadSector d sectorNumber) (\<lambda>bs.
     case bytes_ints (NumDirect + 2) bs of
       nb # ns # ds \<Rightarrow> Inr \<lparr>numBytes = nb, numSectors = ns, dataSectors = ds\<rparr>
     | _ \<Rightarrow> Inl OutOfBounds)"

definition FileHeader_WriteBack :: "FileHeader \<Rightarrow> Disk \<Rightarrow> int \<Rightarrow> Disk result" where
  "FileHeader_WriteBack h d sectorNumber = SynchDisk_WriteSector d sectorNumber (header_bytes h)"

definition FileHeader_ByteToSector :: "FileHeader \<Rightarrow> nat \<Rightarrow> int result" where
  "FileHeader_ByteToSector h offset =
     (if offset div SectorSize < length (dataSectors h) then Inr (dataSectors h ! (offset div SectorSize))
      else Inl OutOfBounds)"

definition FileHeader_FileLength :: "FileHeader \<Rightarrow> int" where
  "FileHeader_FileLength h = numBytes h"

section \<open>Open files\<close>

record OpenFile =
  of_hdr :: FileHeader
  seekPosition :: int

definition OpenFile_OpenFile :: "Disk \<Rightarrow> int \<Rightarrow> OpenFile result" where
  "OpenFile_OpenFile d sectorNumber = rbind (FileHeader_FetchFrom d sectorNumber) (\<lambda>h.
     Inr \<lparr>of_hdr = h, seekPosition = 0\<rparr>)"

definition OpenFile_Seek :: "OpenFile \<Rightarrow> int \<Rightarrow> OpenFile" where
  "OpenFile_Seek f position = f\<lparr>seekPosition := position\<rparr>"

definition OpenFile_Length :: "OpenFile \<Rightarrow> int" where
  "OpenFile_Length f = FileHeader_FileLength (of_hdr f)"

fun read_sectors :: "Disk \<Rightarrow> FileHeader \<Rightarrow> nat list \<Rightarrow> (byte list) result" where
  "read_sectors d h [] = Inr []"
| "read_sectors d h (i # is) = rbind (FileHeader_ByteToSector h (i * SectorSize)) (\<lambda>sec.
     rbind (SynchDisk_ReadSector d sec) (\<lambda>data.
     rbind (read_sectors d h is) (\<lambda>rest. Inr (data @ rest))))"

fun write_sectors :: "Disk \<Rightarrow> FileHeader \<Rightarrow> nat list \<Rightarrow> byte list \<Rightarrow> Disk result" where
  "write_sectors d h [] buf = Inr d"
| "write_sectors d h (i # is) buf = rbind (FileHeader_ByteToSector h (i * SectorSize)) (\<lambda>sec.
     rbind (SynchDisk_WriteSector d sec (take SectorSize buf)) (\<lambda>d'.
     write_sectors d' h is (drop SectorSize buf)))"

text \<open>The bytes that \<open>ReadAt\<close> puts into the caller's buffer; it returns their number.\<close>

definition OpenFile_ReadAt :: "Disk \<Rightarrow> OpenFile \<Rightarrow> int \<Rightarrow> int \<Rightarrow> (byte list) result" where
  "OpenFile_ReadAt d f nbytes position =
     (let fileLength = FileHeader_FileLength (of_hdr f) in
      if nbytes \<le> 0 \<or> position \<ge> fileLength then Inr []
      else if \<not> in_int (position + nbytes) then Inl SignedOverflow
      else if position < 0 then Inl OutOfBounds
      else
        let n = nat (if position + nbytes > fileLength then fileLength - position else nbytes);
            pos = nat position;
            firstSector = divRoundDown pos SectorSize;
            lastSector = divRoundDown (pos + n - 1) SectorSize
        in rbind (read_sectors d (of_hdr f) [firstSector..<Suc lastSector]) (\<lambda>buf.
             Inr (take n (drop (pos - firstSector * SectorSize) buf))))"

text \<open>The first half of \<open>WriteAt\<close>: a buffer with the old contents of the sectors that are only partly written.\<close>

definition prepare_buffer :: "(nat \<Rightarrow> byte) \<Rightarrow> Disk \<Rightarrow> OpenFile \<Rightarrow> nat \<Rightarrow> nat \<Rightarrow> (byte list) result" where
  "prepare_buffer junk d f pos n =
     (let firstSector = divRoundDown pos SectorSize;
          lastSector = divRoundDown (pos + n - 1) SectorSize;
          buf = map junk [0..<(1 + lastSector - firstSector) * SectorSize];
          firstAligned = (pos = firstSector * SectorSize);
          lastAligned = (pos + n = (lastSector + 1) * SectorSize)
      in rbind (if \<not> firstAligned
                then rbind (OpenFile_ReadAt d f (int SectorSize) (int (firstSector * SectorSize))) (\<lambda>bs.
                       Inr (overlay buf 0 bs))
                else Inr buf) (\<lambda>buf1.
         if \<not> lastAligned \<and> (firstSector \<noteq> lastSector \<or> firstAligned)
         then rbind (OpenFile_ReadAt d f (int SectorSize) (int (lastSector * SectorSize))) (\<lambda>bs.
                Inr (overlay buf1 ((lastSector - firstSector) * SectorSize) bs))
         else Inr buf1))"

definition OpenFile_WriteAt ::
    "(nat \<Rightarrow> byte) \<Rightarrow> Disk \<Rightarrow> OpenFile \<Rightarrow> byte list \<Rightarrow> int \<Rightarrow> int \<Rightarrow> (int \<times> Disk) result" where
  "OpenFile_WriteAt junk d f frm nbytes position =
     (let fileLength = FileHeader_FileLength (of_hdr f) in
      if nbytes \<le> 0 \<or> position \<ge> fileLength then Inr (0, d)
      else if \<not> in_int (position + nbytes) then Inl SignedOverflow
      else if position < 0 then Inl OutOfBounds
      else
        let n = nat (if position + nbytes > fileLength then fileLength - position else nbytes);
            pos = nat position;
            firstSector = divRoundDown pos SectorSize;
            lastSector = divRoundDown (pos + n - 1) SectorSize
        in if length frm < n then Inl OutOfBounds
           else rbind (prepare_buffer junk d f pos n) (\<lambda>buf.
             rbind (write_sectors d (of_hdr f) [firstSector..<Suc lastSector]
                     (overlay buf (pos - firstSector * SectorSize) (take n frm))) (\<lambda>d'.
               Inr (int n, d'))))"

definition OpenFile_Read :: "Disk \<Rightarrow> OpenFile \<Rightarrow> int \<Rightarrow> (byte list \<times> OpenFile) result" where
  "OpenFile_Read d f nbytes = rbind (OpenFile_ReadAt d f nbytes (seekPosition f)) (\<lambda>bs.
     Inr (bs, f\<lparr>seekPosition := seekPosition f + int (length bs)\<rparr>))"

definition OpenFile_Write ::
    "(nat \<Rightarrow> byte) \<Rightarrow> Disk \<Rightarrow> OpenFile \<Rightarrow> byte list \<Rightarrow> int \<Rightarrow> (int \<times> Disk \<times> OpenFile) result" where
  "OpenFile_Write junk d f frm nbytes = rbind (OpenFile_WriteAt junk d f frm nbytes (seekPosition f)) (\<lambda>(k, d').
     Inr (k, d', f\<lparr>seekPosition := seekPosition f + k\<rparr>))"

section \<open>The contents of a file\<close>

definition file_sectors :: "FileHeader \<Rightarrow> nat list" where
  "file_sectors h = map nat (take (nat (numSectors h)) (dataSectors h))"

definition hdr_ok :: "FileHeader \<Rightarrow> bool" where
  "hdr_ok h \<longleftrightarrow> 0 \<le> numBytes h \<and> numSectors h = int (divRoundUp (nat (numBytes h)) SectorSize)
     \<and> length (dataSectors h) = NumDirect \<and> nat (numSectors h) \<le> NumDirect
     \<and> (\<forall>x \<in> set (take (nat (numSectors h)) (dataSectors h)). 0 \<le> x \<and> x < int NumSectors)
     \<and> distinct (file_sectors h)"

definition file_image :: "Disk \<Rightarrow> FileHeader \<Rightarrow> byte list" where
  "file_image d h = concat (map (sector d) (file_sectors h))"

definition file_bytes :: "Disk \<Rightarrow> FileHeader \<Rightarrow> byte list" where
  "file_bytes d h = take (nat (numBytes h)) (file_image d h)"

lemma SectorSize_pos [simp]: "0 < SectorSize" by (simp add: SectorSize_def)

lemma file_sectors_props:
  assumes "hdr_ok h"
  shows "length (file_sectors h) = nat (numSectors h)" "\<And>n. n \<in> set (file_sectors h) \<Longrightarrow> n < NumSectors"
    "\<And>i. i < nat (numSectors h) \<Longrightarrow> FileHeader_ByteToSector h (i * SectorSize) = Inr (int (file_sectors h ! i))"
    "nat (numBytes h) \<le> nat (numSectors h) * SectorSize" "distinct (file_sectors h)"
proof -
  note a = assms [unfolded hdr_ok_def]
  show l: "length (file_sectors h) = nat (numSectors h)" using a by (auto simp: file_sectors_def min_def)
  show "n < NumSectors" if "n \<in> set (file_sectors h)" for n
    using that a by (auto simp: file_sectors_def nat_less_iff)
  show "FileHeader_ByteToSector h (i * SectorSize) = Inr (int (file_sectors h ! i))"
    if "i < nat (numSectors h)" for i
  proof -
    have "take (nat (numSectors h)) (dataSectors h) ! i \<in> set (take (nat (numSectors h)) (dataSectors h))"
      using that l by (intro nth_mem) (simp add: file_sectors_def)
    then have "0 \<le> dataSectors h ! i" using that a by simp
    moreover have "i < length (dataSectors h)" using that a by linarith
    ultimately show ?thesis using that by (simp add: FileHeader_ByteToSector_def file_sectors_def)
  qed
  show "nat (numBytes h) \<le> nat (numSectors h) * SectorSize"
    using a divRoundUp_ge [of SectorSize "nat (numBytes h)"] by simp
  show "distinct (file_sectors h)" using a by simp
qed

text \<open>Indexing a concatenation of blocks of equal size.\<close>

lemma nth_concat_fixed:
  assumes "\<forall>x \<in> set xs. length (g x) = k" "0 < k" "j < length xs * k"
  shows "concat (map g xs) ! j = g (xs ! (j div k)) ! (j mod k)"
  using assms
proof (induction xs arbitrary: j)
  case (Cons x xs)
  show ?case
  proof (cases "j < k")
    case True
    with Cons.prems show ?thesis by (simp add: nth_append)
  next
    case False
    then have j: "j div k = Suc ((j - k) div k)" "j mod k = (j - k) mod k" "j - k < length xs * k"
      using Cons.prems by (simp_all add: le_div_geq le_mod_geq not_less)
    with Cons False show ?thesis by (simp add: nth_append)
  qed
qed simp

lemma length_concat_fixed:
  "\<forall>x \<in> set xs. length (g x) = k \<Longrightarrow> length (concat (map g xs)) = length xs * k"
  by (induction xs) auto

lemma length_file_image: "disk_ok d \<Longrightarrow> hdr_ok h \<Longrightarrow> length (file_image d h) = nat (numSectors h) * SectorSize"
  using file_sectors_props [of h] by (simp add: file_image_def length_concat_fixed [of _ _ SectorSize])

lemma length_file_bytes: "disk_ok d \<Longrightarrow> hdr_ok h \<Longrightarrow> length (file_bytes d h) = nat (numBytes h)"
  using file_sectors_props(4) [of h] by (simp add: file_bytes_def length_file_image)

lemma nth_file_image:
  assumes "disk_ok d" "hdr_ok h" "j < nat (numSectors h) * SectorSize"
  shows "file_image d h ! j = sector d (file_sectors h ! (j div SectorSize)) ! (j mod SectorSize)"
  unfolding file_image_def using assms file_sectors_props [OF assms(2)]
  by (intro nth_concat_fixed) auto

section \<open>Reading\<close>

lemma read_sectors_ok:
  assumes "disk_ok d" "hdr_ok h" "set is \<subseteq> {..<nat (numSectors h)}"
  shows "read_sectors d h is = Inr (concat (map (\<lambda>i. sector d (file_sectors h ! i)) is))"
  using assms(3)
proof (induction "is")
  case (Cons i "is")
  then have "file_sectors h ! i < NumSectors" using file_sectors_props [OF assms(2)] by simp
  with Cons assms(1) show ?case
    by (simp add: file_sectors_props(3) [OF assms(2)] SynchDisk_ReadSector_ok)
qed simp

lemma block_range:
  assumes "disk_ok d" "hdr_ok h" "b \<le> nat (numSectors h)"
  shows "concat (map (\<lambda>i. sector d (file_sectors h ! i)) [a..<b])
    = take ((b - a) * SectorSize) (drop (a * SectorSize) (file_image d h))" (is "?l = ?r")
proof (rule nth_equalityI)
  have lens: "\<forall>i \<in> set [a..<b]. length (sector d (file_sectors h ! i)) = SectorSize"
    using assms file_sectors_props [OF assms(2)] by auto
  then have l: "length ?l = (b - a) * SectorSize" by (simp add: length_concat_fixed [of _ _ SectorSize])
  moreover have "(b - a) * SectorSize \<le> nat (numSectors h) * SectorSize - a * SectorSize"
    using assms(3) by (metis diff_le_mono diff_mult_distrib mult_le_mono1)
  ultimately show "length ?l = length ?r" using length_file_image [OF assms(1,2)] by simp
  fix j assume "j < length ?l"
  then have j: "j < (b - a) * SectorSize" using l by simp
  then have jd: "j div SectorSize < b - a" by (simp add: less_mult_imp_div_less)
  then have "a * SectorSize + j < b * SectorSize" using j by (simp add: diff_mult_distrib)
  then have jb: "a * SectorSize + j < nat (numSectors h) * SectorSize"
    using assms(3) by (meson less_le_trans mult_le_mono1)
  have "?l ! j = sector d (file_sectors h ! ([a..<b] ! (j div SectorSize))) ! (j mod SectorSize)"
    using lens j by (intro nth_concat_fixed) auto
  also have "\<dots> = sector d (file_sectors h ! (a + j div SectorSize)) ! (j mod SectorSize)"
    using jd by simp
  also have "\<dots> = file_image d h ! (a * SectorSize + j)"
    using jb by (simp add: nth_file_image assms)
  also have "\<dots> = drop (a * SectorSize) (file_image d h) ! j"
    by (intro nth_drop [symmetric]) (use jd assms(3) in \<open>simp add: length_file_image assms(1,2)\<close>)
  finally show "?l ! j = ?r ! j" using j by simp
qed

lemma sector_span:
  assumes "0 < n" "pos + n \<le> nat (numBytes h)" "hdr_ok h"
  shows "pos div SectorSize \<le> (pos + n - 1) div SectorSize" "(pos + n - 1) div SectorSize < nat (numSectors h)"
    "pos + n \<le> Suc ((pos + n - 1) div SectorSize) * SectorSize" "pos div SectorSize * SectorSize \<le> pos"
proof -
  show "pos div SectorSize \<le> (pos + n - 1) div SectorSize" using assms(1) by (intro div_le_mono) simp
  have "pos + n - 1 < nat (numSectors h) * SectorSize"
    using assms file_sectors_props(4) [OF assms(3)] by simp
  then show "(pos + n - 1) div SectorSize < nat (numSectors h)" by (simp add: less_mult_imp_div_less)
  have "pos + n - 1 < Suc ((pos + n - 1) div SectorSize) * SectorSize"
    using dividend_less_div_times [of SectorSize "pos + n - 1"] by simp
  then show "pos + n \<le> Suc ((pos + n - 1) div SectorSize) * SectorSize" using assms(1) by simp
  show "pos div SectorSize * SectorSize \<le> pos" by simp
qed

lemma OpenFile_ReadAt_ok:
  assumes "disk_ok d" "hdr_ok (of_hdr f)" "0 \<le> position" "in_int (position + nbytes)"
  shows "OpenFile_ReadAt d f nbytes position = Inr (take (nat nbytes) (drop (nat position) (file_bytes d (of_hdr f))))"
proof (cases "nbytes \<le> 0 \<or> position \<ge> numBytes (of_hdr f)")
  case True
  then show ?thesis
    using length_file_bytes [OF assms(1,2)] by (auto simp: OpenFile_ReadAt_def FileHeader_FileLength_def)
next
  case False
  let ?h = "of_hdr f"
  define n where "n = nat (if position + nbytes > numBytes ?h then numBytes ?h - position else nbytes)"
  define pos where "pos = nat position"
  have n: "0 < n" "pos + n \<le> nat (numBytes ?h)" "n = min (nat nbytes) (nat (numBytes ?h) - pos)"
    using False assms(3) by (auto simp: n_def pos_def)
  note sp = sector_span [OF n(1,2) assms(2)]
  let ?a = "pos div SectorSize" and ?b = "Suc ((pos + n - 1) div SectorSize)"
  have "read_sectors d ?h [?a..<?b] = Inr (take ((?b - ?a) * SectorSize) (drop (?a * SectorSize) (file_image d ?h)))"
    using sp(2) by (simp add: read_sectors_ok [OF assms(1,2)] block_range [OF assms(1,2)] del: upt_Suc)
      (subst read_sectors_ok [OF assms(1,2)], auto simp: block_range [OF assms(1,2)] simp del: upt_Suc)
  moreover have "take n (drop (pos - ?a * SectorSize) (take ((?b - ?a) * SectorSize) (drop (?a * SectorSize) (file_image d ?h))))
      = take n (drop pos (file_image d ?h))"
  proof -
    have "n \<le> (?b - ?a) * SectorSize - (pos - ?a * SectorSize)"
      using sp by (simp add: diff_mult_distrib)
    then show ?thesis using sp(4) by (simp add: drop_take min_def)
  qed
  moreover have "take n (drop pos (file_image d ?h)) = take (nat nbytes) (drop pos (file_bytes d ?h))"
    using n by (simp add: file_bytes_def drop_take)
  ultimately show ?thesis
    using False assms(3,4)
    unfolding OpenFile_ReadAt_def FileHeader_FileLength_def Let_def divRoundDown_def n_def [symmetric] pos_def [symmetric]
    by simp
qed

section \<open>Writing\<close>

lemma write_sectors_ok:
  assumes "disk_ok d" "hdr_ok h" "b \<le> nat (numSectors h)" "length buf = (b - a) * SectorSize"
  shows "\<exists>d'. write_sectors d h [a..<b] buf = Inr d' \<and> disk_ok d'
    \<and> (\<forall>i < nat (numSectors h). sector d' (file_sectors h ! i) =
         (if a \<le> i \<and> i < b then take SectorSize (drop ((i - a) * SectorSize) buf) else sector d (file_sectors h ! i)))
    \<and> (\<forall>n. n \<notin> set (file_sectors h) \<longrightarrow> sector d' n = sector d n)"
  using assms
proof (induction "b - a" arbitrary: a d buf)
  case 0
  then show ?case by simp
next
  case (Suc k)
  then have ab: "a < b" "a < nat (numSectors h)" by simp_all
  let ?data = "take SectorSize buf" and ?n = "file_sectors h ! a"
  note fs = file_sectors_props [OF \<open>hdr_ok h\<close>]
  have "b - a = Suc (b - Suc a)" using ab by simp
  then have len: "length ?data = SectorSize" "length (drop SectorSize buf) = (b - Suc a) * SectorSize"
    using Suc.prems(4) by simp_all
  have n: "?n < NumSectors" "?n \<in> set (file_sectors h)" using fs ab by simp_all
  let ?d = "set_sector d ?n ?data"
  have d: "disk_ok ?d" "\<And>m. sector ?d m = (if m = ?n then ?data else sector d m)"
    using Suc.prems(1) n len by (simp_all add: sector_set_sector)
  have w: "write_sectors d h [a..<b] buf = write_sectors ?d h [Suc a..<b] (drop SectorSize buf)"
    using ab n len Suc.prems(1) by (simp add: upt_conv_Cons fs(3) SynchDisk_WriteSector_ok)
  obtain d' where d': "write_sectors ?d h [Suc a..<b] (drop SectorSize buf) = Inr d'" "disk_ok d'"
      "\<forall>i < nat (numSectors h). sector d' (file_sectors h ! i) =
         (if Suc a \<le> i \<and> i < b then take SectorSize (drop ((i - Suc a) * SectorSize) (drop SectorSize buf))
          else sector ?d (file_sectors h ! i))"
      "\<forall>m. m \<notin> set (file_sectors h) \<longrightarrow> sector d' m = sector ?d m"
    using Suc.hyps(1) [OF _ d(1) \<open>hdr_ok h\<close> Suc.prems(3) len(2)] Suc.hyps(2) by fastforce
  have "sector d' (file_sectors h ! i) =
      (if a \<le> i \<and> i < b then take SectorSize (drop ((i - a) * SectorSize) buf) else sector d (file_sectors h ! i))"
    if i: "i < nat (numSectors h)" for i
  proof (cases "i = a")
    case True
    with i d'(3) d(2) ab show ?thesis by simp
  next
    case False
    then have "file_sectors h ! i \<noteq> ?n" using i ab fs(1,5) by (simp add: nth_eq_iff_index_eq)
    moreover have "a < i \<Longrightarrow> i - a = Suc (i - Suc a)" by simp
    ultimately show ?thesis using i d'(3) d(2) False
      by (cases "a < i") (simp_all add: add.commute)
  qed
  with d' d n w show ?case by auto
qed

lemma file_image_write:
  assumes "disk_ok d" "hdr_ok h" "b \<le> nat (numSectors h)" "length buf = (b - a) * SectorSize" "a \<le> b"
    and "disk_ok d'" "\<forall>i < nat (numSectors h). sector d' (file_sectors h ! i) =
       (if a \<le> i \<and> i < b then take SectorSize (drop ((i - a) * SectorSize) buf) else sector d (file_sectors h ! i))"
  shows "file_image d' h = overlay (file_image d h) (a * SectorSize) buf"
proof (rule nth_equalityI)
  have ab: "a * SectorSize + length buf \<le> nat (numSectors h) * SectorSize" "a * SectorSize + length buf = b * SectorSize"
  proof -
    show e: "a * SectorSize + length buf = b * SectorSize"
      using assms(4,5) by (simp add: diff_mult_distrib)
    show "a * SectorSize + length buf \<le> nat (numSectors h) * SectorSize" using assms(3) e by simp
  qed
  show "length (file_image d' h) = length (overlay (file_image d h) (a * SectorSize) buf)"
    using ab assms by (simp add: length_file_image)
  fix j assume "j < length (file_image d' h)"
  then have j: "j < nat (numSectors h) * SectorSize" using assms by (simp add: length_file_image)
  let ?i = "j div SectorSize"
  have i: "?i < nat (numSectors h)" using j by (simp add: less_mult_imp_div_less)
  have jm: "j mod SectorSize < SectorSize" by simp
  have o: "overlay (file_image d h) (a * SectorSize) buf ! j =
      (if a * SectorSize \<le> j \<and> j < b * SectorSize then buf ! (j - a * SectorSize) else file_image d h ! j)"
    using nth_overlay [of "a * SectorSize" buf "file_image d h" j] ab j assms by (simp add: length_file_image)
  have range: "a \<le> ?i \<longleftrightarrow> a * SectorSize \<le> j" "?i < b \<longleftrightarrow> j < b * SectorSize"
    by (simp_all add: less_eq_div_iff_mult_less_eq div_less_iff_less_mult)
  have "file_image d' h ! j = sector d' (file_sectors h ! ?i) ! (j mod SectorSize)"
    using j assms by (simp add: nth_file_image)
  also have "\<dots> = overlay (file_image d h) (a * SectorSize) buf ! j"
  proof (cases "a \<le> ?i \<and> ?i < b")
    case True
    have "(?i - a) * SectorSize + j mod SectorSize = j - a * SectorSize"
      using True range div_mult_mod_eq [of j SectorSize] by (simp add: diff_mult_distrib)
    moreover have "(?i - a) * SectorSize \<le> length buf" using True assms(4) by (simp add: diff_le_mono)
    ultimately show ?thesis using True range i jm assms(7) o by (simp add: nth_drop)
  next
    case False
    then show ?thesis using range i assms o j by (auto simp: nth_file_image)
  qed
  finally show "file_image d' h ! j = overlay (file_image d h) (a * SectorSize) buf ! j" .
qed

lemma read_into_buffer:
  assumes "disk_ok d" "hdr_ok (of_hdr f)" "i < nat (numSectors (of_hdr f))" "in_int (int (i * SectorSize) + int SectorSize)"
  obtains bs where "OpenFile_ReadAt d f (int SectorSize) (int (i * SectorSize)) = Inr bs"
    "length bs \<le> SectorSize"
    "\<forall>j. j < SectorSize \<and> i * SectorSize + j < nat (numBytes (of_hdr f)) \<longrightarrow>
       j < length bs \<and> bs ! j = file_image d (of_hdr f) ! (i * SectorSize + j)"
proof -
  let ?bs = "take SectorSize (drop (i * SectorSize) (file_bytes d (of_hdr f)))"
  have "OpenFile_ReadAt d f (int SectorSize) (int (i * SectorSize)) = Inr ?bs"
    using OpenFile_ReadAt_ok [OF assms(1,2) _ assms(4)] by (simp add: nat_mult_distrib)
  moreover have "length ?bs \<le> SectorSize" by simp
  moreover have "j < length ?bs \<and> ?bs ! j = file_image d (of_hdr f) ! (i * SectorSize + j)"
    if "j < SectorSize" "i * SectorSize + j < nat (numBytes (of_hdr f))" for j
    using that length_file_bytes [OF assms(1,2)] by (simp add: file_bytes_def)
  ultimately show ?thesis using that by blast
qed

text \<open>
  The buffer that \<open>WriteAt\<close> writes back: the new bytes where they belong, and the file's old bytes in
  the rest of the first and the last sector, as far as the file reaches.
\<close>

definition write_buffer :: "byte list \<Rightarrow> byte list \<Rightarrow> nat \<Rightarrow> nat \<Rightarrow> nat \<Rightarrow> byte list \<Rightarrow> bool" where
  "write_buffer buf old a b pos data \<longleftrightarrow> length buf = (b - a) * SectorSize
     \<and> (\<forall>j. a * SectorSize \<le> j \<and> j < b * SectorSize \<and> j < length old \<longrightarrow>
          buf ! (j - a * SectorSize) = overlay old pos data ! j)"

lemma write_buffer_image:
  assumes "write_buffer buf (take n img) a b pos data" "pos + length data \<le> n" "n \<le> length img" "a \<le> b"
    "b * SectorSize \<le> length img" "a * SectorSize \<le> pos" "pos + length data \<le> b * SectorSize"
  shows "take n (overlay img (a * SectorSize) buf) = overlay (take n img) pos data"
proof (rule nth_equalityI)
  have len: "a * SectorSize + length buf = b * SectorSize"
    using assms(1,4) by (simp add: write_buffer_def diff_mult_distrib)
  then show l: "length (take n (overlay img (a * SectorSize) buf)) = length (overlay (take n img) pos data)"
    using assms by simp
  fix j assume "j < length (take n (overlay img (a * SectorSize) buf))"
  then have j: "j < n" "j < length img" using assms by simp_all
  have "overlay img (a * SectorSize) buf ! j =
      (if a * SectorSize \<le> j \<and> j < b * SectorSize then buf ! (j - a * SectorSize) else img ! j)"
    using nth_overlay [of "a * SectorSize" buf img j] len assms(5) j by simp
  also have "\<dots> = overlay (take n img) pos data ! j"
    using assms j nth_overlay [of pos data "take n img" j] by (auto simp: write_buffer_def)
  finally show "take n (overlay img (a * SectorSize) buf) ! j = overlay (take n img) pos data ! j"
    using j by simp
qed

lemma nth_overlay_inside: "off \<le> length buf \<Longrightarrow> k < length data \<Longrightarrow> overlay buf off data ! (off + k) = data ! k"
  by (simp add: overlay_def nth_append)

lemma nth_overlay_before: "off \<le> length buf \<Longrightarrow> j < off \<Longrightarrow> overlay buf off data ! j = buf ! j"
  by (simp add: overlay_def nth_append)

lemma prepare_buffer_ok:
  assumes "disk_ok d" "hdr_ok (of_hdr f)" "0 < n" "pos + n \<le> nat (numBytes (of_hdr f))"
  defines "a \<equiv> pos div SectorSize" and "b \<equiv> Suc ((pos + n - 1) div SectorSize)"
  shows "\<exists>buf. prepare_buffer junk d f pos n = Inr buf \<and> length buf = (b - a) * SectorSize
    \<and> (\<forall>j. a * SectorSize \<le> j \<and> j < b * SectorSize \<and> j < nat (numBytes (of_hdr f))
         \<and> \<not> (pos \<le> j \<and> j < pos + n) \<longrightarrow> buf ! (j - a * SectorSize) = file_image d (of_hdr f) ! j)"
proof -
  let ?h = "of_hdr f"
  note sp = sector_span [OF assms(3,4,2)]
  define l where "l = (pos + n - 1) div SectorSize"
  have al: "a \<le> l" "l < nat (numSectors ?h)" "b = Suc l" "a < nat (numSectors ?h)"
    using sp by (simp_all add: a_def b_def l_def)
  have int_ok: "in_int (int (i * SectorSize) + int SectorSize)" if "i < nat (numSectors ?h)" for i
  proof -
    have "i < NumDirect" using that assms(2) by (auto simp: hdr_ok_def)
    then show ?thesis by (simp add: in_int_def NumDirect_def SectorSize_def)
  qed
  let ?buf = "map junk [0..<(1 + l - a) * SectorSize]"
  have len: "length ?buf = (b - a) * SectorSize" by (simp add: al(3))
  obtain bs where bs: "OpenFile_ReadAt d f (int SectorSize) (int (a * SectorSize)) = Inr bs" "length bs \<le> SectorSize"
      "\<forall>j. j < SectorSize \<and> a * SectorSize + j < nat (numBytes ?h) \<longrightarrow>
        j < length bs \<and> bs ! j = file_image d ?h ! (a * SectorSize + j)"
    by (rule read_into_buffer [OF assms(1,2) al(4) int_ok [OF al(4)]])
  obtain cs where cs: "OpenFile_ReadAt d f (int SectorSize) (int (l * SectorSize)) = Inr cs" "length cs \<le> SectorSize"
      "\<forall>j. j < SectorSize \<and> l * SectorSize + j < nat (numBytes ?h) \<longrightarrow>
        j < length cs \<and> cs ! j = file_image d ?h ! (l * SectorSize + j)"
    by (rule read_into_buffer [OF assms(1,2) al(2) int_ok [OF al(2)]])
  let ?fa = "pos = a * SectorSize" and ?la = "pos + n = (l + 1) * SectorSize"
  define buf1 where "buf1 = (if ?fa then ?buf else overlay ?buf 0 bs)"
  define buf2 where "buf2 = (if \<not> ?la \<and> (a \<noteq> l \<or> ?fa) then overlay buf1 ((l - a) * SectorSize) cs else buf1)"
  have big: "SectorSize \<le> (b - a) * SectorSize" "(l - a) * SectorSize + SectorSize = (b - a) * SectorSize"
    using al(1,3) by (simp_all add: Suc_diff_le add.commute)
  have "length (overlay ?buf 0 bs) = length ?buf"
    by (rule length_overlay) (use len bs(2) big(1) in linarith)
  then have len1: "length buf1 = (b - a) * SectorSize"
    unfolding buf1_def if_distrib [of length] len by (simp only: if_cancel)
  have "length (overlay buf1 ((l - a) * SectorSize) cs) = length buf1"
    by (rule length_overlay) (use len1 cs(2) big(2) in linarith)
  then have len2: "length buf2 = (b - a) * SectorSize"
    unfolding buf2_def if_distrib [of length] len1 by (simp only: if_cancel)
  have "prepare_buffer junk d f pos n = Inr buf2"
    using bs(1) cs(1)
    unfolding prepare_buffer_def Let_def divRoundDown_def a_def [symmetric] l_def [symmetric]
    by (auto simp: buf1_def buf2_def)
  moreover have first: "overlay ?buf 0 bs ! k = file_image d ?h ! (a * SectorSize + k)"
    if "k < SectorSize" "a * SectorSize + k < nat (numBytes ?h)" for k
    using bs(3) that nth_overlay_inside [of 0 ?buf k bs] by auto
  moreover have "buf2 ! (j - a * SectorSize) = file_image d ?h ! j"
    if j: "a * SectorSize \<le> j" "j < b * SectorSize" "j < nat (numBytes ?h)" "\<not> (pos \<le> j \<and> j < pos + n)" for j
  proof (cases "j < pos")
    case True
    have "pos < Suc a * SectorSize" using dividend_less_div_times [of SectorSize pos] by (simp add: a_def)
    then have k: "j - a * SectorSize < SectorSize" "\<not> ?fa" using True j(1) by simp_all
    have "buf2 ! (j - a * SectorSize) = buf1 ! (j - a * SectorSize)"
    proof (cases "a = l")
      case False
      then have "SectorSize \<le> (l - a) * SectorSize" using al(1) by simp
      then have "overlay buf1 ((l - a) * SectorSize) cs ! (j - a * SectorSize) = buf1 ! (j - a * SectorSize)"
        using k(1) len1 big(2) by (intro nth_overlay_before) linarith+
      then show ?thesis by (simp add: buf2_def)
    qed (use k in \<open>simp add: buf2_def\<close>)
    also have "\<dots> = file_image d ?h ! j" using first [of "j - a * SectorSize"] k j by (simp add: buf1_def)
    finally show ?thesis .
  next
    case False
    then have ge: "pos + n \<le> j" using j(4) by simp
    have "l * SectorSize \<le> pos + n - 1" by (simp add: l_def)
    then have k: "l * SectorSize \<le> j" "j - l * SectorSize < SectorSize" "\<not> ?la"
      using ge j(2) al(3) by simp_all
    have e: "j - a * SectorSize = (l - a) * SectorSize + (j - l * SectorSize)"
      using k(1) al(1) mult_le_mono1 [OF al(1), of SectorSize] by (simp add: diff_mult_distrib)
    show ?thesis
    proof (cases "a \<noteq> l \<or> ?fa")
      case True
      have "overlay buf1 ((l - a) * SectorSize) cs ! (j - a * SectorSize) = cs ! (j - l * SectorSize)"
        unfolding e using cs(3) k j(3) len1 al(3) by (intro nth_overlay_inside) (auto intro: diff_le_mono)
      also have "\<dots> = file_image d ?h ! j" using cs(3) k j(3) by auto
      finally show ?thesis using True k by (auto simp: buf2_def)
    next
      case False
      then show ?thesis using first [of "j - a * SectorSize"] k j by (auto simp: buf2_def buf1_def)
    qed
  qed
  ultimately show ?thesis using len2 by blast
qed

lemma OpenFile_WriteAt_ok:
  assumes "disk_ok d" "hdr_ok (of_hdr f)" "0 \<le> position" "in_int (position + nbytes)"
    "0 < nbytes" "position < numBytes (of_hdr f)" "nat nbytes \<le> length frm"
  defines "n \<equiv> min (nat nbytes) (nat (numBytes (of_hdr f) - position))"
  shows "\<exists>d'. OpenFile_WriteAt junk d f frm nbytes position = Inr (int n, d') \<and> disk_ok d'
    \<and> file_bytes d' (of_hdr f) = overlay (file_bytes d (of_hdr f)) (nat position) (take n frm)
    \<and> (\<forall>m. m \<notin> set (file_sectors (of_hdr f)) \<longrightarrow> sector d' m = sector d m)"
proof -
  let ?h = "of_hdr f"
  define pos where "pos = nat position"
  have n: "0 < n" "pos + n \<le> nat (numBytes ?h)" "n \<le> length frm"
    "nat (if position + nbytes > numBytes ?h then numBytes ?h - position else nbytes) = n"
    using assms by (auto simp: n_def pos_def)
  note sp = sector_span [OF n(1,2) assms(2)]
  define a b where "a = pos div SectorSize" "b = Suc ((pos + n - 1) div SectorSize)"
  have ab: "a \<le> b" "b \<le> nat (numSectors ?h)" "a * SectorSize \<le> pos" "pos + n \<le> b * SectorSize"
    using sp by (simp_all add: a_b_def)
  obtain buf where buf: "prepare_buffer junk d f pos n = Inr buf" "length buf = (b - a) * SectorSize"
      "\<forall>j. a * SectorSize \<le> j \<and> j < b * SectorSize \<and> j < nat (numBytes ?h)
         \<and> \<not> (pos \<le> j \<and> j < pos + n) \<longrightarrow> buf ! (j - a * SectorSize) = file_image d ?h ! j"
    using prepare_buffer_ok [OF assms(1,2) n(1,2), of junk] unfolding a_b_def by blast
  define new where "new = overlay buf (pos - a * SectorSize) (take n frm)"
  have fits: "pos - a * SectorSize + n \<le> (b - a) * SectorSize" using ab by (simp add: diff_mult_distrib)
  then have len: "length new = (b - a) * SectorSize" using buf(2) n(3) by (simp add: new_def)
  obtain d' where d': "write_sectors d ?h [a..<b] new = Inr d'" "disk_ok d'"
      "\<forall>i < nat (numSectors ?h). sector d' (file_sectors ?h ! i) =
         (if a \<le> i \<and> i < b then take SectorSize (drop ((i - a) * SectorSize) new) else sector d (file_sectors ?h ! i))"
      "\<forall>m. m \<notin> set (file_sectors ?h) \<longrightarrow> sector d' m = sector d m"
    using write_sectors_ok [OF assms(1,2) ab(2) len] by blast
  have img: "length (file_image d ?h) = nat (numSectors ?h) * SectorSize"
    "nat (numBytes ?h) \<le> length (file_image d ?h)"
    using assms(1,2) file_sectors_props(4) by (simp_all add: length_file_image)
  have lf: "length (file_bytes d ?h) = nat (numBytes ?h)" using assms(1,2) by (rule length_file_bytes)
  have "write_buffer new (file_bytes d ?h) a b pos (take n frm)"
    unfolding write_buffer_def
  proof (intro conjI allI impI)
    fix j assume j: "a * SectorSize \<le> j \<and> j < b * SectorSize \<and> j < length (file_bytes d ?h)"
    then have jl: "j < nat (numBytes ?h)" using lf by simp
    have "new ! (j - a * SectorSize) = (if pos \<le> j \<and> j < pos + n then frm ! (j - pos) else buf ! (j - a * SectorSize))"
      using nth_overlay [of "pos - a * SectorSize" "take n frm" buf "j - a * SectorSize"] fits buf(2) n(3) ab j
      by (auto simp: new_def diff_mult_distrib)
    also have "\<dots> = overlay (file_bytes d ?h) pos (take n frm) ! j"
    proof (cases "pos \<le> j \<and> j < pos + n")
      case True
      then have "take n frm ! (j - pos) = frm ! (j - pos)" by (intro nth_take) auto
      then show ?thesis
        using True nth_overlay [of pos "take n frm" "file_bytes d ?h" j] n(2,3) lf jl by simp
    next
      case False
      have "file_bytes d ?h ! j = file_image d ?h ! j" using jl by (simp add: file_bytes_def)
      then show ?thesis
        using False nth_overlay [of pos "take n frm" "file_bytes d ?h" j] n(2,3) lf jl buf(3) j by auto
    qed
    finally show "new ! (j - a * SectorSize) = overlay (file_bytes d ?h) pos (take n frm) ! j" .
  qed (rule len)
  then have "file_bytes d' ?h = overlay (file_bytes d ?h) pos (take n frm)"
    using write_buffer_image [of new "nat (numBytes ?h)" "file_image d ?h" a b pos "take n frm"]
      file_image_write [OF assms(1,2) ab(2) len ab(1) d'(2,3)] ab n img
    by (simp add: file_bytes_def)
  moreover have "OpenFile_WriteAt junk d f frm nbytes position = Inr (int n, d')"
  proof -
    have "\<not> (nbytes \<le> 0 \<or> numBytes ?h \<le> position)" "\<not> position < 0" "\<not> length frm < n"
      using assms(3,5,6) n(3) by auto
    then show ?thesis
      using assms(4) buf(1) d'(1) unfolding OpenFile_WriteAt_def Let_def FileHeader_FileLength_def n(4)
        pos_def [symmetric] divRoundDown_def a_b_def [symmetric] new_def by simp
  qed
  ultimately show ?thesis using d' by (auto simp: pos_def)
qed

section \<open>Headers on disk, allocation and deallocation\<close>

definition header_storable :: "FileHeader \<Rightarrow> bool" where
  "header_storable h \<longleftrightarrow> list_all in_int (numBytes h # numSectors h # dataSectors h) \<and> length (dataSectors h) = NumDirect"

lemma length_header_bytes: "header_storable h \<Longrightarrow> length (header_bytes h) = SectorSize"
  unfolding header_bytes_def length_concat_int_bytes
  by (simp add: header_storable_def NumDirect_def SectorSize_def)

lemma FileHeader_WriteBack_ok:
  assumes "disk_ok d" "n < NumSectors" "header_storable h"
  shows "FileHeader_WriteBack h d (int n) = Inr (set_sector d n (header_bytes h))"
  using assms by (simp add: FileHeader_WriteBack_def SynchDisk_WriteSector_ok length_header_bytes)

lemma FileHeader_FetchFrom_ok:
  assumes "disk_ok d" "n < NumSectors" "header_storable h" "sector d n = header_bytes h"
  shows "FileHeader_FetchFrom d (int n) = Inr h"
proof -
  let ?xs = "numBytes h # numSectors h # dataSectors h"
  have "bytes_ints (length ?xs) (header_bytes h) = ?xs"
    using assms(3) bytes_ints_concat [of ?xs "[]"] unfolding header_bytes_def header_storable_def by simp
  moreover have "length ?xs = NumDirect + 2" using assms(3) by (simp add: header_storable_def)
  ultimately have "bytes_ints (NumDirect + 2) (header_bytes h) = ?xs" by (simp only:)
  then show ?thesis using assms by (simp add: FileHeader_FetchFrom_def SynchDisk_ReadSector_ok)
qed

lemma divRoundUp_int_nat: "divRoundUp_int (int n) (int s) = int (divRoundUp n s)"
proof -
  have "int n smod int s = int (n mod s)" "int n sdiv int s = int (n div s)"
    by (cases "n = 0"; simp add: signed_divide_int_def signed_modulo_int_def zdiv_int zmod_int sgn_if)+
  then show ?thesis by (simp add: divRoundUp_int_def divRoundUp_def)
qed

lemma FileHeader_Allocate_ok:
  assumes "BitMap_wf bm" "numBits bm = NumSectors" "length (dataSectors h) = NumDirect"
    "divRoundUp sz SectorSize \<le> NumDirect" "divRoundUp sz SectorSize \<le> card (clear_bits bm)"
  shows "\<exists>h' bm'. FileHeader_Allocate h bm (int sz) = Inr (True, h', bm') \<and> hdr_ok h' \<and> numBytes h' = int sz
    \<and> BitMap_wf bm' \<and> numBits bm' = NumSectors \<and> set (file_sectors h') \<subseteq> clear_bits bm
    \<and> clear_bits bm' = clear_bits bm - set (file_sectors h')
    \<and> (\<forall>i \<ge> divRoundUp sz SectorSize. i < NumDirect \<longrightarrow> dataSectors h' ! i = dataSectors h ! i)"
proof -
  let ?k = "divRoundUp sz SectorSize"
  obtain ks bm' where ks: "find_n BitMap_Find ?k bm = Inr (map int ks, bm')" "BitMap_wf bm'" "numBits bm' = numBits bm"
      "length ks = ?k" "distinct ks" "set ks \<subseteq> clear_bits bm" "clear_bits bm' = clear_bits bm - set ks"
    using bm.find_n_ok [OF assms(1,5)] by blast
  let ?h = "h\<lparr>numBytes := int sz, numSectors := int ?k, dataSectors := overlay (dataSectors h) 0 (map int ks)\<rparr>"
  have tk: "take ?k (overlay (dataSectors h) 0 (map int ks)) = map int ks" using ks(4) by (simp add: overlay_def)
  have fs: "file_sectors ?h = ks" by (simp add: file_sectors_def tk comp_def)
  have "FileHeader_Allocate h bm (int sz) = Inr (True, ?h, bm')"
    using assms ks(1) by (simp add: FileHeader_Allocate_def Let_def divRoundUp_int_nat BitMap_NumClear_ok)
  moreover have "\<forall>x \<in> set ks. x < NumSectors" using ks(6) assms(2) by (auto simp: clear_bits_def)
  then have "hdr_ok ?h"
    using assms(3,4) ks(4,5) fs tk unfolding hdr_ok_def by (simp add: length_overlay)
  moreover have "\<forall>i \<ge> ?k. i < NumDirect \<longrightarrow> dataSectors ?h ! i = dataSectors h ! i"
    using assms(3,4) ks(4) by (simp add: nth_overlay)
  ultimately show ?thesis using ks fs assms(2) by (intro exI [of _ ?h] exI [of _ bm']) simp
qed

lemma FileHeader_Allocate_no_space:
  assumes "card (clear_bits bm) < divRoundUp sz SectorSize"
  shows "\<exists>h'. FileHeader_Allocate h bm (int sz) = Inr (False, h', bm)"
  using assms by (simp add: FileHeader_Allocate_def Let_def divRoundUp_int_nat BitMap_NumClear_ok)

lemma dealloc_loop_ok:
  "BitMap_wf bm \<Longrightarrow> distinct ks \<Longrightarrow> set ks \<subseteq> marked bm \<Longrightarrow>
   \<exists>bm'. dealloc_loop (map int ks) bm = Inr bm' \<and> BitMap_wf bm' \<and> numBits bm' = numBits bm
     \<and> marked bm' = marked bm - set ks"
proof (induction ks arbitrary: bm)
  case Nil
  then show ?case by simp
next
  case (Cons k ks)
  have k: "k < numBits bm" "k \<in> marked bm" using Cons.prems(3) by (auto simp: marked_def)
  obtain bm1 where bm1: "BitMap_Clear bm (int k) = Inr bm1" "BitMap_wf bm1" "numBits bm1 = numBits bm"
      "marked bm1 = marked bm - {k}"
    by (rule BitMap_Clear_ok [OF Cons.prems(1) k(1)])
  have "set ks \<subseteq> marked bm1" using Cons.prems(2,3) bm1(4) by auto
  then obtain bm' where "dealloc_loop (map int ks) bm1 = Inr bm'" "BitMap_wf bm'" "numBits bm' = numBits bm1"
      "marked bm' = marked bm1 - set ks"
    using Cons.IH [OF bm1(2)] Cons.prems(2) by auto
  then show ?case using bm1 k by (auto simp: BitMap_Test_ok)
qed

lemma FileHeader_Deallocate_ok:
  assumes "hdr_ok h" "BitMap_wf bm" "set (file_sectors h) \<subseteq> marked bm"
  shows "\<exists>bm'. FileHeader_Deallocate h bm = Inr bm' \<and> BitMap_wf bm' \<and> numBits bm' = numBits bm
    \<and> marked bm' = marked bm - set (file_sectors h)"
proof -
  have "take (nat (numSectors h)) (dataSectors h) = map int (file_sectors h)"
    using assms(1) by (simp add: hdr_ok_def file_sectors_def map_idI)
  moreover have "nat (numSectors h) \<le> length (dataSectors h)" using assms(1) by (auto simp: hdr_ok_def)
  ultimately show ?thesis
    using dealloc_loop_ok [OF assms(2) file_sectors_props(5) [OF assms(1)] assms(3)]
    by (simp add: FileHeader_Deallocate_def)
qed

section \<open>Properties\<close>

lemma file_bytes_other:
  "set (file_sectors h') \<inter> set (file_sectors h) = {} \<Longrightarrow> \<forall>m. m \<notin> set (file_sectors h) \<longrightarrow> sector d' m = sector d m \<Longrightarrow>
   file_bytes d' h' = file_bytes d h'"
  unfolding file_bytes_def file_image_def by (rule arg_cong [where f = "\<lambda>xs. take _ (concat xs)"]) auto

definition sample_header :: FileHeader where
  "sample_header = \<lparr>numBytes = 200, numSectors = 2, dataSectors = [5, 9] @ replicate 28 0\<rparr>"

lemma sample_header_ok: "hdr_ok sample_header" "header_storable sample_header" "numBytes sample_header = 200"
    "file_sectors sample_header = [5, 9]"
  by (simp_all add: hdr_ok_def header_storable_def sample_header_def file_sectors_def divRoundUp_def SectorSize_def
      NumDirect_def disk_sizes in_int_def list_all_iff)

text \<open>
  C35. \<open>OpenFile::Read\<close> returns the bytes of the file from the seek position on, as many as were
  asked for and exist, and moves the seek position past them, whichever sectors the file occupies;
  it never reads outside the disk or the header.\<close>

theorem open_file_read:
  assumes "disk_ok d" "hdr_ok (of_hdr f)" "0 \<le> seekPosition f" "in_int (seekPosition f + nbytes)"
  shows "\<exists>bs. OpenFile_Read d f nbytes = Inr (bs, f\<lparr>seekPosition := seekPosition f + int (length bs)\<rparr>)
    \<and> bs = take (nat nbytes) (drop (nat (seekPosition f)) (file_bytes d (of_hdr f)))"
  using assms by (simp add: OpenFile_Read_def OpenFile_ReadAt_ok)

theorem open_file_read_witness:
  "\<exists>d bs. disk_ok d \<and> OpenFile_Read d \<lparr>of_hdr = sample_header, seekPosition = 100\<rparr> 50
     = Inr (bs, \<lparr>of_hdr = sample_header, seekPosition = 150\<rparr>)"
proof -
  obtain d where d: "disk_ok d" using Disk_Disk_fresh by blast
  have "length (file_bytes d sample_header) = 200"
    using length_file_bytes [OF d sample_header_ok(1)] by (simp add: sample_header_ok)
  then show ?thesis
    using open_file_read [of d "\<lparr>of_hdr = sample_header, seekPosition = 100\<rparr>" 50] d
    by (auto simp: sample_header_ok in_int_def)
qed

text \<open>
  C36. \<open>OpenFile::WriteAt\<close> inside a file writes what fits below the end of the file and returns that
  count; the contents become the old ones with exactly those bytes replaced, although the routine
  reads, merges and rewrites whole sectors and its buffer starts with arbitrary memory. A \<open>ReadAt\<close>
  of the same range gives the bytes back, and no file with other sectors changes.\<close>

theorem file_write_read_roundtrip:
  assumes "disk_ok d" "hdr_ok (of_hdr f)" "0 \<le> position" "in_int (position + nbytes)"
    "0 < nbytes" "position < numBytes (of_hdr f)" "nat nbytes \<le> length frm"
  shows "\<exists>n d'. OpenFile_WriteAt junk d f frm nbytes position = Inr (int n, d')
    \<and> n = min (nat nbytes) (nat (numBytes (of_hdr f) - position))
    \<and> file_bytes d' (of_hdr f) = overlay (file_bytes d (of_hdr f)) (nat position) (take n frm)
    \<and> OpenFile_ReadAt d' f nbytes position = Inr (take n frm)
    \<and> (\<forall>h. set (file_sectors h) \<inter> set (file_sectors (of_hdr f)) = {} \<longrightarrow> file_bytes d' h = file_bytes d h)"
proof -
  define n where "n = min (nat nbytes) (nat (numBytes (of_hdr f) - position))"
  obtain d' where d': "OpenFile_WriteAt junk d f frm nbytes position = Inr (int n, d')" "disk_ok d'"
    "file_bytes d' (of_hdr f) = overlay (file_bytes d (of_hdr f)) (nat position) (take n frm)"
    "\<forall>m. m \<notin> set (file_sectors (of_hdr f)) \<longrightarrow> sector d' m = sector d m"
    using OpenFile_WriteAt_ok [OF assms] by (auto simp: n_def)
  have n: "length (take n frm) = n" "nat position + n \<le> length (file_bytes d (of_hdr f))"
    using assms length_file_bytes [OF assms(1,2)] by (auto simp: n_def)
  have "take (nat nbytes) (drop (nat position) (file_bytes d' (of_hdr f))) = take n frm"
  proof -
    have "nat nbytes = n \<or> length (file_bytes d (of_hdr f)) = nat position + n"
      using assms length_file_bytes [OF assms(1,2)] by (auto simp: n_def)
    moreover have "n \<le> nat nbytes" by (simp add: n_def)
    ultimately show ?thesis using n assms(7) unfolding d'(3) overlay_def by (auto simp: min_absorb2)
  qed
  then have "OpenFile_ReadAt d' f nbytes position = Inr (take n frm)"
    by (simp only: OpenFile_ReadAt_ok [OF d'(2) assms(2-4)])
  moreover have "\<forall>h. set (file_sectors h) \<inter> set (file_sectors (of_hdr f)) = {} \<longrightarrow> file_bytes d' h = file_bytes d h"
    using file_bytes_other [OF _ d'(4)] by blast
  ultimately show ?thesis using d'(1,3) n_def by blast
qed

theorem file_write_read_roundtrip_witness:
  "\<exists>d d'. OpenFile_WriteAt (\<lambda>_. 7) d \<lparr>of_hdr = sample_header, seekPosition = 0\<rparr> (replicate 60 1) 60 150 = Inr (50, d')
     \<and> OpenFile_ReadAt d' \<lparr>of_hdr = sample_header, seekPosition = 0\<rparr> 60 150 = Inr (replicate 50 1)"
proof -
  obtain d where d: "disk_ok d" using Disk_Disk_fresh by blast
  then show ?thesis
    using file_write_read_roundtrip [of d "\<lparr>of_hdr = sample_header, seekPosition = 0\<rparr>" 150 60 "replicate 60 1" "\<lambda>_. 7"]
    by (auto simp: sample_header_ok in_int_def)
qed

text \<open>
  A file header written to a sector and fetched again is the same header: its 32 integers fill the
  sector exactly, and the other sectors keep their contents.\<close>

theorem header_roundtrip:
  assumes "disk_ok d" "n < NumSectors" "header_storable h"
  shows "\<exists>d'. FileHeader_WriteBack h d (int n) = Inr d' \<and> FileHeader_FetchFrom d' (int n) = Inr h
    \<and> disk_ok d' \<and> (\<forall>m. m \<noteq> n \<longrightarrow> sector d' m = sector d m)"
  using assms FileHeader_WriteBack_ok [OF assms]
  by (simp add: FileHeader_FetchFrom_ok sector_set_sector length_header_bytes)

theorem header_roundtrip_witness:
  "\<exists>d d'. FileHeader_WriteBack sample_header d 17 = Inr d' \<and> FileHeader_FetchFrom d' 17 = Inr sample_header"
proof -
  obtain d where d: "disk_ok d" using Disk_Disk_fresh by blast
  then show ?thesis
    using header_roundtrip [of d 17 sample_header] by (auto simp: sample_header_ok disk_sizes)
qed

text \<open>
  \<open>FileHeader::Allocate\<close> for a file that fits in the header either finds enough free sectors, and
  then the new header lists that many distinct sectors, all of them free before and marked after,
  or answers \<open>FALSE\<close> and leaves the free map alone. \<open>Deallocate\<close> then gives back exactly those
  sectors.\<close>

theorem allocate_deallocate:
  assumes "BitMap_wf bm" "numBits bm = NumSectors" "length (dataSectors h) = NumDirect"
    "divRoundUp sz SectorSize \<le> NumDirect"
  shows "(\<exists>h' bm' bm''. FileHeader_Allocate h bm (int sz) = Inr (True, h', bm')
        \<and> hdr_ok h' \<and> numBytes h' = int sz \<and> length (file_sectors h') = divRoundUp sz SectorSize
        \<and> distinct (file_sectors h') \<and> set (file_sectors h') \<subseteq> clear_bits bm
        \<and> clear_bits bm' = clear_bits bm - set (file_sectors h')
        \<and> FileHeader_Deallocate h' bm' = Inr bm'' \<and> clear_bits bm'' = clear_bits bm)
     \<or> card (clear_bits bm) < divRoundUp sz SectorSize
        \<and> (\<exists>h'. FileHeader_Allocate h bm (int sz) = Inr (False, h', bm))"
proof (cases "divRoundUp sz SectorSize \<le> card (clear_bits bm)")
  case True
  obtain h' bm' where a: "FileHeader_Allocate h bm (int sz) = Inr (True, h', bm')" "hdr_ok h'" "numBytes h' = int sz"
      "BitMap_wf bm'" "numBits bm' = NumSectors" "set (file_sectors h') \<subseteq> clear_bits bm"
      "clear_bits bm' = clear_bits bm - set (file_sectors h')"
    using FileHeader_Allocate_ok [OF assms True] by blast
  have "set (file_sectors h') \<subseteq> marked bm'"
    using a(5,6,7) assms(2) by (auto simp: clear_bits_def marked_def)
  then obtain bm'' where "FileHeader_Deallocate h' bm' = Inr bm''" "numBits bm'' = numBits bm'"
      "marked bm'' = marked bm' - set (file_sectors h')"
    using FileHeader_Deallocate_ok [OF a(2,4)] by blast
  moreover then have "clear_bits bm'' = clear_bits bm"
    using a(5,6,7) assms(2) by (auto simp: clear_bits_def marked_def)
  moreover have "length (file_sectors h') = divRoundUp sz SectorSize"
    using file_sectors_props(1) [OF a(2)] a(2,3) by (simp add: hdr_ok_def)
  ultimately show ?thesis using a file_sectors_props(5) [OF a(2)] by blast
next
  case False
  then show ?thesis using FileHeader_Allocate_no_space [of bm sz h] by auto
qed
theorem allocate_deallocate_witness:
  "\<exists>bm h' bm' bm''. FileHeader_Allocate sample_header bm (int 200) = Inr (True, h', bm')
     \<and> length (file_sectors h') = 2 \<and> FileHeader_Deallocate h' bm' = Inr bm'' \<and> clear_bits bm'' = {..<NumSectors}"
proof -
  obtain bm where bm: "BitMap_wf bm" "numBits bm = NumSectors" "marked bm = {}"
    using BitMap_BitMap_ok [of "replicate 32 0" NumSectors] by (auto simp: disk_sizes divRoundUp_def BitsInWord_def)
  then have c: "clear_bits bm = {..<NumSectors}" by (auto simp: clear_bits_def)
  moreover have "divRoundUp 200 SectorSize = 2" "2 \<le> NumDirect" "length (dataSectors sample_header) = NumDirect"
      "2 \<le> card {..<NumSectors}"
    by (simp_all add: divRoundUp_def disk_sizes NumDirect_def sample_header_def)
  ultimately show ?thesis using allocate_deallocate [of bm sample_header 200] bm(1,2) by (metis linorder_not_less)
qed

end
