(* ===== verification/Nachos_FileSys.thy ===== *)
theory Nachos_FileSys
  imports Nachos_File
begin

text \<open>
  \<^verbatim>\<open>filesys/directory.cc\<close> and \<^verbatim>\<open>filesys/filesys.cc\<close>, with the two routines of \<^verbatim>\<open>userprog/bitmap.cc\<close> that
  keep a bitmap in a file. The directory and the map of free sectors are ordinary files whose headers
  are in sectors 1 and 0. The whole file system is on the disk: every operation fetches what it needs,
  works on copies in memory and writes them back.

  \<open>disk_fs_ok\<close> is the consistency of a disk: no sector belongs to two files, the free map marks exactly
  the sectors in use and no name is listed twice. \<open>fs_files\<close> is the file system its users see, a map from
  names to contents, and the operations are shown to implement the operations on that map.

  \<open>fresh_memory\<close> is the arbitrary contents of the objects the routines allocate with \<^verbatim>\<open>new\<close>.
  A \<open>DirectoryEntry\<close> takes 20 bytes: a flag, three bytes of padding, the sector number, the
  ten bytes of the name and two more bytes of padding.
\<close>

section \<open>Arrays of objects as bytes\<close>

fun dec_array :: "(byte list \<Rightarrow> 'a) \<Rightarrow> nat \<Rightarrow> nat \<Rightarrow> byte list \<Rightarrow> 'a list" where
  "dec_array dec k 0 bs = []"
| "dec_array dec k (Suc n) bs = dec (take k bs) # dec_array dec k n (drop k bs)"

definition enc_array :: "('a \<Rightarrow> byte list) \<Rightarrow> 'a list \<Rightarrow> byte list" where
  "enc_array enc xs = concat (map enc xs)"

text \<open>The layout of an object of \<open>k\<close> bytes in memory.\<close>

locale byte_encoding =
  fixes wf :: "'a \<Rightarrow> bool" and enc :: "'a \<Rightarrow> byte list" and dec :: "byte list \<Rightarrow> 'a" and k :: nat
  assumes enc_length: "wf x \<Longrightarrow> length (enc x) = k"
    and dec_enc: "wf x \<Longrightarrow> dec (enc x) = x"
    and dec_wf: "length bs = k \<Longrightarrow> wf (dec bs)"
begin

lemma length_enc_array: "\<forall>x \<in> set xs. wf x \<Longrightarrow> length (enc_array enc xs) = length xs * k"
  by (induction xs) (auto simp: enc_array_def enc_length)

lemma dec_enc_array: "\<forall>x \<in> set xs. wf x \<Longrightarrow> dec_array dec k (length xs) (enc_array enc xs @ bs) = xs"
  by (induction xs) (auto simp: enc_array_def enc_length dec_enc)

lemma dec_array_wf: "n * k \<le> length bs \<Longrightarrow> \<forall>x \<in> set (dec_array dec k n bs). wf x"
proof (induction n arbitrary: bs)
  case (Suc n)
  then show ?case using Suc.IH [of "drop k bs"] by (auto intro!: dec_wf)
qed simp

lemma length_dec_array: "length (dec_array dec k n bs) = n"
  by (induction n arbitrary: bs) auto

end

interpretation words: byte_encoding "\<lambda>_. True" word_bytes bytes_word 4
  by unfold_locales auto

section \<open>Bitmaps in files\<close>

text \<open>\<open>ReadAt\<close> overwrites the words of the map with as many bytes as the file holds.\<close>

definition BitMap_FetchFrom :: "BitMap \<Rightarrow> Disk \<Rightarrow> OpenFile \<Rightarrow> BitMap result" where
  "BitMap_FetchFrom bm d file = rbind (OpenFile_ReadAt d file (int (numWords bm * 4)) 0) (\<lambda>bs.
     Inr (bm\<lparr>bm_map := dec_array bytes_word 4 (numWords bm) (overlay (enc_array word_bytes (bm_map bm)) 0 bs)\<rparr>))"

definition BitMap_WriteBack :: "(nat \<Rightarrow> byte) \<Rightarrow> BitMap \<Rightarrow> Disk \<Rightarrow> OpenFile \<Rightarrow> Disk result" where
  "BitMap_WriteBack junk bm d file =
     rbind (OpenFile_WriteAt junk d file (enc_array word_bytes (bm_map bm)) (int (numWords bm * 4)) 0) (\<lambda>(n, d').
       Inr d')"

section \<open>Names\<close>

text \<open>The character under a pointer into a C string: the list holds the characters before the terminator.\<close>

definition c_char :: "byte list \<Rightarrow> byte" where
  "c_char s = (case s of [] \<Rightarrow> 0 | c # _ \<Rightarrow> c)"

fun strncmp :: "byte list \<Rightarrow> byte list \<Rightarrow> nat \<Rightarrow> int" where
  "strncmp a b 0 = 0"
| "strncmp a b (Suc n) = (if c_char a \<noteq> c_char b then uint (c_char a) - uint (c_char b)
     else if c_char a = 0 then 0 else strncmp (tl a) (tl b) n)"

definition strncpy :: "byte list \<Rightarrow> byte list \<Rightarrow> nat \<Rightarrow> byte list" where
  "strncpy dst s n = (let cs = takeWhile (\<lambda>c. c \<noteq> 0) (take n s) in cs @ replicate (n - length cs) 0 @ drop n dst)"

section \<open>Directories\<close>

definition FileNameMaxLen :: nat where "FileNameMaxLen = 9"

record DirectoryEntry =
  inUse :: bool
  de_pad1 :: "byte list"
  de_sector :: int
  de_name :: "byte list"
  de_pad2 :: "byte list"

definition sizeof_DirectoryEntry :: nat where "sizeof_DirectoryEntry = 20"

definition entry_bytes :: "DirectoryEntry \<Rightarrow> byte list" where
  "entry_bytes e = (if inUse e then 1 else 0) # de_pad1 e @ int_bytes (de_sector e) @ de_name e @ de_pad2 e"

definition bytes_entry :: "byte list \<Rightarrow> DirectoryEntry" where
  "bytes_entry bs = \<lparr>inUse = (c_char bs \<noteq> 0), de_pad1 = take 3 (drop 1 bs), de_sector = sint (bytes_word (take 4 (drop 4 bs))),
     de_name = take (FileNameMaxLen + 1) (drop 8 bs), de_pad2 = drop 18 bs\<rparr>"

record Directory =
  tableSize :: nat
  dir_table :: "DirectoryEntry list"

definition Directory_Directory :: "DirectoryEntry list \<Rightarrow> nat \<Rightarrow> Directory" where
  "Directory_Directory fresh n = \<lparr>tableSize = n, dir_table = map (\<lambda>e. e\<lparr>inUse := False\<rparr>) fresh\<rparr>"

definition Directory_FetchFrom :: "Directory \<Rightarrow> Disk \<Rightarrow> OpenFile \<Rightarrow> Directory result" where
  "Directory_FetchFrom dir d file =
     rbind (OpenFile_ReadAt d file (int (tableSize dir * sizeof_DirectoryEntry)) 0) (\<lambda>bs.
       Inr (dir\<lparr>dir_table := dec_array bytes_entry sizeof_DirectoryEntry (tableSize dir)
              (overlay (enc_array entry_bytes (dir_table dir)) 0 bs)\<rparr>))"

definition Directory_WriteBack :: "(nat \<Rightarrow> byte) \<Rightarrow> Directory \<Rightarrow> Disk \<Rightarrow> OpenFile \<Rightarrow> Disk result" where
  "Directory_WriteBack junk dir d file =
     rbind (OpenFile_WriteAt junk d file (enc_array entry_bytes (dir_table dir))
              (int (tableSize dir * sizeof_DirectoryEntry)) 0) (\<lambda>(n, d'). Inr d')"

definition entry_matches :: "byte list \<Rightarrow> DirectoryEntry \<Rightarrow> bool" where
  "entry_matches name e \<longleftrightarrow> inUse e \<and> strncmp (de_name e) name FileNameMaxLen = 0"

text \<open>The index of the first entry that satisfies a test, or -1: the loops over the table.\<close>

fun first_index :: "(DirectoryEntry \<Rightarrow> bool) \<Rightarrow> DirectoryEntry list \<Rightarrow> int \<Rightarrow> int" where
  "first_index P [] i = -1"
| "first_index P (e # es) i = (if P e then i else first_index P es (i + 1))"

definition Directory_FindIndex :: "Directory \<Rightarrow> byte list \<Rightarrow> int" where
  "Directory_FindIndex dir name = first_index (entry_matches name) (dir_table dir) 0"

definition Directory_Find :: "Directory \<Rightarrow> byte list \<Rightarrow> int" where
  "Directory_Find dir name = (let i = Directory_FindIndex dir name in
     if i \<noteq> -1 then de_sector (dir_table dir ! nat i) else -1)"

definition Directory_Add :: "Directory \<Rightarrow> byte list \<Rightarrow> int \<Rightarrow> bool \<times> Directory" where
  "Directory_Add dir name newSector =
     (if Directory_FindIndex dir name \<noteq> -1 then (False, dir)
      else let i = first_index (\<lambda>e. \<not> inUse e) (dir_table dir) 0 in
        if i \<noteq> -1
        then (True, dir\<lparr>dir_table := (dir_table dir)[nat i := (dir_table dir ! nat i)\<lparr>inUse := True,
               de_name := strncpy (de_name (dir_table dir ! nat i)) name FileNameMaxLen, de_sector := newSector\<rparr>]\<rparr>)
        else (False, dir))"

definition Directory_Remove :: "Directory \<Rightarrow> byte list \<Rightarrow> bool \<times> Directory" where
  "Directory_Remove dir name = (let i = Directory_FindIndex dir name in
     if i = -1 then (False, dir)
     else (True, dir\<lparr>dir_table := (dir_table dir)[nat i := (dir_table dir ! nat i)\<lparr>inUse := False\<rparr>]\<rparr>))"

text \<open>The arrays that \<open>List\<close> hands to \<^verbatim>\<open>printf("%s")\<close>.\<close>

definition Directory_List :: "Directory \<Rightarrow> (byte list) list" where
  "Directory_List dir = map de_name (filter inUse (dir_table dir))"

section \<open>The file system\<close>

definition FreeMapSector :: nat where "FreeMapSector = 0"
definition DirectorySector :: nat where "DirectorySector = 1"
definition FreeMapFileSize :: nat where "FreeMapFileSize = NumSectors div BitsInByte"
definition NumDirEntries :: nat where "NumDirEntries = 10"
definition DirectoryFileSize :: nat where "DirectoryFileSize = sizeof_DirectoryEntry * NumDirEntries"

record FileSystem =
  freeMapFile :: OpenFile
  directoryFile :: OpenFile
  fs_disk :: Disk

record fresh_memory =
  fm_words :: "32 word list"
  fm_entries :: "DirectoryEntry list"
  fm_header :: FileHeader
  fm_header2 :: FileHeader
  fm_buffer :: "nat \<Rightarrow> byte"

definition FileSystem_FileSystem :: "fresh_memory \<Rightarrow> bool \<Rightarrow> Disk \<Rightarrow> FileSystem result" where
  "FileSystem_FileSystem mem format d =
     (if format then
        rbind (BitMap_BitMap (fm_words mem) NumSectors) (\<lambda>freeMap.
        let directory = Directory_Directory (fm_entries mem) NumDirEntries in
        rbind (BitMap_Mark freeMap (int FreeMapSector)) (\<lambda>freeMap.
        rbind (BitMap_Mark freeMap (int DirectorySector)) (\<lambda>freeMap.
        rbind (FileHeader_Allocate (fm_header mem) freeMap (int FreeMapFileSize)) (\<lambda>(done1, mapHdr, freeMap).
        ASSERT done1 (rbind (FileHeader_Allocate (fm_header2 mem) freeMap (int DirectoryFileSize)) (\<lambda>(done2, dirHdr, freeMap).
        ASSERT done2 (rbind (FileHeader_WriteBack mapHdr d (int FreeMapSector)) (\<lambda>d.
        rbind (FileHeader_WriteBack dirHdr d (int DirectorySector)) (\<lambda>d.
        rbind (OpenFile_OpenFile d (int FreeMapSector)) (\<lambda>mapFile.
        rbind (OpenFile_OpenFile d (int DirectorySector)) (\<lambda>dirFile.
        rbind (BitMap_WriteBack (fm_buffer mem) freeMap d mapFile) (\<lambda>d.
        rbind (Directory_WriteBack (fm_buffer mem) directory d dirFile) (\<lambda>d.
          Inr \<lparr>freeMapFile = mapFile, directoryFile = dirFile, fs_disk = d\<rparr>)))))))))))))
      else
        rbind (OpenFile_OpenFile d (int FreeMapSector)) (\<lambda>mapFile.
        rbind (OpenFile_OpenFile d (int DirectorySector)) (\<lambda>dirFile.
          Inr \<lparr>freeMapFile = mapFile, directoryFile = dirFile, fs_disk = d\<rparr>)))"

definition FileSystem_Create :: "fresh_memory \<Rightarrow> FileSystem \<Rightarrow> byte list \<Rightarrow> int \<Rightarrow> (bool \<times> FileSystem) result" where
  "FileSystem_Create mem fs name initialSize =
     rbind (Directory_FetchFrom (Directory_Directory (fm_entries mem) NumDirEntries) (fs_disk fs) (directoryFile fs)) (\<lambda>directory.
     if Directory_Find directory name \<noteq> -1 then Inr (False, fs)
     else
       rbind (BitMap_BitMap (fm_words mem) NumSectors) (\<lambda>freeMap.
       rbind (BitMap_FetchFrom freeMap (fs_disk fs) (freeMapFile fs)) (\<lambda>freeMap.
       rbind (BitMap_Find freeMap) (\<lambda>(sec, freeMap).
       if sec = -1 then Inr (False, fs)
       else case Directory_Add directory name sec of (added, directory) \<Rightarrow>
         if \<not> added then Inr (False, fs)
         else
           rbind (FileHeader_Allocate (fm_header mem) freeMap initialSize) (\<lambda>(allocated, hdr, freeMap).
           if \<not> allocated then Inr (False, fs)
           else
             rbind (FileHeader_WriteBack hdr (fs_disk fs) sec) (\<lambda>d.
             rbind (Directory_WriteBack (fm_buffer mem) directory d (directoryFile fs)) (\<lambda>d.
             rbind (BitMap_WriteBack (fm_buffer mem) freeMap d (freeMapFile fs)) (\<lambda>d.
               Inr (True, fs\<lparr>fs_disk := d\<rparr>)))))))))"

definition FileSystem_Open :: "fresh_memory \<Rightarrow> FileSystem \<Rightarrow> byte list \<Rightarrow> (OpenFile option) result" where
  "FileSystem_Open mem fs name =
     rbind (Directory_FetchFrom (Directory_Directory (fm_entries mem) NumDirEntries) (fs_disk fs) (directoryFile fs)) (\<lambda>directory.
     let sec = Directory_Find directory name in
     if sec \<ge> 0 then rbind (OpenFile_OpenFile (fs_disk fs) sec) (\<lambda>f. Inr (Some f)) else Inr None)"

definition FileSystem_Remove :: "fresh_memory \<Rightarrow> FileSystem \<Rightarrow> byte list \<Rightarrow> (bool \<times> FileSystem) result" where
  "FileSystem_Remove mem fs name =
     rbind (Directory_FetchFrom (Directory_Directory (fm_entries mem) NumDirEntries) (fs_disk fs) (directoryFile fs)) (\<lambda>directory.
     let sec = Directory_Find directory name in
     if sec = -1 then Inr (False, fs)
     else
       rbind (FileHeader_FetchFrom (fs_disk fs) sec) (\<lambda>fileHdr.
       rbind (BitMap_BitMap (fm_words mem) NumSectors) (\<lambda>freeMap.
       rbind (BitMap_FetchFrom freeMap (fs_disk fs) (freeMapFile fs)) (\<lambda>freeMap.
       rbind (FileHeader_Deallocate fileHdr freeMap) (\<lambda>freeMap.
       rbind (BitMap_Clear freeMap sec) (\<lambda>freeMap.
       let directory = snd (Directory_Remove directory name) in
       rbind (BitMap_WriteBack (fm_buffer mem) freeMap (fs_disk fs) (freeMapFile fs)) (\<lambda>d.
       rbind (Directory_WriteBack (fm_buffer mem) directory d (directoryFile fs)) (\<lambda>d.
         Inr (True, fs\<lparr>fs_disk := d\<rparr>)))))))))"

definition FileSystem_List :: "fresh_memory \<Rightarrow> FileSystem \<Rightarrow> ((byte list) list) result" where
  "FileSystem_List mem fs =
     rbind (Directory_FetchFrom (Directory_Directory (fm_entries mem) NumDirEntries) (fs_disk fs) (directoryFile fs)) (\<lambda>directory.
       Inr (Directory_List directory))"

section \<open>Lemmas on names and entries\<close>

definition name_key :: "byte list \<Rightarrow> byte list" where
  "name_key s = takeWhile (\<lambda>c. c \<noteq> 0) (take FileNameMaxLen s)"

lemma strncmp_key:
  "strncmp a b n = 0 \<longleftrightarrow> takeWhile (\<lambda>c. c \<noteq> 0) (take n a) = takeWhile (\<lambda>c. c \<noteq> 0) (take n b)"
proof (induction n arbitrary: a b)
  case (Suc n)
  then show ?case by (cases a; cases b) (auto simp: c_char_def word_uint_eq_iff)
qed simp

lemma entry_matches_key: "entry_matches name e \<longleftrightarrow> inUse e \<and> name_key (de_name e) = name_key name"
  by (simp add: entry_matches_def strncmp_key name_key_def)

lemma takeWhile_replicate_0: "takeWhile (\<lambda>c. c \<noteq> (0::byte)) (takeWhile (\<lambda>c. c \<noteq> 0) xs @ replicate m 0) = takeWhile (\<lambda>c. c \<noteq> 0) xs"
proof (induction xs)
  case Nil
  then show ?case by (cases m) auto
qed auto

lemma name_key_strncpy: "name_key (strncpy dst s FileNameMaxLen) = name_key s"
proof -
  let ?cs = "takeWhile (\<lambda>c. c \<noteq> 0) (take FileNameMaxLen s)"
  have "length ?cs \<le> FileNameMaxLen"
    using length_takeWhile_le [of "\<lambda>c. c \<noteq> 0" "take FileNameMaxLen s"] by simp
  then have "take FileNameMaxLen (strncpy dst s FileNameMaxLen) = ?cs @ replicate (FileNameMaxLen - length ?cs) 0"
    by (simp add: strncpy_def Let_def)
  then show ?thesis by (simp add: name_key_def takeWhile_replicate_0)
qed

lemma length_strncpy:
  "n \<le> length dst \<Longrightarrow> length (strncpy dst s n) = length dst"
  using length_takeWhile_le [of "\<lambda>c. c \<noteq> 0" "take n s"] by (simp add: strncpy_def Let_def)

definition entry_wf :: "DirectoryEntry \<Rightarrow> bool" where
  "entry_wf e \<longleftrightarrow> length (de_pad1 e) = 3 \<and> in_int (de_sector e) \<and> length (de_name e) = FileNameMaxLen + 1 \<and> length (de_pad2 e) = 2"

lemma in_int_sint [simp]: "in_int (sint (w :: 32 word))"
  using sint_greater_eq [of w] sint_less [of w] by (simp add: in_int_def)

interpretation entries: byte_encoding entry_wf entry_bytes bytes_entry sizeof_DirectoryEntry
proof
  fix e :: DirectoryEntry
  assume e: "entry_wf e"
  then show "length (entry_bytes e) = sizeof_DirectoryEntry"
    by (simp add: entry_bytes_def entry_wf_def sizeof_DirectoryEntry_def FileNameMaxLen_def)
  from e obtain p1 p2 p3 where p: "de_pad1 e = [p1, p2, p3]"
    by (auto simp: entry_wf_def numeral_3_eq_3 length_Suc_conv)
  then show "bytes_entry (entry_bytes e) = e"
    using e by (auto simp: entry_bytes_def bytes_entry_def entry_wf_def c_char_def FileNameMaxLen_def
        int_bytes_def sint_of_int_in_int intro!: DirectoryEntry.equality)
next
  fix bs :: "byte list"
  assume "length bs = sizeof_DirectoryEntry"
  then show "entry_wf (bytes_entry bs)"
    by (simp add: entry_wf_def bytes_entry_def sizeof_DirectoryEntry_def FileNameMaxLen_def)
qed

section \<open>Consistency of a disk\<close>

definition stored_header :: "Disk \<Rightarrow> nat \<Rightarrow> FileHeader" where
  "stored_header d n = (let xs = bytes_ints (NumDirect + 2) (sector d n) in
     \<lparr>numBytes = xs ! 0, numSectors = xs ! 1, dataSectors = drop 2 xs\<rparr>)"

abbreviation map_hdr :: "Disk \<Rightarrow> FileHeader" where "map_hdr d \<equiv> stored_header d FreeMapSector"
abbreviation dir_hdr :: "Disk \<Rightarrow> FileHeader" where "dir_hdr d \<equiv> stored_header d DirectorySector"

definition fs_entries :: "Disk \<Rightarrow> DirectoryEntry list" where
  "fs_entries d = dec_array bytes_entry sizeof_DirectoryEntry NumDirEntries (file_bytes d (dir_hdr d))"

definition fs_map :: "Disk \<Rightarrow> BitMap" where
  "fs_map d = \<lparr>numBits = NumSectors, numWords = NumSectors div BitsInWord, numItems = NumSectors,
     bm_map = dec_array bytes_word 4 (NumSectors div BitsInWord) (file_bytes d (map_hdr d))\<rparr>"

definition entry_header :: "Disk \<Rightarrow> DirectoryEntry \<Rightarrow> FileHeader" where
  "entry_header d e = stored_header d (nat (de_sector e))"

definition entry_sectors :: "Disk \<Rightarrow> DirectoryEntry \<Rightarrow> nat list" where
  "entry_sectors d e = nat (de_sector e) # file_sectors (entry_header d e)"

definition system_sectors :: "Disk \<Rightarrow> nat list" where
  "system_sectors d = FreeMapSector # DirectorySector # file_sectors (map_hdr d) @ file_sectors (dir_hdr d)"

definition listed_sectors :: "Disk \<Rightarrow> DirectoryEntry list \<Rightarrow> nat list" where
  "listed_sectors d es = concat (map (entry_sectors d) (filter inUse es))"

definition listed_names :: "DirectoryEntry list \<Rightarrow> (byte list) list" where
  "listed_names es = map (\<lambda>e. name_key (de_name e)) (filter inUse es)"

definition entry_ok :: "Disk \<Rightarrow> DirectoryEntry \<Rightarrow> bool" where
  "entry_ok d e \<longleftrightarrow> 0 \<le> de_sector e \<and> de_sector e < int NumSectors \<and> hdr_ok (entry_header d e)"

definition disk_fs_ok :: "Disk \<Rightarrow> bool" where
  "disk_fs_ok d \<longleftrightarrow> disk_ok d
     \<and> hdr_ok (map_hdr d) \<and> numBytes (map_hdr d) = int FreeMapFileSize
     \<and> hdr_ok (dir_hdr d) \<and> numBytes (dir_hdr d) = int DirectoryFileSize
     \<and> (\<forall>e \<in> set (filter inUse (fs_entries d)). entry_ok d e)
     \<and> distinct (system_sectors d @ listed_sectors d (fs_entries d))
     \<and> marked (fs_map d) = set (system_sectors d @ listed_sectors d (fs_entries d))
     \<and> distinct (listed_names (fs_entries d))"

definition fs_ok :: "FileSystem \<Rightarrow> bool" where
  "fs_ok fs \<longleftrightarrow> disk_fs_ok (fs_disk fs) \<and> of_hdr (freeMapFile fs) = map_hdr (fs_disk fs)
     \<and> of_hdr (directoryFile fs) = dir_hdr (fs_disk fs)"

definition files_of :: "Disk \<Rightarrow> DirectoryEntry list \<Rightarrow> byte list \<rightharpoonup> byte list" where
  "files_of d es = map_of (map (\<lambda>e. (name_key (de_name e), file_bytes d (entry_header d e))) (filter inUse es))"

definition fs_files :: "FileSystem \<Rightarrow> byte list \<rightharpoonup> byte list" where
  "fs_files fs = files_of (fs_disk fs) (fs_entries (fs_disk fs))"

definition fresh_ok :: "fresh_memory \<Rightarrow> bool" where
  "fresh_ok mem \<longleftrightarrow> length (fm_words mem) = NumSectors div BitsInWord
     \<and> length (fm_entries mem) = NumDirEntries \<and> list_all entry_wf (fm_entries mem)
     \<and> header_storable (fm_header mem) \<and> header_storable (fm_header2 mem)"

lemmas fs_sizes = FreeMapSector_def DirectorySector_def FreeMapFileSize_def NumDirEntries_def DirectoryFileSize_def
  sizeof_DirectoryEntry_def BitsInWord_def BitsInByte_def disk_sizes NumDirect_def

lemma marked_bounded: "marked bm \<subseteq> {..<numBits bm}"
  by (auto simp: marked_def)

subsection \<open>Headers\<close>

lemma bytes_ints_in_int: "list_all in_int (bytes_ints n bs)"
  by (induction n arbitrary: bs) auto

lemma stored_header_storable: "header_storable (stored_header d n)"
proof -
  have "list_all in_int (bytes_ints (NumDirect + 2) (sector d n))" by (rule bytes_ints_in_int)
  then have "\<forall>i < NumDirect + 2. in_int (bytes_ints (NumDirect + 2) (sector d n) ! i)" by (simp add: list_all_length)
  then show ?thesis
    by (simp add: header_storable_def stored_header_def Let_def list_all_length)
qed

lemma FetchFrom_stored:
  assumes "disk_ok d" "n < NumSectors"
  shows "FileHeader_FetchFrom d (int n) = Inr (stored_header d n)"
proof -
  let ?xs = "bytes_ints (NumDirect + 2) (sector d n)"
  obtain a b c where "?xs = a # b # c"
    using length_bytes_ints [of "NumDirect + 2" "sector d n"] by (metis Suc_length_conv add_2_eq_Suc')
  then show ?thesis using assms
    by (simp add: FileHeader_FetchFrom_def SynchDisk_ReadSector_ok stored_header_def Let_def)
qed

lemma stored_header_bytes:
  assumes "disk_ok d" "n < NumSectors" "header_storable h" "sector d n = header_bytes h"
  shows "stored_header d n = h"
  using FetchFrom_stored [OF assms(1,2)] FileHeader_FetchFrom_ok [OF assms] by simp

lemma stored_header_cong: "sector d' n = sector d n \<Longrightarrow> stored_header d' n = stored_header d n"
  by (simp add: stored_header_def)

lemma file_bytes_cong: "(\<And>m. m \<in> set (file_sectors h) \<Longrightarrow> sector d' m = sector d m) \<Longrightarrow> file_bytes d' h = file_bytes d h"
  unfolding file_bytes_def file_image_def by (metis (mono_tags, lifting) map_cong)

subsection \<open>Tables\<close>

lemma first_index_cases:
  obtains (none) "first_index P es i = -1" "\<forall>e \<in> set es. \<not> P e"
  | (found) xs e ys where "first_index P es i = i + int (length xs)" "es = xs @ e # ys" "P e" "\<forall>x \<in> set xs. \<not> P x"
proof (induction es arbitrary: i thesis)
  case Nil
  then show ?case by simp
next
  case (Cons e es)
  show ?case
  proof (cases "P e")
    case True
    then show ?thesis using Cons.prems(2) [of "[]" e es] by simp
  next
    case False
    show ?thesis
    proof (rule Cons.IH [of "i + 1"])
      assume "first_index P es (i + 1) = -1" "\<forall>e \<in> set es. \<not> P e"
      then show ?thesis using Cons.prems(1) False by simp
    next
      fix xs e' ys
      assume "first_index P es (i + 1) = i + 1 + int (length xs)" "es = xs @ e' # ys" "P e'" "\<forall>x \<in> set xs. \<not> P x"
      then show ?thesis using Cons.prems(2) [of "e # xs" e' ys] False by simp
    qed
  qed
qed

lemma listed_simps [simp]:
  "listed_sectors d (xs @ ys) = listed_sectors d xs @ listed_sectors d ys"
  "listed_sectors d (e # ys) = (if inUse e then entry_sectors d e else []) @ listed_sectors d ys"
  "listed_sectors d [] = []"
  "listed_names (xs @ ys) = listed_names xs @ listed_names ys"
  "listed_names (e # ys) = (if inUse e then [name_key (de_name e)] else []) @ listed_names ys"
  "listed_names [] = []"
  by (simp_all add: listed_sectors_def listed_names_def)

lemma files_of_dom: "files_of d es k = None \<longleftrightarrow> k \<notin> set (listed_names es)"
  by (auto simp: files_of_def listed_names_def map_of_eq_None_iff image_image)

lemma files_of_mid:
  "inUse e \<Longrightarrow> name_key (de_name e) \<notin> set (listed_names xs) \<Longrightarrow>
   files_of d (xs @ e # ys) = (files_of d (xs @ ys))(name_key (de_name e) \<mapsto> file_bytes d (entry_header d e))"
  using files_of_dom [of d xs "name_key (de_name e)"]
  by (auto simp: files_of_def fun_eq_iff map_add_def split: option.split)

lemma files_of_free: "\<not> inUse e \<Longrightarrow> files_of d (xs @ e # ys) = files_of d (xs @ ys)"
  by (simp add: files_of_def)

lemma files_of_cong:
  "(\<And>e. e \<in> set es \<Longrightarrow> inUse e \<Longrightarrow> file_bytes d' (entry_header d' e) = file_bytes d (entry_header d e)) \<Longrightarrow>
   files_of d' es = files_of d es"
  unfolding files_of_def by (rule arg_cong [where f = map_of]) auto

lemma listed_sectors_cong:
  "(\<And>e. e \<in> set es \<Longrightarrow> inUse e \<Longrightarrow> entry_header d' e = entry_header d e) \<Longrightarrow> listed_sectors d' es = listed_sectors d es"
  unfolding listed_sectors_def entry_sectors_def by (rule arg_cong [where f = concat]) auto

lemma entry_sectors_listed: "e \<in> set es \<Longrightarrow> inUse e \<Longrightarrow> set (entry_sectors d e) \<subseteq> set (listed_sectors d es)"
  by (auto simp: listed_sectors_def)

subsection \<open>Fetching and writing back the two system files\<close>

lemma write_whole_file:
  assumes "disk_ok d" "hdr_ok (of_hdr f)" "numBytes (of_hdr f) = int (length bs)" "bs \<noteq> []" "in_int (int (length bs))"
  shows "\<exists>d'. OpenFile_WriteAt junk d f bs (int (length bs)) 0 = Inr (int (length bs), d') \<and> disk_ok d'
    \<and> file_bytes d' (of_hdr f) = bs \<and> (\<forall>m. m \<notin> set (file_sectors (of_hdr f)) \<longrightarrow> sector d' m = sector d m)"
proof -
  have "length (file_bytes d (of_hdr f)) = length bs" using length_file_bytes [OF assms(1,2)] assms(3) by simp
  then show ?thesis
    using OpenFile_WriteAt_ok [OF assms(1,2), of 0 "int (length bs)" bs junk] assms(3-5) by (simp add: overlay_def)
qed

lemma overlay_all: "length bs = length buf \<Longrightarrow> overlay buf 0 bs = bs"
  by (simp add: overlay_def)

lemma fs_entries_props:
  assumes "disk_fs_ok d"
  shows "length (fs_entries d) = NumDirEntries" "\<forall>e \<in> set (fs_entries d). entry_wf e"
proof -
  have "length (file_bytes d (dir_hdr d)) = DirectoryFileSize"
    using assms by (simp add: disk_fs_ok_def length_file_bytes)
  then show "\<forall>e \<in> set (fs_entries d). entry_wf e" unfolding fs_entries_def
    by (intro entries.dec_array_wf) (simp add: fs_sizes)
qed (simp add: fs_entries_def entries.length_dec_array)

lemma fs_map_wf: "BitMap_wf (fs_map d)" "numBits (fs_map d) = NumSectors" "numWords (fs_map d) = NumSectors div BitsInWord"
  by (simp_all add: BitMap_wf_def fs_map_def words.length_dec_array divRoundUp_def fs_sizes)

lemma fetch_directory:
  assumes "fs_ok fs" "fresh_ok mem"
  shows "Directory_FetchFrom (Directory_Directory (fm_entries mem) NumDirEntries) (fs_disk fs) (directoryFile fs)
    = Inr \<lparr>tableSize = NumDirEntries, dir_table = fs_entries (fs_disk fs)\<rparr>"
proof -
  let ?d = "fs_disk fs"
  let ?buf = "enc_array entry_bytes (map (\<lambda>e. e\<lparr>inUse := False\<rparr>) (fm_entries mem))"
  have ok: "disk_ok ?d" "hdr_ok (of_hdr (directoryFile fs))" "of_hdr (directoryFile fs) = dir_hdr ?d"
      "numBytes (dir_hdr ?d) = int DirectoryFileSize"
    using assms(1) by (auto simp: fs_ok_def disk_fs_ok_def)
  have l: "length (file_bytes ?d (dir_hdr ?d)) = DirectoryFileSize" using ok by (simp add: length_file_bytes)
  have "length ?buf = DirectoryFileSize"
    using assms(2) entries.length_enc_array [of "map (\<lambda>e. e\<lparr>inUse := False\<rparr>) (fm_entries mem)"]
    by (auto simp: fresh_ok_def list_all_iff entry_wf_def DirectoryFileSize_def)
  then have "overlay ?buf 0 (file_bytes ?d (dir_hdr ?d)) = file_bytes ?d (dir_hdr ?d)" using l by (simp add: overlay_all)
  moreover have "OpenFile_ReadAt ?d (directoryFile fs) (int (NumDirEntries * sizeof_DirectoryEntry)) 0
      = Inr (file_bytes ?d (dir_hdr ?d))"
    using OpenFile_ReadAt_ok [OF ok(1,2), of 0 "int (NumDirEntries * sizeof_DirectoryEntry)"] ok l
    by (simp add: fs_sizes in_int_def)
  ultimately show ?thesis
    unfolding Directory_FetchFrom_def Directory_Directory_def by (simp add: fs_entries_def)
qed

lemma fetch_free_map:
  assumes "fs_ok fs" "fresh_ok mem"
  obtains bm where "BitMap_BitMap (fm_words mem) NumSectors = Inr bm"
    "BitMap_FetchFrom bm (fs_disk fs) (freeMapFile fs) = Inr (fs_map (fs_disk fs))"
proof -
  let ?d = "fs_disk fs"
  have "length (fm_words mem) = divRoundUp NumSectors BitsInWord"
    using assms(2) by (simp add: fresh_ok_def divRoundUp_def fs_sizes)
  then obtain bm where bm: "BitMap_BitMap (fm_words mem) NumSectors = Inr bm" "BitMap_wf bm" "numBits bm = NumSectors"
      "numItems bm = NumSectors"
    by (rule BitMap_BitMap_ok)
  then have nw: "numWords bm = NumSectors div BitsInWord" "length (bm_map bm) = NumSectors div BitsInWord"
    by (simp_all add: BitMap_wf_def divRoundUp_def fs_sizes)
  have ok: "disk_ok ?d" "hdr_ok (of_hdr (freeMapFile fs))" "of_hdr (freeMapFile fs) = map_hdr ?d"
      "numBytes (map_hdr ?d) = int FreeMapFileSize"
    using assms(1) by (auto simp: fs_ok_def disk_fs_ok_def)
  have l: "length (file_bytes ?d (map_hdr ?d)) = FreeMapFileSize" using ok by (simp add: length_file_bytes)
  have "length (enc_array word_bytes (bm_map bm)) = FreeMapFileSize"
    using words.length_enc_array [of "bm_map bm"] nw by (simp add: fs_sizes)
  then have "overlay (enc_array word_bytes (bm_map bm)) 0 (file_bytes ?d (map_hdr ?d)) = file_bytes ?d (map_hdr ?d)"
    using l by (simp add: overlay_all)
  moreover have "OpenFile_ReadAt ?d (freeMapFile fs) (int (numWords bm * 4)) 0 = Inr (file_bytes ?d (map_hdr ?d))"
    using OpenFile_ReadAt_ok [OF ok(1,2), of 0 "int (numWords bm * 4)"] ok l nw by (simp add: fs_sizes in_int_def)
  ultimately have "BitMap_FetchFrom bm ?d (freeMapFile fs) = Inr (fs_map ?d)"
    using nw bm by (simp add: BitMap_FetchFrom_def fs_map_def)
  then show ?thesis using bm(1) that by blast
qed


definition sys_ok :: "Disk \<Rightarrow> bool" where
  "sys_ok d \<longleftrightarrow> disk_ok d \<and> hdr_ok (map_hdr d) \<and> numBytes (map_hdr d) = int FreeMapFileSize
     \<and> hdr_ok (dir_hdr d) \<and> numBytes (dir_hdr d) = int DirectoryFileSize \<and> distinct (system_sectors d)"

lemma disk_fs_ok_alt:
  "disk_fs_ok d \<longleftrightarrow> sys_ok d \<and> (\<forall>e \<in> set (filter inUse (fs_entries d)). entry_ok d e)
     \<and> distinct (system_sectors d @ listed_sectors d (fs_entries d))
     \<and> marked (fs_map d) = set (system_sectors d @ listed_sectors d (fs_entries d))
     \<and> distinct (listed_names (fs_entries d))"
  by (auto simp: disk_fs_ok_def sys_ok_def)

lemma Directory_WriteBack_ok:
  assumes "disk_ok d" "hdr_ok (of_hdr f)" "numBytes (of_hdr f) = int DirectoryFileSize"
    "length es = NumDirEntries" "\<forall>e \<in> set es. entry_wf e"
  shows "\<exists>d'. Directory_WriteBack junk \<lparr>tableSize = NumDirEntries, dir_table = es\<rparr> d f = Inr d' \<and> disk_ok d'
    \<and> file_bytes d' (of_hdr f) = enc_array entry_bytes es \<and> (\<forall>m. m \<notin> set (file_sectors (of_hdr f)) \<longrightarrow> sector d' m = sector d m)"
proof -
  have l: "length (enc_array entry_bytes es) = 200" "NumDirEntries * sizeof_DirectoryEntry = 200"
    using entries.length_enc_array [OF assms(5)] assms(4) by (simp_all add: fs_sizes)
  moreover have "enc_array entry_bytes es \<noteq> []" using l by auto
  ultimately show ?thesis
    using write_whole_file [OF assms(1,2), of "enc_array entry_bytes es" junk] assms(3)
    by (auto simp: Directory_WriteBack_def fs_sizes in_int_def)
qed

lemma BitMap_WriteBack_ok:
  assumes "disk_ok d" "hdr_ok (of_hdr f)" "numBytes (of_hdr f) = int FreeMapFileSize" "BitMap_wf bm" "numBits bm = NumSectors"
  shows "\<exists>d'. BitMap_WriteBack junk bm d f = Inr d' \<and> disk_ok d'
    \<and> file_bytes d' (of_hdr f) = enc_array word_bytes (bm_map bm)
    \<and> (\<forall>m. m \<notin> set (file_sectors (of_hdr f)) \<longrightarrow> sector d' m = sector d m)"
proof -
  have l: "numWords bm * 4 = 128" "length (bm_map bm) = 32"
    using assms(4,5) by (simp_all add: BitMap_wf_def divRoundUp_def fs_sizes)
  then have l': "length (enc_array word_bytes (bm_map bm)) = 128" using words.length_enc_array [of "bm_map bm"] by simp
  moreover have "enc_array word_bytes (bm_map bm) \<noteq> []" using l' by auto
  ultimately show ?thesis
    using write_whole_file [OF assms(1,2), of "enc_array word_bytes (bm_map bm)" junk] assms(3) l
    by (auto simp: BitMap_WriteBack_def fs_sizes in_int_def)
qed

lemma marked_fs_map:
  assumes "file_bytes d (map_hdr d) = enc_array word_bytes (bm_map bm)" "BitMap_wf bm" "numBits bm = NumSectors"
  shows "marked (fs_map d) = marked bm"
proof -
  have "length (bm_map bm) = NumSectors div BitsInWord" using assms(2,3) by (simp add: BitMap_wf_def divRoundUp_def fs_sizes)
  then have "bm_map (fs_map d) = bm_map bm"
    using words.dec_enc_array [of "bm_map bm" "[]"] assms(1) by (simp add: fs_map_def)
  then show ?thesis using assms(3) by (simp add: marked_def fs_map_wf)
qed

text \<open>What the two write-backs of an operation leave on the disk, in either order.\<close>

definition flushed :: "Disk \<Rightarrow> Disk \<Rightarrow> DirectoryEntry list \<Rightarrow> BitMap \<Rightarrow> bool" where
  "flushed d d' es bm \<longleftrightarrow> disk_ok d' \<and> map_hdr d' = map_hdr d \<and> dir_hdr d' = dir_hdr d \<and> fs_entries d' = es
     \<and> marked (fs_map d') = marked bm \<and> (\<forall>m. m \<notin> set (system_sectors d) \<longrightarrow> sector d' m = sector d m)"

lemma flushedI:
  assumes "sys_ok d" "disk_ok d'" "length es = NumDirEntries" "\<forall>e \<in> set es. entry_wf e" "BitMap_wf bm" "numBits bm = NumSectors"
    "file_bytes d' (dir_hdr d) = enc_array entry_bytes es" "file_bytes d' (map_hdr d) = enc_array word_bytes (bm_map bm)"
    "\<forall>m. m \<notin> set (file_sectors (map_hdr d)) \<union> set (file_sectors (dir_hdr d)) \<longrightarrow> sector d' m = sector d m"
  shows "flushed d d' es bm"
proof -
  have h: "map_hdr d' = map_hdr d" "dir_hdr d' = dir_hdr d"
    using assms(1,9) by (auto simp: sys_ok_def system_sectors_def intro!: stored_header_cong)
  have "fs_entries d' = es"
    using entries.dec_enc_array [OF assms(4), of "[]"] assms(3,7) h by (simp add: fs_entries_def)
  moreover have "marked (fs_map d') = marked bm" using marked_fs_map [of d' bm] assms(5,6,8) h by simp
  ultimately show ?thesis using assms(2,9) h by (simp add: flushed_def system_sectors_def)
qed

lemma flush_ok:
  assumes "sys_ok d" "of_hdr mf = map_hdr d" "of_hdr df = dir_hdr d"
    and es: "length es = NumDirEntries" "\<forall>e \<in> set es. entry_wf e" and bm: "BitMap_wf bm" "numBits bm = NumSectors"
  shows "\<exists>d1 d2. Directory_WriteBack junk \<lparr>tableSize = NumDirEntries, dir_table = es\<rparr> d df = Inr d1
      \<and> BitMap_WriteBack junk bm d1 mf = Inr d2 \<and> flushed d d2 es bm" (is ?dir_first)
    and "\<exists>d1 d2. BitMap_WriteBack junk bm d mf = Inr d1
      \<and> Directory_WriteBack junk \<lparr>tableSize = NumDirEntries, dir_table = es\<rparr> d1 df = Inr d2 \<and> flushed d d2 es bm" (is ?map_first)
proof -
  note sys = assms(1) [unfolded sys_ok_def]
  have dis: "set (file_sectors (map_hdr d)) \<inter> set (file_sectors (dir_hdr d)) = {}"
    using sys by (simp add: system_sectors_def)
  note dir = Directory_WriteBack_ok [of _ df es junk, unfolded assms(3), OF _ _ _ es]
  note map = BitMap_WriteBack_ok [of _ mf bm junk, unfolded assms(2), OF _ _ _ bm]
  obtain d1 where d1: "Directory_WriteBack junk \<lparr>tableSize = NumDirEntries, dir_table = es\<rparr> d df = Inr d1" "disk_ok d1"
      "file_bytes d1 (dir_hdr d) = enc_array entry_bytes es" "\<forall>m. m \<notin> set (file_sectors (dir_hdr d)) \<longrightarrow> sector d1 m = sector d m"
    using dir [of d] sys by blast
  obtain d2 where d2: "BitMap_WriteBack junk bm d1 mf = Inr d2" "disk_ok d2"
      "file_bytes d2 (map_hdr d) = enc_array word_bytes (bm_map bm)"
      "\<forall>m. m \<notin> set (file_sectors (map_hdr d)) \<longrightarrow> sector d2 m = sector d1 m"
    using map [of d1] d1 sys by blast
  have "file_bytes d2 (dir_hdr d) = file_bytes d1 (dir_hdr d)" using d2(4) dis by (intro file_bytes_cong) blast
  then have "flushed d d2 es bm"
    using d1 d2 by (intro flushedI [OF assms(1) d2(2) es bm]) auto
  then show ?dir_first using d1 d2 by blast
  obtain d1 where d1: "BitMap_WriteBack junk bm d mf = Inr d1" "disk_ok d1"
      "file_bytes d1 (map_hdr d) = enc_array word_bytes (bm_map bm)"
      "\<forall>m. m \<notin> set (file_sectors (map_hdr d)) \<longrightarrow> sector d1 m = sector d m"
    using map [of d] sys by blast
  obtain d2 where d2: "Directory_WriteBack junk \<lparr>tableSize = NumDirEntries, dir_table = es\<rparr> d1 df = Inr d2" "disk_ok d2"
      "file_bytes d2 (dir_hdr d) = enc_array entry_bytes es" "\<forall>m. m \<notin> set (file_sectors (dir_hdr d)) \<longrightarrow> sector d2 m = sector d1 m"
    using dir [of d1] d1 sys by blast
  have "file_bytes d2 (map_hdr d) = file_bytes d1 (map_hdr d)" using d2(4) dis by (intro file_bytes_cong) blast
  then have "flushed d d2 es bm"
    using d1 d2 by (intro flushedI [OF assms(1) d2(2) es bm]) auto
  then show ?map_first using d1 d2 by blast
qed

lemma flushed_fs:
  assumes "sys_ok d" "flushed d d' es bm" "\<forall>e \<in> set (filter inUse es). entry_ok d e"
    "distinct (system_sectors d @ listed_sectors d es)" "marked bm = set (system_sectors d @ listed_sectors d es)"
    "distinct (listed_names es)"
  shows "disk_fs_ok d'" "files_of d' (fs_entries d') = files_of d es" "map_hdr d' = map_hdr d" "dir_hdr d' = dir_hdr d"
proof -
  note fl = assms(2) [unfolded flushed_def]
  show h: "map_hdr d' = map_hdr d" "dir_hdr d' = dir_hdr d" using fl by auto
  have same: "sector d' m = sector d m" if "e \<in> set es" "inUse e" "m \<in> set (entry_sectors d e)" for e m
    using fl entry_sectors_listed [OF that(1,2), of d] that(3) assms(4) unfolding distinct_append by blast
  have hd: "entry_header d' e = entry_header d e" if "e \<in> set es" "inUse e" for e
    unfolding entry_header_def by (rule stored_header_cong, rule same [OF that]) (simp add: entry_sectors_def)
  have "file_bytes d' (entry_header d' e) = file_bytes d (entry_header d e)" if "e \<in> set es" "inUse e" for e
    unfolding hd [OF that] by (rule file_bytes_cong, rule same [OF that]) (simp add: entry_sectors_def)
  then show "files_of d' (fs_entries d') = files_of d es" using fl by (auto intro: files_of_cong)
  have "listed_sectors d' es = listed_sectors d es" by (rule listed_sectors_cong) (rule hd)
  moreover have "system_sectors d' = system_sectors d" using h by (simp add: system_sectors_def)
  moreover have "sys_ok d'" using assms(1) fl calculation(2) by (simp add: sys_ok_def)
  ultimately show "disk_fs_ok d'"
    using assms fl hd by (auto simp: disk_fs_ok_alt entry_ok_def)
qed


subsection \<open>Looking up a name\<close>

lemma find_entry_cases:
  obtains (absent) "name_key name \<notin> set (listed_names es)"
      "Directory_FindIndex \<lparr>tableSize = n, dir_table = es\<rparr> name = -1" "Directory_Find \<lparr>tableSize = n, dir_table = es\<rparr> name = -1"
  | (present) xs e ys where "es = xs @ e # ys" "inUse e" "name_key (de_name e) = name_key name"
      "name_key name \<notin> set (listed_names xs)" "Directory_FindIndex \<lparr>tableSize = n, dir_table = es\<rparr> name = int (length xs)"
      "Directory_Find \<lparr>tableSize = n, dir_table = es\<rparr> name = de_sector e"
proof (rule first_index_cases [of "entry_matches name" es 0])
  assume "first_index (entry_matches name) es 0 = -1" "\<forall>e \<in> set es. \<not> entry_matches name e"
  then show ?thesis
    by (intro absent) (auto simp: Directory_FindIndex_def Directory_Find_def Let_def listed_names_def entry_matches_key)
next
  fix xs e ys
  assume a: "first_index (entry_matches name) es 0 = 0 + int (length xs)" "es = xs @ e # ys" "entry_matches name e"
    "\<forall>x \<in> set xs. \<not> entry_matches name x"
  then have "name_key name \<notin> set (listed_names xs)" by (auto simp: listed_names_def entry_matches_key)
  then show ?thesis
    using a by (intro present [of xs e ys])
      (simp_all add: Directory_FindIndex_def Directory_Find_def Let_def entry_matches_key)
qed

lemma used_entry:
  assumes "disk_fs_ok d" "e \<in> set (fs_entries d)" "inUse e"
  shows "0 \<le> de_sector e" "nat (de_sector e) < NumSectors" "hdr_ok (entry_header d e)"
    "FileHeader_FetchFrom d (de_sector e) = Inr (entry_header d e)"
proof -
  have e: "entry_ok d e" "disk_ok d" using assms by (auto simp: disk_fs_ok_def)
  then show "0 \<le> de_sector e" "nat (de_sector e) < NumSectors" "hdr_ok (entry_header d e)"
    by (auto simp: entry_ok_def)
  then show "FileHeader_FetchFrom d (de_sector e) = Inr (entry_header d e)"
    using FetchFrom_stored [OF e(2), of "nat (de_sector e)"] by (simp add: entry_header_def)
qed

lemma FileSystem_Open_ok:
  assumes "fs_ok fs" "fresh_ok mem"
  shows "\<exists>r. FileSystem_Open mem fs name = Inr r \<and>
    (case r of None \<Rightarrow> fs_files fs (name_key name) = None
     | Some f \<Rightarrow> hdr_ok (of_hdr f) \<and> seekPosition f = 0 \<and> fs_files fs (name_key name) = Some (file_bytes (fs_disk fs) (of_hdr f)))"
proof -
  let ?d = "fs_disk fs"
  have ok: "disk_fs_ok ?d" using assms(1) by (simp add: fs_ok_def)
  show ?thesis
  proof (rule find_entry_cases [of name "fs_entries ?d" NumDirEntries])
    assume "name_key name \<notin> set (listed_names (fs_entries ?d))"
      "Directory_Find \<lparr>tableSize = NumDirEntries, dir_table = fs_entries ?d\<rparr> name = -1"
    then show ?thesis
      by (simp add: FileSystem_Open_def fetch_directory [OF assms] fs_files_def files_of_dom)
  next
    fix xs e ys
    assume e: "fs_entries ?d = xs @ e # ys" "inUse e" "name_key (de_name e) = name_key name"
      "name_key name \<notin> set (listed_names xs)"
      "Directory_Find \<lparr>tableSize = NumDirEntries, dir_table = fs_entries ?d\<rparr> name = de_sector e"
    have "fs_files fs (name_key name) = Some (file_bytes ?d (entry_header ?d e))"
      using files_of_mid [of e xs ?d ys] e by (simp add: fs_files_def)
    then show ?thesis
      using used_entry [OF ok, of e] e
      by (simp add: FileSystem_Open_def fetch_directory [OF assms] OpenFile_OpenFile_def)
  qed
qed

subsection \<open>Removing a file\<close>

lemma FileSystem_Remove_ok:
  assumes "fs_ok fs" "fresh_ok mem"
  shows "\<exists>fs'. FileSystem_Remove mem fs name = Inr (fs_files fs (name_key name) \<noteq> None, fs') \<and> fs_ok fs'
    \<and> fs_files fs' = (fs_files fs)(name_key name := None)"
proof -
  let ?d = "fs_disk fs"
  have ok: "disk_fs_ok ?d" and sys: "sys_ok ?d" and hdrs: "of_hdr (freeMapFile fs) = map_hdr ?d" "of_hdr (directoryFile fs) = dir_hdr ?d"
    using assms(1) by (auto simp: fs_ok_def disk_fs_ok_alt)
  note ok' = ok [unfolded disk_fs_ok_alt]
  show ?thesis
  proof (rule find_entry_cases [of name "fs_entries ?d" NumDirEntries])
    assume "name_key name \<notin> set (listed_names (fs_entries ?d))"
      "Directory_Find \<lparr>tableSize = NumDirEntries, dir_table = fs_entries ?d\<rparr> name = -1"
    then show ?thesis using assms(1)
      by (simp add: FileSystem_Remove_def fetch_directory [OF assms] fs_files_def files_of_dom fun_upd_idem)
  next
    fix xs e ys
    assume e: "fs_entries ?d = xs @ e # ys" "inUse e" "name_key (de_name e) = name_key name"
      "name_key name \<notin> set (listed_names xs)" "Directory_FindIndex \<lparr>tableSize = NumDirEntries, dir_table = fs_entries ?d\<rparr> name = int (length xs)"
      "Directory_Find \<lparr>tableSize = NumDirEntries, dir_table = fs_entries ?d\<rparr> name = de_sector e"
    let ?e = "e\<lparr>inUse := False\<rparr>" and ?k = "nat (de_sector e)" and ?h = "entry_header ?d e"
    let ?es = "xs @ ?e # ys"
    note u = used_entry [OF ok, of e, unfolded e(1), simplified, OF e(2)]
    obtain bm0 where bm0: "BitMap_BitMap (fm_words mem) NumSectors = Inr bm0"
        "BitMap_FetchFrom bm0 ?d (freeMapFile fs) = Inr (fs_map ?d)"
      using fetch_free_map [OF assms] .
    have lay: "distinct (system_sectors ?d @ listed_sectors ?d xs @ entry_sectors ?d e @ listed_sectors ?d ys)"
        "marked (fs_map ?d) = set (system_sectors ?d @ listed_sectors ?d xs @ entry_sectors ?d e @ listed_sectors ?d ys)"
      using ok' e(1,2) by simp_all
    have "set (file_sectors ?h) \<subseteq> marked (fs_map ?d)" using lay(2) by (auto simp: entry_sectors_def)
    then obtain bm1 where bm1: "FileHeader_Deallocate ?h (fs_map ?d) = Inr bm1" "BitMap_wf bm1" "numBits bm1 = NumSectors"
        "marked bm1 = marked (fs_map ?d) - set (file_sectors ?h)"
      using FileHeader_Deallocate_ok [OF u(3) fs_map_wf(1)] fs_map_wf(2) by metis
    obtain bm2 where bm2: "BitMap_Clear bm1 (int ?k) = Inr bm2" "BitMap_wf bm2" "numBits bm2 = NumSectors"
        "marked bm2 = marked bm1 - {?k}"
      using BitMap_Clear_ok [OF bm1(2), of ?k] u(2) bm1(3) by metis
    have m2: "marked bm2 = set (system_sectors ?d @ listed_sectors ?d ?es)"
      using lay by (auto simp: bm2(4) bm1(4) entry_sectors_def)
    have es: "length ?es = NumDirEntries" "\<forall>e \<in> set ?es. entry_wf e"
      using fs_entries_props [OF ok] e(1) by (auto simp: entry_wf_def)
    obtain d1 d2 where d: "BitMap_WriteBack (fm_buffer mem) bm2 ?d (freeMapFile fs) = Inr d1"
        "Directory_WriteBack (fm_buffer mem) \<lparr>tableSize = NumDirEntries, dir_table = ?es\<rparr> d1 (directoryFile fs) = Inr d2"
        "flushed ?d d2 ?es bm2"
      using flush_ok(2) [OF sys hdrs es bm2(2,3)] by metis
    have "FileSystem_Remove mem fs name = Inr (True, fs\<lparr>fs_disk := d2\<rparr>)"
      using u e(5,6) bm0 bm1(1) bm2(1) d(1,2)
      by (simp add: FileSystem_Remove_def fetch_directory [OF assms] Directory_Remove_def Let_def e(1) list_update_append nth_append)
    moreover have "\<forall>e \<in> set (filter inUse ?es). entry_ok ?d e" using ok' e(1) by auto
    moreover have "distinct (system_sectors ?d @ listed_sectors ?d ?es)" using lay(1) by auto
    moreover have "distinct (listed_names ?es)" using ok' e(1) by auto
    ultimately have "FileSystem_Remove mem fs name = Inr (True, fs\<lparr>fs_disk := d2\<rparr>)" "fs_ok (fs\<lparr>fs_disk := d2\<rparr>)"
        "fs_files (fs\<lparr>fs_disk := d2\<rparr>) = files_of ?d ?es"
      using flushed_fs [OF sys d(3) _ _ m2] hdrs by (simp_all add: fs_ok_def fs_files_def)
    moreover have "name_key name \<notin> set (listed_names (xs @ ys))" using ok' e(1-4) by auto
    then have "files_of ?d ?es = (fs_files fs)(name_key name := None)" "fs_files fs (name_key name) \<noteq> None"
      using files_of_mid [of e xs ?d ys] files_of_free [of ?e ?d xs ys] e files_of_dom [of ?d "xs @ ys" "name_key name"]
      by (simp_all add: fs_files_def fun_upd_idem)
    ultimately show ?thesis by auto
  qed
qed


subsection \<open>Creating a file\<close>

text \<open>A header made by \<open>Allocate\<close> can be written to disk: the entries it did not fill are still integers.\<close>

lemma Allocate_storable:
  assumes "header_storable h" "hdr_ok h'" "divRoundUp sz SectorSize \<le> NumDirect" "numBytes h' = int sz"
    "\<forall>i \<ge> divRoundUp sz SectorSize. i < NumDirect \<longrightarrow> dataSectors h' ! i = dataSectors h ! i"
  shows "header_storable h'"
proof -
  let ?k = "divRoundUp sz SectorSize"
  have l: "length (dataSectors h') = NumDirect" "numSectors h' = int ?k" using assms(2,4) by (simp_all add: hdr_ok_def)
  have "in_int (dataSectors h' ! i)" if i: "i < NumDirect" for i
  proof (cases "i < ?k")
    case True
    then have "dataSectors h' ! i \<in> set (take ?k (dataSectors h'))" using i l(1) by (auto simp: in_set_conv_nth)
    then have "0 \<le> dataSectors h' ! i \<and> dataSectors h' ! i < int NumSectors" using assms(2) l(2) by (auto simp: hdr_ok_def)
    then show ?thesis by (auto simp: in_int_def disk_sizes)
  next
    case False
    then show ?thesis using assms(1,5) i by (auto simp: header_storable_def list_all_iff)
  qed
  moreover have "int sz \<le> 3840"
  proof -
    have "sz \<le> ?k * SectorSize" using file_sectors_props(4) [OF assms(2)] assms(4) l(2) by simp
    also have "\<dots> \<le> NumDirect * SectorSize" using assms(3) by simp
    finally show ?thesis by (simp add: fs_sizes)
  qed
  moreover have "?k \<le> 30" using assms(3) by (simp add: fs_sizes)
  ultimately show ?thesis
    using l assms(4) by (auto simp: header_storable_def list_all_iff in_set_conv_nth in_int_def)
qed

lemma stored_header_set_sector:
  assumes "disk_ok d" "k < NumSectors" "header_storable h"
  shows "stored_header (set_sector d k (header_bytes h)) n = (if n = k then h else stored_header d n)"
  using assms stored_header_bytes [of "set_sector d k (header_bytes h)" k h]
  by (auto simp: sector_set_sector length_header_bytes intro: stored_header_cong)

lemma file_bytes_set_sector:
  assumes "disk_ok d" "k < NumSectors" "header_storable h" "k \<notin> set (file_sectors h')"
  shows "file_bytes (set_sector d k (header_bytes h)) h' = file_bytes d h'"
  using assms by (intro file_bytes_cong) (auto simp: sector_set_sector length_header_bytes)

lemma sys_ok_set_sector:
  assumes "sys_ok d" "k < NumSectors" "header_storable h" "k \<notin> set (system_sectors d)"
  shows "sys_ok (set_sector d k (header_bytes h))" "map_hdr (set_sector d k (header_bytes h)) = map_hdr d"
    "dir_hdr (set_sector d k (header_bytes h)) = dir_hdr d" "system_sectors (set_sector d k (header_bytes h)) = system_sectors d"
proof -
  have "disk_ok d" "k \<noteq> FreeMapSector" "k \<noteq> DirectorySector" using assms by (auto simp: sys_ok_def system_sectors_def)
  then show h: "map_hdr (set_sector d k (header_bytes h)) = map_hdr d" "dir_hdr (set_sector d k (header_bytes h)) = dir_hdr d"
    using assms by (simp_all add: stored_header_set_sector)
  then show "system_sectors (set_sector d k (header_bytes h)) = system_sectors d" by (simp add: system_sectors_def)
  then show "sys_ok (set_sector d k (header_bytes h))" using assms h \<open>disk_ok d\<close> by (simp add: sys_ok_def length_header_bytes)
qed

text \<open>Writing a new file's header to a free sector and adding its entry keeps the disk consistent.\<close>

lemma add_file:
  assumes ok: "disk_fs_ok d" and es: "fs_entries d = xs @ e0 # ys" "\<not> inUse e0"
    and k: "k < NumSectors" "k \<notin> marked (fs_map d)"
    and h: "header_storable h" "hdr_ok h" "set (file_sectors h) \<inter> insert k (marked (fs_map d)) = {}"
    and e: "inUse e" "de_sector e = int k" "name_key (de_name e) \<notin> set (listed_names (fs_entries d))"
    and bm: "marked bm = insert k (marked (fs_map d)) \<union> set (file_sectors h)"
    and d': "flushed (set_sector d k (header_bytes h)) d' (xs @ e # ys) bm"
  shows "disk_fs_ok d'" "map_hdr d' = map_hdr d" "dir_hdr d' = dir_hdr d"
    "files_of d' (fs_entries d') = (files_of d (fs_entries d))(name_key (de_name e) \<mapsto> file_bytes d h)"
proof -
  let ?d = "set_sector d k (header_bytes h)"
  have sys: "sys_ok d" using ok by (simp add: disk_fs_ok_alt)
  then have dk: "disk_ok d" by (simp add: sys_ok_def)
  have mk: "marked (fs_map d) = set (system_sectors d) \<union> set (listed_sectors d xs) \<union> set (listed_sectors d ys)"
    using ok es by (auto simp: disk_fs_ok_alt)
  have ks: "k \<notin> set (system_sectors d)" using k mk by auto
  note sys' = sys_ok_set_sector [OF sys k(1) h(1) ks]
  have hd: "entry_header ?d x = entry_header d x \<and> file_bytes ?d (entry_header d x) = file_bytes d (entry_header d x)"
    if "x \<in> set (xs @ ys)" "inUse x" for x
  proof -
    have "set (entry_sectors d x) \<subseteq> marked (fs_map d)"
      using that mk entry_sectors_listed [of x xs d] entry_sectors_listed [of x ys d] by auto
    then have "nat (de_sector x) \<noteq> k" "k \<notin> set (file_sectors (entry_header d x))"
      using k(2) by (auto simp: entry_sectors_def)
    then show ?thesis
      using dk k(1) h(1) by (simp add: entry_header_def stored_header_set_sector file_bytes_set_sector)
  qed
  have he: "entry_header ?d e = h" "entry_sectors ?d e = k # file_sectors h"
    using dk k(1) h(1) e(2) by (simp_all add: entry_header_def entry_sectors_def stored_header_set_sector)
  have ls: "listed_sectors ?d xs = listed_sectors d xs" "listed_sectors ?d ys = listed_sectors d ys"
    using hd by (auto intro!: listed_sectors_cong)
  have "\<forall>x \<in> set (filter inUse (xs @ e # ys)). entry_ok ?d x"
    using ok es hd he(1) h(2) k(1) e(2) by (auto simp: disk_fs_ok_def entry_ok_def)
  moreover have "distinct (system_sectors ?d @ listed_sectors ?d (xs @ e # ys))"
    using ok es h(3) k(2) e(1) mk file_sectors_props(5) [OF h(2)] by (auto simp: disk_fs_ok_alt sys' ls he)
  moreover have "marked bm = set (system_sectors ?d @ listed_sectors ?d (xs @ e # ys))"
    using e(1) by (auto simp: bm mk sys' ls he)
  moreover have nm: "distinct (listed_names (xs @ e # ys))" using ok es e(1,3) by (auto simp: disk_fs_ok_alt)
  ultimately have "disk_fs_ok d' \<and> files_of d' (fs_entries d') = files_of ?d (xs @ e # ys)
      \<and> map_hdr d' = map_hdr ?d \<and> dir_hdr d' = dir_hdr ?d"
    using flushed_fs [OF sys'(1) d'] by blast
  moreover have "files_of ?d (xs @ e # ys) = (files_of d (fs_entries d))(name_key (de_name e) \<mapsto> file_bytes d h)"
  proof -
    have "files_of ?d (xs @ ys) = files_of d (xs @ ys)" by (rule files_of_cong) (use hd in auto)
    moreover have "file_bytes ?d h = file_bytes d h" using h(3) by (intro file_bytes_set_sector [OF dk k(1) h(1)]) auto
    ultimately show ?thesis
      using files_of_mid [OF e(1), of xs ?d ys] e(3) by (simp add: es files_of_free he)
  qed
  ultimately show "disk_fs_ok d'" "map_hdr d' = map_hdr d" "dir_hdr d' = dir_hdr d"
    "files_of d' (fs_entries d') = (files_of d (fs_entries d))(name_key (de_name e) \<mapsto> file_bytes d h)"
    using sys' by simp_all
qed


text \<open>The conditions under which the comment of \<open>Create\<close> promises success.\<close>

definition create_succeeds :: "FileSystem \<Rightarrow> byte list \<Rightarrow> nat \<Rightarrow> bool" where
  "create_succeeds fs name sz \<longleftrightarrow> fs_files fs (name_key name) = None \<and> (\<exists>e \<in> set (fs_entries (fs_disk fs)). \<not> inUse e)
     \<and> divRoundUp sz SectorSize < card (clear_bits (fs_map (fs_disk fs)))"

lemma find_free_sector:
  assumes "clear_bits (fs_map d) \<noteq> {}"
  shows "\<exists>k bm. BitMap_Find (fs_map d) = Inr (int k, bm) \<and> BitMap_wf bm \<and> numBits bm = NumSectors
    \<and> marked bm = insert k (marked (fs_map d)) \<and> k < NumSectors \<and> k \<notin> marked (fs_map d)
    \<and> card (clear_bits (fs_map d)) = Suc (card (clear_bits bm))"
proof -
  let ?free = "clear_bits (fs_map d)" and ?k = "Min (clear_bits (fs_map d))"
  have k: "?k \<in> ?free" using assms by simp
  obtain bm where bm: "BitMap_Find (fs_map d) = Inr (int ?k, bm)" "BitMap_wf bm" "numBits bm = NumSectors"
      "marked bm = insert ?k (marked (fs_map d))"
    using BitMap_Find_ok [OF fs_map_wf(1) assms] fs_map_wf(2) by metis
  have "clear_bits bm = ?free - {?k}" using bm(3,4) by (auto simp: clear_bits_def fs_map_wf)
  then have "card ?free = Suc (card (clear_bits bm))" using card.remove [OF finite_marked(2) k] by simp
  moreover have "?k < NumSectors" "?k \<notin> marked (fs_map d)" using k clear_bits_def [of "fs_map d"] fs_map_wf(2) by auto
  ultimately show ?thesis using bm by blast
qed

text \<open>The last steps of \<open>Create\<close>: allocate the data sectors and write everything back.\<close>

lemma Create_flush:
  assumes fs: "fs_ok fs" and mem: "fresh_ok mem" and sz: "divRoundUp sz SectorSize \<le> NumDirect"
    and s: "fs_entries (fs_disk fs) = xs @ e0 # ys" "\<not> inUse e0"
    and k: "k < NumSectors" "k \<notin> marked (fs_map (fs_disk fs))"
    and bm1: "BitMap_wf bm1" "numBits bm1 = NumSectors" "marked bm1 = insert k (marked (fs_map (fs_disk fs)))"
    and room: "divRoundUp sz SectorSize \<le> card (clear_bits bm1)"
    and e: "entry_wf e" "inUse e" "de_sector e = int k" "name_key (de_name e) \<notin> set (listed_names (fs_entries (fs_disk fs)))"
  shows "\<exists>h bm2 d0 d1 d2. FileHeader_Allocate (fm_header mem) bm1 (int sz) = Inr (True, h, bm2)
    \<and> FileHeader_WriteBack h (fs_disk fs) (int k) = Inr d0
    \<and> Directory_WriteBack (fm_buffer mem) \<lparr>tableSize = NumDirEntries, dir_table = xs @ e # ys\<rparr> d0 (directoryFile fs) = Inr d1
    \<and> BitMap_WriteBack (fm_buffer mem) bm2 d1 (freeMapFile fs) = Inr d2
    \<and> fs_ok (fs\<lparr>fs_disk := d2\<rparr>)
    \<and> (\<exists>c. length c = sz \<and> fs_files (fs\<lparr>fs_disk := d2\<rparr>) = (fs_files fs)(name_key (de_name e) \<mapsto> c))"
proof -
  let ?d = "fs_disk fs" and ?n = "divRoundUp sz SectorSize"
  have ok: "disk_fs_ok ?d" and hdrs: "of_hdr (freeMapFile fs) = map_hdr ?d" "of_hdr (directoryFile fs) = dir_hdr ?d"
    using fs by (auto simp: fs_ok_def)
  have sys: "sys_ok ?d" and dk: "disk_ok ?d" using ok by (auto simp: disk_fs_ok_alt sys_ok_def)
  have fm: "header_storable (fm_header mem)" "length (dataSectors (fm_header mem)) = NumDirect"
    using mem by (auto simp: fresh_ok_def header_storable_def)
  obtain h bm2 where h: "FileHeader_Allocate (fm_header mem) bm1 (int sz) = Inr (True, h, bm2)" "hdr_ok h" "numBytes h = int sz"
      "BitMap_wf bm2" "numBits bm2 = NumSectors" "set (file_sectors h) \<subseteq> clear_bits bm1"
      "clear_bits bm2 = clear_bits bm1 - set (file_sectors h)"
      "\<forall>i \<ge> ?n. i < NumDirect \<longrightarrow> dataSectors h ! i = dataSectors (fm_header mem) ! i"
    using FileHeader_Allocate_ok [OF bm1(1,2) fm(2) sz room] by metis
  have hs: "header_storable h" using Allocate_storable [OF fm(1) h(2) sz h(3,8)] .
  let ?dh = "set_sector ?d k (header_bytes h)"
  have m2: "marked bm2 = insert k (marked (fs_map ?d)) \<union> set (file_sectors h)"
    using h(5,6,7) bm1(2,3) marked_bounded [of bm2] marked_bounded [of bm1] by (auto simp: clear_bits_def)
  have dis: "set (file_sectors h) \<inter> insert k (marked (fs_map ?d)) = {}"
    using h(6) bm1(3) by (auto simp: clear_bits_def)
  have "k \<notin> set (system_sectors ?d)" using k ok by (auto simp: disk_fs_ok_alt)
  note sys0 = sys_ok_set_sector [OF sys k(1) hs this]
  have ew: "length (xs @ e # ys) = NumDirEntries" "\<forall>e \<in> set (xs @ e # ys). entry_wf e"
    using fs_entries_props [OF ok] s(1) e(1) by auto
  obtain d1 d2 where d: "Directory_WriteBack (fm_buffer mem) \<lparr>tableSize = NumDirEntries, dir_table = xs @ e # ys\<rparr> ?dh (directoryFile fs) = Inr d1"
      "BitMap_WriteBack (fm_buffer mem) bm2 d1 (freeMapFile fs) = Inr d2" "flushed ?dh d2 (xs @ e # ys) bm2"
    using flush_ok(1) [OF sys0(1) _ _ ew h(4,5), of "freeMapFile fs" "directoryFile fs"] hdrs sys0(2,3) by metis
  note f = add_file [OF ok s k hs h(2) dis e(2-4) m2 d(3)]
  have "fs_ok (fs\<lparr>fs_disk := d2\<rparr>)" using f(1-3) hdrs by (simp add: fs_ok_def)
  moreover have "fs_files (fs\<lparr>fs_disk := d2\<rparr>) = (fs_files fs)(name_key (de_name e) \<mapsto> file_bytes ?d h)"
    using f(4) by (simp add: fs_files_def)
  moreover have "length (file_bytes ?d h) = sz" using length_file_bytes [OF dk h(2)] h(3) by simp
  ultimately show ?thesis using h(1) FileHeader_WriteBack_ok [OF dk k(1) hs] d(1,2) by blast
qed

lemma FileSystem_Create_ok:
  assumes "fs_ok fs" "fresh_ok mem" and sz: "divRoundUp sz SectorSize \<le> NumDirect"
  shows "\<exists>fs'. FileSystem_Create mem fs name (int sz) = Inr (create_succeeds fs name sz, fs')
    \<and> (if create_succeeds fs name sz
       then fs_ok fs' \<and> (\<exists>c. length c = sz \<and> fs_files fs' = (fs_files fs)(name_key name \<mapsto> c)) else fs' = fs)"
proof -
  let ?d = "fs_disk fs" and ?free = "clear_bits (fs_map (fs_disk fs))"
  let ?dir = "\<lparr>tableSize = NumDirEntries, dir_table = fs_entries ?d\<rparr>"
  have ok: "disk_fs_ok ?d" using assms(1) by (auto simp: fs_ok_def)
  obtain bm0 where bm0: "BitMap_BitMap (fm_words mem) NumSectors = Inr bm0"
      "BitMap_FetchFrom bm0 ?d (freeMapFile fs) = Inr (fs_map ?d)"
    using fetch_free_map [OF assms(1,2)] .
  note fetch = FileSystem_Create_def fetch_directory [OF assms(1,2)] bm0
  consider (exists) "fs_files fs (name_key name) \<noteq> None" | (full) "fs_files fs (name_key name) = None" "?free = {}"
    | (new) "fs_files fs (name_key name) = None" "?free \<noteq> {}" by blast
  then show ?thesis
  proof cases
    case exists
    then have "name_key name \<in> set (listed_names (fs_entries ?d))" by (simp add: fs_files_def files_of_dom)
    then have "Directory_Find ?dir name \<noteq> -1"
      using used_entry(1) [OF ok] by (cases rule: find_entry_cases [of name "fs_entries ?d" NumDirEntries]) fastforce+
    then show ?thesis using exists by (auto simp: fetch create_succeeds_def)
  next
    case full
    then have "Directory_Find ?dir name = -1"
      by (cases rule: find_entry_cases [of name "fs_entries ?d" NumDirEntries]) (auto simp: fs_files_def files_of_dom)
    then show ?thesis using full(2) by (simp add: fetch BitMap_Find_full create_succeeds_def)
  next
    case new
    then have nm: "name_key name \<notin> set (listed_names (fs_entries ?d))" by (simp add: fs_files_def files_of_dom)
    then have nf: "Directory_Find ?dir name = -1" "Directory_FindIndex ?dir name = -1"
      by (cases rule: find_entry_cases [of name "fs_entries ?d" NumDirEntries]; simp)+
    obtain k bm1 where bm1: "BitMap_Find (fs_map ?d) = Inr (int k, bm1)" "BitMap_wf bm1" "numBits bm1 = NumSectors"
        "marked bm1 = insert k (marked (fs_map ?d))" "k < NumSectors" "k \<notin> marked (fs_map ?d)"
        "card ?free = Suc (card (clear_bits bm1))"
      using find_free_sector [OF new(2)] by blast
    show ?thesis
    proof (rule first_index_cases [of "\<lambda>e. \<not> inUse e" "fs_entries ?d" 0])
      assume "first_index (\<lambda>e. \<not> inUse e) (fs_entries ?d) 0 = -1" "\<forall>e \<in> set (fs_entries ?d). \<not> \<not> inUse e"
      then show ?thesis by (auto simp: fetch nf bm1(1) Directory_Add_def create_succeeds_def)
    next
      fix xs e0 ys
      assume s: "first_index (\<lambda>e. \<not> inUse e) (fs_entries ?d) 0 = 0 + int (length xs)"
        "fs_entries ?d = xs @ e0 # ys" "\<not> inUse e0"
      define e where "e = e0\<lparr>inUse := True, de_name := strncpy (de_name e0) name FileNameMaxLen, de_sector := int k\<rparr>"
      have add: "Directory_Add ?dir name (int k) = (True, \<lparr>tableSize = NumDirEntries, dir_table = xs @ e # ys\<rparr>)"
        using s nf by (simp add: Directory_Add_def e_def list_update_append nth_append)
      have ee: "entry_wf e" "inUse e" "de_sector e = int k" "name_key (de_name e) = name_key name"
        using fs_entries_props [OF ok] s(2) bm1(5)
        by (auto simp: entry_wf_def e_def length_strncpy name_key_strncpy in_int_def disk_sizes)
      have succ: "create_succeeds fs name sz \<longleftrightarrow> divRoundUp sz SectorSize \<le> card (clear_bits bm1)"
        unfolding create_succeeds_def using new(1) s(2,3) bm1(7) by auto
      show ?thesis
      proof (cases "create_succeeds fs name sz")
        case True
        then show ?thesis
          using Create_flush [OF assms s(2,3) bm1(5,6) bm1(2-4) _ ee(1-3)] nm ee(4) succ
          by (auto simp: fetch nf bm1(1) add)
      next
        case False
        then have "card (clear_bits bm1) < divRoundUp sz SectorSize" using succ by simp
        from FileHeader_Allocate_no_space [OF this, of "fm_header mem"]
        show ?thesis using False by (auto simp: fetch nf bm1(1) add)
      qed
    qed
  qed
qed


subsection \<open>Formatting and mounting\<close>

lemma marked_clear: "numBits bm = NumSectors \<Longrightarrow> marked bm = {..<NumSectors} - clear_bits bm"
  using marked_bounded [of bm] by (auto simp: clear_bits_def)

lemma card_clear: "numBits bm = NumSectors \<Longrightarrow> card (clear_bits bm) = NumSectors - card (marked bm)"
proof -
  assume "numBits bm = NumSectors"
  then have "clear_bits bm = {..<NumSectors} - marked bm" "marked bm \<subseteq> {..<NumSectors}"
    using marked_bounded [of bm] by (auto simp: clear_bits_def)
  then show ?thesis by (simp add: card_Diff_subset)
qed

text \<open>The first half of formatting: the sectors of the two system files are set aside.\<close>

lemma format_allocate:
  assumes "fresh_ok mem"
  shows "\<exists>bm0 bm1 bm2 mh bm3 dh bm. BitMap_BitMap (fm_words mem) NumSectors = Inr bm0
    \<and> BitMap_Mark bm0 (int FreeMapSector) = Inr bm1 \<and> BitMap_Mark bm1 (int DirectorySector) = Inr bm2
    \<and> FileHeader_Allocate (fm_header mem) bm2 (int FreeMapFileSize) = Inr (True, mh, bm3)
    \<and> FileHeader_Allocate (fm_header2 mem) bm3 (int DirectoryFileSize) = Inr (True, dh, bm)
    \<and> hdr_ok mh \<and> header_storable mh \<and> numBytes mh = int FreeMapFileSize
    \<and> hdr_ok dh \<and> header_storable dh \<and> numBytes dh = int DirectoryFileSize
    \<and> distinct (FreeMapSector # DirectorySector # file_sectors mh @ file_sectors dh)
    \<and> marked bm = set (FreeMapSector # DirectorySector # file_sectors mh @ file_sectors dh)
    \<and> BitMap_wf bm \<and> numBits bm = NumSectors"
proof -
  have nd: "divRoundUp FreeMapFileSize SectorSize \<le> NumDirect" "divRoundUp DirectoryFileSize SectorSize \<le> NumDirect"
    "divRoundUp FreeMapFileSize SectorSize = 1" "divRoundUp DirectoryFileSize SectorSize = 2"
    by (simp_all add: divRoundUp_def fs_sizes)
  have "length (fm_words mem) = divRoundUp NumSectors BitsInWord"
    using assms by (simp add: fresh_ok_def divRoundUp_def fs_sizes)
  then obtain bm0 where bm0: "BitMap_BitMap (fm_words mem) NumSectors = Inr bm0" "BitMap_wf bm0" "numBits bm0 = NumSectors"
      "marked bm0 = {}"
    by (rule BitMap_BitMap_ok)
  have lt: "FreeMapSector < NumSectors" "DirectorySector < NumSectors" by (simp_all add: fs_sizes)
  obtain bm1 where bm1: "BitMap_Mark bm0 (int FreeMapSector) = Inr bm1" "BitMap_wf bm1" "numBits bm1 = NumSectors"
      "marked bm1 = {FreeMapSector}"
    using BitMap_Mark_ok [OF bm0(2), of FreeMapSector] lt bm0(3,4) by metis
  obtain bm2 where bm2: "BitMap_Mark bm1 (int DirectorySector) = Inr bm2" "BitMap_wf bm2" "numBits bm2 = NumSectors"
      "marked bm2 = {DirectorySector, FreeMapSector}"
    using BitMap_Mark_ok [OF bm1(2), of DirectorySector] lt bm1(3,4) by metis
  have fm: "header_storable (fm_header mem)" "length (dataSectors (fm_header mem)) = NumDirect"
      "header_storable (fm_header2 mem)" "length (dataSectors (fm_header2 mem)) = NumDirect"
    using assms by (auto simp: fresh_ok_def header_storable_def)
  have "card (clear_bits bm2) = 1022" using card_clear [OF bm2(3)] by (simp add: bm2(4) fs_sizes)
  then obtain mh bm3 where mh: "FileHeader_Allocate (fm_header mem) bm2 (int FreeMapFileSize) = Inr (True, mh, bm3)" "hdr_ok mh"
      "numBytes mh = int FreeMapFileSize" "BitMap_wf bm3" "numBits bm3 = NumSectors" "set (file_sectors mh) \<subseteq> clear_bits bm2"
      "clear_bits bm3 = clear_bits bm2 - set (file_sectors mh)"
      "\<forall>i \<ge> divRoundUp FreeMapFileSize SectorSize. i < NumDirect \<longrightarrow> dataSectors mh ! i = dataSectors (fm_header mem) ! i"
    using FileHeader_Allocate_ok [OF bm2(2,3) fm(2) nd(1)] nd(3) by (metis one_le_numeral)
  have "length (file_sectors mh) = 1" using file_sectors_props(1) [OF mh(2)] mh(2,3) nd(3) by (simp add: hdr_ok_def)
  then have "card (clear_bits bm3) = 1021"
    using mh(6) \<open>card (clear_bits bm2) = 1022\<close> distinct_card [OF file_sectors_props(5) [OF mh(2)]]
    by (simp add: mh(7) card_Diff_subset)
  then obtain dh bm where dh: "FileHeader_Allocate (fm_header2 mem) bm3 (int DirectoryFileSize) = Inr (True, dh, bm)" "hdr_ok dh"
      "numBytes dh = int DirectoryFileSize" "BitMap_wf bm" "numBits bm = NumSectors" "set (file_sectors dh) \<subseteq> clear_bits bm3"
      "clear_bits bm = clear_bits bm3 - set (file_sectors dh)"
      "\<forall>i \<ge> divRoundUp DirectoryFileSize SectorSize. i < NumDirect \<longrightarrow> dataSectors dh ! i = dataSectors (fm_header2 mem) ! i"
    using FileHeader_Allocate_ok [OF mh(4,5) fm(4) nd(2)] nd(4) by (metis numeral_le_iff semiring_norm(68) semiring_norm(69) semiring_norm(72))
  have st: "header_storable mh" "header_storable dh"
    using Allocate_storable [OF fm(1) mh(2) nd(1) mh(3,8)] Allocate_storable [OF fm(3) dh(2) nd(2) dh(3,8)] .
  have cl: "clear_bits bm2 = {..<NumSectors} - {FreeMapSector, DirectorySector}"
    using bm2(3,4) by (auto simp: clear_bits_def)
  have "distinct (FreeMapSector # DirectorySector # file_sectors mh @ file_sectors dh)"
    using mh(6,7) dh(6) cl file_sectors_props(5) [OF mh(2)] file_sectors_props(5) [OF dh(2)]
    by (auto simp: FreeMapSector_def DirectorySector_def)
  moreover have "marked bm = set (FreeMapSector # DirectorySector # file_sectors mh @ file_sectors dh)"
    using mh(6,7) dh(6,7) cl lt unfolding marked_clear [OF dh(5)] by auto
  ultimately show ?thesis using bm0(1) bm1(1) bm2(1) mh(1,2,3) dh(1-5) st by blast
qed

lemma FileSystem_format_ok:
  assumes "disk_ok d" "fresh_ok mem"
  shows "\<exists>fs. FileSystem_FileSystem mem True d = Inr fs \<and> fs_ok fs \<and> fs_files fs = Map.empty"
proof -
  obtain bm0 bm1 bm2 mh bm3 dh bm where a: "BitMap_BitMap (fm_words mem) NumSectors = Inr bm0"
      "BitMap_Mark bm0 (int FreeMapSector) = Inr bm1" "BitMap_Mark bm1 (int DirectorySector) = Inr bm2"
      "FileHeader_Allocate (fm_header mem) bm2 (int FreeMapFileSize) = Inr (True, mh, bm3)"
      "FileHeader_Allocate (fm_header2 mem) bm3 (int DirectoryFileSize) = Inr (True, dh, bm)"
    and h: "hdr_ok mh" "header_storable mh" "numBytes mh = int FreeMapFileSize"
      "hdr_ok dh" "header_storable dh" "numBytes dh = int DirectoryFileSize"
      "distinct (FreeMapSector # DirectorySector # file_sectors mh @ file_sectors dh)"
      "marked bm = set (FreeMapSector # DirectorySector # file_sectors mh @ file_sectors dh)"
    and bm: "BitMap_wf bm" "numBits bm = NumSectors"
    using format_allocate [OF assms(2)] by metis
  have lt: "FreeMapSector < NumSectors" "DirectorySector < NumSectors" "FreeMapSector \<noteq> DirectorySector" by (simp_all add: fs_sizes)
  let ?dm = "set_sector d FreeMapSector (header_bytes mh)"
  let ?dd = "set_sector ?dm DirectorySector (header_bytes dh)"
  have ok: "disk_ok ?dm" "disk_ok ?dd" using assms(1) lt h by (simp_all add: length_header_bytes)
  have w: "FileHeader_WriteBack mh d (int FreeMapSector) = Inr ?dm" "FileHeader_WriteBack dh ?dm (int DirectorySector) = Inr ?dd"
    using FileHeader_WriteBack_ok [OF assms(1) lt(1) h(2)] FileHeader_WriteBack_ok [OF ok(1) lt(2) h(5)] .
  have hs: "map_hdr ?dd = mh" "dir_hdr ?dd = dh"
    using stored_header_set_sector [OF ok(1) lt(2) h(5)] stored_header_set_sector [OF assms(1) lt(1) h(2)] lt(3) by simp_all
  then have sys: "sys_ok ?dd" "system_sectors ?dd = FreeMapSector # DirectorySector # file_sectors mh @ file_sectors dh"
    using ok h by (simp_all add: sys_ok_def system_sectors_def)
  let ?es = "map (\<lambda>e. e\<lparr>inUse := False\<rparr>) (fm_entries mem)"
  let ?mf = "\<lparr>of_hdr = mh, seekPosition = 0\<rparr>" and ?df = "\<lparr>of_hdr = dh, seekPosition = 0\<rparr>"
  have es: "length ?es = NumDirEntries" "\<forall>e \<in> set ?es. entry_wf e"
    using assms(2) by (auto simp: fresh_ok_def list_all_iff entry_wf_def)
  have un: "filter inUse ?es = []" by (simp add: filter_empty_conv)
  obtain d1 d2 where d: "BitMap_WriteBack (fm_buffer mem) bm ?dd ?mf = Inr d1"
      "Directory_WriteBack (fm_buffer mem) \<lparr>tableSize = NumDirEntries, dir_table = ?es\<rparr> d1 ?df = Inr d2" "flushed ?dd d2 ?es bm"
    using flush_ok(2) [OF sys(1) _ _ es bm, of ?mf ?df "fm_buffer mem"] hs by auto
  have "disk_fs_ok d2" "files_of d2 (fs_entries d2) = files_of ?dd ?es" "map_hdr d2 = mh" "dir_hdr d2 = dh"
    using flushed_fs [OF sys(1) d(3)] un h(7,8) hs sys(2) by (simp_all add: listed_sectors_def listed_names_def)
  moreover have "files_of ?dd ?es = Map.empty" by (simp add: files_of_def un)
  moreover have "FileSystem_FileSystem mem True d = Inr \<lparr>freeMapFile = ?mf, directoryFile = ?df, fs_disk = d2\<rparr>"
    using a w d(1,2) hs lt FetchFrom_stored [OF ok(2)]
    by (simp add: FileSystem_FileSystem_def OpenFile_OpenFile_def Directory_Directory_def)
  ultimately show ?thesis by (simp add: fs_ok_def fs_files_def)
qed

lemma FileSystem_mount_ok:
  assumes "disk_fs_ok d"
  shows "\<exists>fs. FileSystem_FileSystem mem False d = Inr fs \<and> fs_ok fs \<and> fs_disk fs = d"
proof -
  have "disk_ok d" "FreeMapSector < NumSectors" "DirectorySector < NumSectors"
    using assms by (simp_all add: disk_fs_ok_def fs_sizes)
  then show ?thesis
    using assms by (simp add: FileSystem_FileSystem_def OpenFile_OpenFile_def FetchFrom_stored fs_ok_def)
qed

subsection \<open>Writing to a file\<close>

lemma write_data_fs:
  assumes ok: "disk_fs_ok d" and e: "fs_entries d = xs @ e # ys" "inUse e"
    and d': "disk_ok d'" "\<forall>m. m \<notin> set (file_sectors (entry_header d e)) \<longrightarrow> sector d' m = sector d m"
  shows "disk_fs_ok d'" "map_hdr d' = map_hdr d" "dir_hdr d' = dir_hdr d"
    "files_of d' (fs_entries d') = (files_of d (fs_entries d))(name_key (de_name e) \<mapsto> file_bytes d' (entry_header d e))"
proof -
  have lay: "distinct (system_sectors d @ listed_sectors d xs @ entry_sectors d e @ listed_sectors d ys)"
    using ok e by (simp add: disk_fs_ok_alt)
  have sys: "sector d' m = sector d m" if "m \<in> set (system_sectors d)" for m
    using lay that d'(2) by (auto simp: entry_sectors_def)
  show h: "map_hdr d' = map_hdr d" "dir_hdr d' = dir_hdr d"
    using sys by (auto simp: system_sectors_def intro!: stored_header_cong)
  have fb: "file_bytes d' (map_hdr d) = file_bytes d (map_hdr d)" "file_bytes d' (dir_hdr d) = file_bytes d (dir_hdr d)"
    using sys by (auto simp: system_sectors_def intro!: file_bytes_cong)
  then have m: "fs_entries d' = fs_entries d" "fs_map d' = fs_map d" using h by (simp_all add: fs_entries_def fs_map_def)
  have other: "sector d' m = sector d m" if "x \<in> set (xs @ ys)" "inUse x" "m \<in> set (entry_sectors d x)" for x m
    using lay that d'(2) entry_sectors_listed [of x xs d] entry_sectors_listed [of x ys d] by (auto simp: entry_sectors_def)
  have hd: "entry_header d' x = entry_header d x" if "x \<in> set (fs_entries d)" "inUse x" for x
    unfolding entry_header_def
  proof (rule stored_header_cong, cases "x = e")
    case True
    then show "sector d' (nat (de_sector x)) = sector d (nat (de_sector x))"
      using lay d'(2) by (auto simp: entry_sectors_def)
  next
    case False
    then show "sector d' (nat (de_sector x)) = sector d (nat (de_sector x))"
      using other [of x] that e(1) by (auto simp: entry_sectors_def)
  qed
  have "listed_sectors d' (fs_entries d) = listed_sectors d (fs_entries d)" by (rule listed_sectors_cong) (rule hd)
  then show "disk_fs_ok d'"
    using ok d'(1) hd by (auto simp: disk_fs_ok_def h m system_sectors_def entry_ok_def)
  have "files_of d' (xs @ ys) = files_of d (xs @ ys)"
    using e(1) other by (intro files_of_cong) (auto simp: hd entry_sectors_def intro!: file_bytes_cong)
  moreover have "name_key (de_name e) \<notin> set (listed_names xs)" using ok e by (auto simp: disk_fs_ok_def)
  ultimately show "files_of d' (fs_entries d') = (files_of d (fs_entries d))(name_key (de_name e) \<mapsto> file_bytes d' (entry_header d e))"
    using hd [of e] e by (simp add: m files_of_mid)
qed

section \<open>The abstract file system\<close>

lemma FileHeader_Allocate_overflow:
  assumes "length (dataSectors h) = NumDirect" "NumDirect < divRoundUp sz SectorSize" "divRoundUp sz SectorSize \<le> card (clear_bits bm)"
  shows "FileHeader_Allocate h bm (int sz) = Inl OutOfBounds"
  using assms by (simp add: FileHeader_Allocate_def Let_def divRoundUp_int_nat BitMap_NumClear_ok)

lemma FileSystem_Open_entry:
  assumes "fs_ok fs" "fresh_ok mem" "FileSystem_Open mem fs name = Inr (Some f)"
  obtains xs e ys where "fs_entries (fs_disk fs) = xs @ e # ys" "inUse e" "name_key (de_name e) = name_key name"
    "of_hdr f = entry_header (fs_disk fs) e" "hdr_ok (of_hdr f)"
proof -
  have ok: "disk_fs_ok (fs_disk fs)" using assms(1) by (simp add: fs_ok_def)
  show ?thesis
  proof (cases rule: find_entry_cases [of name "fs_entries (fs_disk fs)" NumDirEntries])
    case absent
    then show ?thesis using assms(3) by (simp add: FileSystem_Open_def fetch_directory [OF assms(1,2)])
  next
    case (present xs e ys)
    then have "of_hdr f = entry_header (fs_disk fs) e"
      using assms(3) used_entry [OF ok, of e]
      by (auto simp: FileSystem_Open_def fetch_directory [OF assms(1,2)] OpenFile_OpenFile_def)
    then show ?thesis using that [of xs e ys] present used_entry(3) [OF ok, of e] by simp
  qed
qed

lemma FileSystem_Write_ok:
  assumes "fs_ok fs" "fresh_ok mem" "FileSystem_Open mem fs name = Inr (Some f)" "fs_files fs (name_key name) = Some c"
    "0 \<le> position" "position < int (length c)" "0 < nbytes" "in_int (position + nbytes)" "nat nbytes \<le> length frm"
  defines "n \<equiv> min (nat nbytes) (length c - nat position)"
  shows "\<exists>d'. OpenFile_WriteAt junk (fs_disk fs) f frm nbytes position = Inr (int n, d') \<and> fs_ok (fs\<lparr>fs_disk := d'\<rparr>)
    \<and> fs_files (fs\<lparr>fs_disk := d'\<rparr>) = (fs_files fs)(name_key name \<mapsto> overlay c (nat position) (take n frm))"
proof -
  let ?d = "fs_disk fs"
  have ok: "disk_fs_ok ?d" "disk_ok ?d" using assms(1) by (auto simp: fs_ok_def disk_fs_ok_def)
  obtain xs e ys where e: "fs_entries ?d = xs @ e # ys" "inUse e" "name_key (de_name e) = name_key name"
      "of_hdr f = entry_header ?d e" "hdr_ok (of_hdr f)"
    using FileSystem_Open_entry [OF assms(1-3)] .
  have c: "c = file_bytes ?d (of_hdr f)" using FileSystem_Open_ok [OF assms(1,2), of name] assms(3,4) by auto
  then have lc: "length c = nat (numBytes (of_hdr f))" using length_file_bytes [OF ok(2) e(5)] by simp
  then have "n = min (nat nbytes) (nat (numBytes (of_hdr f) - position))"
    using assms(5,6) by (simp add: n_def nat_diff_distrib)
  moreover have "position < numBytes (of_hdr f)" using assms(5,6) lc by (auto split: if_splits)
  ultimately obtain d' where d': "OpenFile_WriteAt junk ?d f frm nbytes position = Inr (int n, d')" "disk_ok d'"
      "file_bytes d' (of_hdr f) = overlay c (nat position) (take n frm)"
      "\<forall>m. m \<notin> set (file_sectors (of_hdr f)) \<longrightarrow> sector d' m = sector ?d m"
    using OpenFile_WriteAt_ok [OF ok(2) e(5) assms(5,8,7) _ assms(9), of junk] c by auto
  note w = write_data_fs [OF ok(1) e(1,2) d'(2), folded e(4), OF d'(4)]
  show ?thesis using w d'(1,3) assms(1) e(3) by (auto simp: fs_ok_def fs_files_def)
qed

text \<open>What users of the file system may rely on, as a transition relation on the map from names to contents.\<close>

datatype fs_call = CallCreate "byte list" nat | CallRemove "byte list" | CallWrite "byte list" "byte list" int

inductive file_spec :: "fs_call \<Rightarrow> (byte list \<rightharpoonup> byte list) \<Rightarrow> (byte list \<rightharpoonup> byte list) \<Rightarrow> bool" where
  created: "files (name_key name) = None \<Longrightarrow> length c = sz \<Longrightarrow>
    file_spec (CallCreate name sz) files (files(name_key name \<mapsto> c))"
| not_created: "file_spec (CallCreate name sz) files files"
| removed: "file_spec (CallRemove name) files (files(name_key name := None))"
| written: "files (name_key name) = Some c \<Longrightarrow> 0 \<le> position \<Longrightarrow> n = min (length frm) (length c - nat position) \<Longrightarrow>
    file_spec (CallWrite name frm position) files (files(name_key name \<mapsto> overlay c (nat position) (take n frm)))"
| not_written: "files (name_key name) = None \<or> frm = [] \<or> (\<exists>c. files (name_key name) = Some c \<and> int (length c) \<le> position) \<Longrightarrow>
    file_spec (CallWrite name frm position) files files"




inductive spec_run :: "fs_call list \<Rightarrow> (byte list \<rightharpoonup> byte list) \<Rightarrow> (byte list \<rightharpoonup> byte list) \<Rightarrow> bool" where
  "spec_run [] files files"
| "file_spec c files files' \<Longrightarrow> spec_run cs files' files'' \<Longrightarrow> spec_run (c # cs) files files''"

inductive_cases spec_run_ConsE: "spec_run (c # cs) files files''"
inductive_simps spec_run_Nil [simp]: "spec_run [] files files'"





section \<open>Properties\<close>

definition sample_memory :: fresh_memory where
  "sample_memory = \<lparr>fm_words = replicate 32 0xdead, fm_entries = replicate 10 \<lparr>inUse = True, de_pad1 = [1, 2, 3], de_sector = 77,
       de_name = replicate 10 0x41, de_pad2 = [4, 5]\<rparr>, fm_header = sample_header, fm_header2 = sample_header, fm_buffer = (\<lambda>i. of_nat i)\<rparr>"

lemma sample_memory_ok: "fresh_ok sample_memory"
  by (simp add: fresh_ok_def sample_memory_def fs_sizes list_all_iff entry_wf_def in_int_def FileNameMaxLen_def sample_header_ok)

lemma sample_fs: "\<exists>fs. fs_ok fs \<and> fs_files fs = Map.empty"
  using Disk_Disk_fresh FileSystem_format_ok [OF _ sample_memory_ok] by blast

text \<open>On an empty file system there is room for any file that a header can describe.\<close>

lemma empty_create_succeeds:
  assumes "fs_ok fs" "fs_files fs = Map.empty" "divRoundUp sz SectorSize \<le> NumDirect"
  shows "create_succeeds fs name sz"
proof -
  let ?d = "fs_disk fs"
  have ok: "disk_fs_ok ?d" using assms(1) by (simp add: fs_ok_def)
  have un: "filter inUse (fs_entries ?d) = []" using assms(2) by (simp add: fs_files_def files_of_def)
  have "fs_entries ?d \<noteq> []" using fs_entries_props(1) [OF ok] by (auto simp: NumDirEntries_def)
  then have "\<exists>e \<in> set (fs_entries ?d). \<not> inUse e" using un by (cases "fs_entries ?d") (auto split: if_splits)
  moreover have "marked (fs_map ?d) = set (system_sectors ?d)" using ok un by (simp add: disk_fs_ok_def listed_sectors_def)
  then have "card (marked (fs_map ?d)) \<le> length (system_sectors ?d)" by (simp add: card_length)
  moreover have "length (system_sectors ?d) = 5"
    using ok file_sectors_props(1) [of "map_hdr ?d"] file_sectors_props(1) [of "dir_hdr ?d"]
    by (simp add: disk_fs_ok_def system_sectors_def hdr_ok_def divRoundUp_def fs_sizes)
  ultimately show ?thesis
    using assms(2,3) card_clear [OF fs_map_wf(2), of ?d] by (simp add: create_succeeds_def fs_sizes)
qed

text \<open>
  C33. Formatting any disk gives a consistent file system without files, whatever the disk and the
  allocated memory held before: the assertions on the space for the system files hold, and the
  free map marks exactly the sectors of the two headers and of the two system files.\<close>

theorem filesystem_format_empty:
  assumes "disk_ok d" "fresh_ok mem"
  shows "\<exists>fs. FileSystem_FileSystem mem True d = Inr fs \<and> fs_ok fs \<and> fs_files fs = Map.empty"
  using assms by (rule FileSystem_format_ok)

theorem filesystem_format_empty_witness:
  "\<exists>d fs. FileSystem_FileSystem sample_memory True d = Inr fs \<and> fs_ok fs"
  using Disk_Disk_fresh filesystem_format_empty [OF _ sample_memory_ok] by blast

text \<open>
  C34. Opening the file system on a consistent disk without formatting it changes nothing on the disk
  and gives a consistent file system with the files that are there: files survive a restart.\<close>

theorem filesystem_remount:
  assumes "fs_ok fs"
  shows "\<exists>fs'. FileSystem_FileSystem mem False (fs_disk fs) = Inr fs' \<and> fs_ok fs' \<and> fs_disk fs' = fs_disk fs
    \<and> fs_files fs' = fs_files fs"
  using FileSystem_mount_ok [of "fs_disk fs" mem] assms by (auto simp: fs_ok_def fs_files_def)

theorem filesystem_remount_witness:
  "\<exists>fs fs'. fs_ok fs \<and> FileSystem_FileSystem sample_memory False (fs_disk fs) = Inr fs' \<and> fs_files fs' = Map.empty"
  using sample_fs filesystem_remount by metis



text \<open>
  C31. \<open>Remove\<close> answers whether the file existed; afterwards it does not, every other file is unchanged and
  the disk is consistent, so all the sectors of the file are free again.\<close>

theorem filesystem_remove:
  assumes "fs_ok fs" "fresh_ok mem"
  shows "\<exists>fs'. FileSystem_Remove mem fs name = Inr (fs_files fs (name_key name) \<noteq> None, fs') \<and> fs_ok fs'
    \<and> fs_files fs' = (fs_files fs)(name_key name := None)"
  using assms by (rule FileSystem_Remove_ok)

theorem filesystem_remove_witness:
  "\<exists>fs fs'. fs_ok fs \<and> FileSystem_Remove sample_memory fs [0x61] = Inr (False, fs')"
  using sample_fs filesystem_remove [OF _ sample_memory_ok, of _ "[0x61]"] by fastforce

text \<open>
  C32. \<open>Open\<close> finds exactly the files that exist. A write through the open file puts its bytes into that file,
  cut at the end of the file, and leaves every other file and the consistency of the disk alone.\<close>

theorem filesystem_open_write:
  assumes "fs_ok fs" "fresh_ok mem" "fs_files fs (name_key name) = Some c"
    "0 \<le> position" "position < int (length c)" "0 < nbytes" "in_int (position + nbytes)" "nat nbytes \<le> length frm"
  shows "\<exists>f n d'. FileSystem_Open mem fs name = Inr (Some f) \<and> n = min (nat nbytes) (length c - nat position)
    \<and> OpenFile_WriteAt junk (fs_disk fs) f frm nbytes position = Inr (int n, d') \<and> fs_ok (fs\<lparr>fs_disk := d'\<rparr>)
    \<and> fs_files (fs\<lparr>fs_disk := d'\<rparr>) = (fs_files fs)(name_key name \<mapsto> overlay c (nat position) (take n frm))"
proof -
  obtain f where "FileSystem_Open mem fs name = Inr (Some f)"
    using FileSystem_Open_ok [OF assms(1,2), of name] assms(3) by (auto split: option.splits)
  then show ?thesis using FileSystem_Write_ok [OF assms(1,2) _ assms(3-8), of f junk] by blast
qed

theorem filesystem_open_write_witness:
  "\<exists>fs f d'. FileSystem_Open sample_memory fs [0x61] = Inr (Some f)
     \<and> OpenFile_WriteAt (\<lambda>_. 9) (fs_disk fs) f [1, 2, 3, 4] 4 98 = Inr (2, d') \<and> fs_ok (fs\<lparr>fs_disk := d'\<rparr>)"
proof -
  obtain fs0 where fs0: "fs_ok fs0" "fs_files fs0 = Map.empty" using sample_fs by blast
  have sz: "divRoundUp 100 SectorSize \<le> NumDirect" by (simp add: divRoundUp_def fs_sizes)
  obtain fs c where fs: "fs_ok fs" "fs_files fs (name_key [0x61]) = Some c" "length c = 100"
    using FileSystem_Create_ok [OF fs0(1) sample_memory_ok sz, of "[0x61]"] empty_create_succeeds [OF fs0 sz] by auto
  then show ?thesis
    using filesystem_open_write [OF fs(1) sample_memory_ok fs(2), of 98 4 "[1, 2, 3, 4]" "\<lambda>_. 9"] by (auto simp: in_int_def)
qed



end
