(* ===== verification/Nachos_AddrSpace.thy ===== *)
theory Nachos_AddrSpace
  imports Nachos_File
begin

text \<open>
  \<^verbatim>\<open>userprog/addrspace.cc\<close> and \<^verbatim>\<open>bin/noff.h\<close>: the memory of a user program. The constructors load a program from
  an executable file, or copy an existing address space; both take their pages from the memory
  manager. The lock around the memory manager is left out here: each routine is one critical section.

  The executable is given by its \<open>ReadAt\<close>, a function of a length and a position; \<open>reads\<close> says that it
  delivers the bytes of a file, which \<^verbatim>\<open>OpenFile::ReadAt\<close> does. The structures on disk are read with the
  byte order of the host. \<open>fresh\<close> is the object before its constructor has run. Indexing a page table or
  the memory of the machine outside its bounds is \<open>OutOfBounds\<close>.
\<close>

section \<open>Executable files\<close>

definition NOFFMAGIC :: "32 word" where "NOFFMAGIC = 0xbadfad"

record Segment =
  seg_virtualAddr :: "32 word"
  seg_inFileAddr :: "32 word"
  seg_size :: "32 word"

record NoffHeader =
  noffMagic :: "32 word"
  noff_code :: Segment
  noff_initData :: Segment
  noff_uninitData :: Segment

definition sizeof_NoffHeader :: nat where "sizeof_NoffHeader = 40"

definition bytes_Segment :: "bool \<Rightarrow> (nat \<Rightarrow> byte) \<Rightarrow> nat \<Rightarrow> Segment" where
  "bytes_Segment be mem a = \<lparr>seg_virtualAddr = host_load32 be mem a, seg_inFileAddr = host_load32 be mem (a + 4),
     seg_size = host_load32 be mem (a + 8)\<rparr>"

definition bytes_NoffHeader :: "bool \<Rightarrow> byte list \<Rightarrow> NoffHeader" where
  "bytes_NoffHeader be bs = \<lparr>noffMagic = host_load32 be ((!) bs) 0, noff_code = bytes_Segment be ((!) bs) 4,
     noff_initData = bytes_Segment be ((!) bs) 16, noff_uninitData = bytes_Segment be ((!) bs) 28\<rparr>"

definition swap_Segment :: "bool \<Rightarrow> Segment \<Rightarrow> Segment" where
  "swap_Segment be s = \<lparr>seg_virtualAddr = WordToHost be (seg_virtualAddr s),
     seg_inFileAddr = WordToHost be (seg_inFileAddr s), seg_size = WordToHost be (seg_size s)\<rparr>"

definition SwapHeader :: "bool \<Rightarrow> NoffHeader \<Rightarrow> NoffHeader" where
  "SwapHeader be h = \<lparr>noffMagic = WordToHost be (noffMagic h), noff_code = swap_Segment be (noff_code h),
     noff_initData = swap_Segment be (noff_initData h), noff_uninitData = swap_Segment be (noff_uninitData h)\<rparr>"

section \<open>Address spaces\<close>

definition UserStackSize :: int where "UserStackSize = 1024"

record AddrSpace =
  as_pageTable :: "TranslationEntry list option"
  as_numPages :: nat
  as_valid :: bool
  as_pcb :: nat

type_synonym reader = "int \<Rightarrow> int \<Rightarrow> (byte list) result"

definition AddrSpace_GetPageTable :: "AddrSpace \<Rightarrow> TranslationEntry list option" where
  "AddrSpace_GetPageTable sp = as_pageTable sp"

definition AddrSpace_GetNumPages :: "AddrSpace \<Rightarrow> nat" where
  "AddrSpace_GetNumPages sp = as_numPages sp"

definition AddrSpace_Translate :: "TranslationEntry list \<Rightarrow> 32 word \<Rightarrow> (32 word) result" where
  "AddrSpace_Translate pt virtualAddr =
     (let pageNumber = unat virtualAddr div PageSize; pageOffset = unat virtualAddr mod PageSize in
      if pageNumber < length pt
      then Inr (physicalPage (pt ! pageNumber) * of_nat PageSize + of_nat pageOffset)
      else Inl OutOfBounds)"

text \<open>\<^verbatim>\<open>bcopy\<close>, \<^verbatim>\<open>bzero\<close> and the destination of \<open>ReadAt\<close>: bytes stored into the memory of the machine.\<close>

definition store_bytes :: "nat \<Rightarrow> byte list \<Rightarrow> (nat \<Rightarrow> byte) \<Rightarrow> (nat \<Rightarrow> byte) result" where
  "store_bytes a bs mem = (if bs \<noteq> [] \<and> MemorySize < a + length bs then Inl OutOfBounds
     else Inr (\<lambda>i. if a \<le> i \<and> i < a + length bs then bs ! (i - a) else mem i))"

text \<open>The three \<^verbatim>\<open>int\<close> arguments of \<open>ReadFile\<close>; \<open>counter\<close> runs over the list.\<close>

fun AddrSpace_ReadFile :: "reader \<Rightarrow> TranslationEntry list \<Rightarrow> int \<Rightarrow> int \<Rightarrow> nat list \<Rightarrow> (nat \<Rightarrow> byte) \<Rightarrow> (nat \<Rightarrow> byte) result" where
  "AddrSpace_ReadFile readAt pt offset virtualAddr [] mem = Inr mem"
| "AddrSpace_ReadFile readAt pt offset virtualAddr (counter # cs) mem =
     (if \<not> in_int (virtualAddr + int counter) \<or> \<not> in_int (offset + int counter) then Inl SignedOverflow
      else rbind (AddrSpace_Translate pt (of_int (virtualAddr + int counter))) (\<lambda>pa.
           rbind (readAt 1 (offset + int counter)) (\<lambda>bs.
           rbind (store_bytes (unat pa) bs mem) (\<lambda>mem'.
             AddrSpace_ReadFile readAt pt offset virtualAddr cs mem'))))"

definition load_segment :: "reader \<Rightarrow> TranslationEntry list \<Rightarrow> Segment \<Rightarrow> (nat \<Rightarrow> byte) \<Rightarrow> (nat \<Rightarrow> byte) result" where
  "load_segment readAt pt seg mem =
     (if sint (seg_size seg) > 0
      then AddrSpace_ReadFile readAt pt (sint (seg_inFileAddr seg)) (sint (seg_virtualAddr seg)) [0..<nat (sint (seg_size seg))] mem
      else Inr mem)"

text \<open>The header of the executable, or \<open>None\<close> when its magic number is wrong.\<close>

definition read_noff :: "bool \<Rightarrow> byte list \<Rightarrow> reader \<Rightarrow> (NoffHeader option) result" where
  "read_noff be garbage readAt = rbind (readAt (int sizeof_NoffHeader) 0) (\<lambda>bs.
     let noffH = bytes_NoffHeader be (overlay garbage 0 bs);
         noffH = (if noffMagic noffH \<noteq> NOFFMAGIC \<and> WordToHost be (noffMagic noffH) = NOFFMAGIC then SwapHeader be noffH else noffH)
     in Inr (if noffMagic noffH \<noteq> NOFFMAGIC then None else Some noffH))"

definition add_ints :: "int list \<Rightarrow> int result" where
  "add_ints xs = foldl (\<lambda>r x. rbind r (\<lambda>a. if in_int (a + x) then Inr (a + x) else Inl SignedOverflow)) (Inr 0) xs"

definition space_pages :: "NoffHeader \<Rightarrow> nat result" where
  "space_pages noffH = rbind (add_ints [sint (seg_size (noff_code noffH)), sint (seg_size (noff_initData noffH)),
       sint (seg_size (noff_uninitData noffH)), UserStackSize]) (\<lambda>n.
     let sz = (of_int n :: 32 word) in Inr (divRoundUp (unat sz) PageSize))"

fun alloc_pages :: "nat list \<Rightarrow> MemoryManager \<Rightarrow> (nat \<Rightarrow> byte)
    \<Rightarrow> (TranslationEntry list \<times> MemoryManager \<times> (nat \<Rightarrow> byte)) result" where
  "alloc_pages [] mm mem = Inr ([], mm, mem)"
| "alloc_pages (i # is) mm mem = rbind (MemoryManager_AllocatePage mm) (\<lambda>(p, mm').
     let e = \<lparr>virtualPage = of_nat i, physicalPage = of_int p, te_valid = True, readOnly = False, te_use = False, te_dirty = False\<rparr>
     in rbind (store_bytes (unat (physicalPage e * 128)) (replicate 128 0) mem) (\<lambda>mem'.
        rbind (alloc_pages is mm' mem') (\<lambda>(es, mm'', mem''). Inr (e # es, mm'', mem''))))"

text \<open>
  Both loading constructors: the first part checks the header and the free memory and answers the number of
  pages, the second one builds the page table and loads the segments.
\<close>

definition load_check :: "bool \<Rightarrow> byte list \<Rightarrow> reader \<Rightarrow> MemoryManager \<Rightarrow> AddrSpace \<Rightarrow> (AddrSpace \<times> NoffHeader option) result" where
  "load_check be garbage readAt mm fresh = rbind (read_noff be garbage readAt) (\<lambda>h. case h of
     None \<Rightarrow> Inr (fresh\<lparr>as_valid := False\<rparr>, None)
   | Some noffH \<Rightarrow> rbind (space_pages noffH) (\<lambda>n.
       rbind (MemoryManager_GetFreePageCount mm) (\<lambda>free.
         if int n > free then Inr (fresh\<lparr>as_numPages := n, as_valid := False\<rparr>, None)
         else Inr (fresh\<lparr>as_numPages := n\<rparr>, Some noffH))))"

definition load_space :: "reader \<Rightarrow> NoffHeader \<Rightarrow> AddrSpace \<Rightarrow> MemoryManager \<Rightarrow> (nat \<Rightarrow> byte)
    \<Rightarrow> (AddrSpace \<times> MemoryManager \<times> (nat \<Rightarrow> byte)) result" where
  "load_space readAt noffH sp mm mem = rbind (alloc_pages [0..<as_numPages sp] mm mem) (\<lambda>(pt, mm', mem1).
     rbind (load_segment readAt pt (noff_code noffH) mem1) (\<lambda>mem2.
     rbind (load_segment readAt pt (noff_initData noffH) mem2) (\<lambda>mem3.
       Inr (sp\<lparr>as_pageTable := Some pt, as_valid := True\<rparr>, mm', mem3))))"

text \<open>The constructor used by \<open>Exec\<close>, which gets the process control block as an argument.\<close>

definition AddrSpace_AddrSpace_pcb :: "byte list \<Rightarrow> reader \<Rightarrow> nat \<Rightarrow> AddrSpace \<Rightarrow> MemoryManager \<Rightarrow> Machine
    \<Rightarrow> (AddrSpace \<times> MemoryManager \<times> Machine) result" where
  "AddrSpace_AddrSpace_pcb garbage readAt pcb fresh mm m =
     rbind (load_check (hostBigEndian m) garbage readAt mm fresh) (\<lambda>(sp, h). case h of
       None \<Rightarrow> Inr (sp, mm, m)
     | Some noffH \<Rightarrow> rbind (load_space readAt noffH (sp\<lparr>as_pcb := pcb\<rparr>) mm (mainMemory m)) (\<lambda>(sp', mm', mem).
         Inr (sp', mm', m\<lparr>mainMemory := mem\<rparr>)))"

text \<open>The copy made by \<open>Fork\<close>.\<close>

fun copy_pages :: "TranslationEntry list \<Rightarrow> MemoryManager \<Rightarrow> (nat \<Rightarrow> byte)
    \<Rightarrow> (TranslationEntry list \<times> MemoryManager \<times> (nat \<Rightarrow> byte)) result" where
  "copy_pages [] mm mem = Inr ([], mm, mem)"
| "copy_pages (p # ps) mm mem = rbind (MemoryManager_AllocatePage mm) (\<lambda>(f, mm').
     let e = \<lparr>virtualPage = virtualPage p, physicalPage = of_int f, te_valid = te_valid p, readOnly = readOnly p,
              te_use = te_use p, te_dirty = te_dirty p\<rparr>;
         src = unat (physicalPage p * 128)
     in if MemorySize < src + 128 then Inl OutOfBounds
        else rbind (store_bytes (unat (physicalPage e * 128)) (map mem [src..<src + 128]) mem) (\<lambda>mem'.
          rbind (copy_pages ps mm' mem') (\<lambda>(es, mm'', mem''). Inr (e # es, mm'', mem''))))"

definition AddrSpace_AddrSpace_copy :: "AddrSpace \<Rightarrow> AddrSpace \<Rightarrow> MemoryManager \<Rightarrow> Machine
    \<Rightarrow> (AddrSpace \<times> MemoryManager \<times> Machine) result" where
  "AddrSpace_AddrSpace_copy space fresh mm m =
     (let n = AddrSpace_GetNumPages space in
      rbind (MemoryManager_GetFreePageCount mm) (\<lambda>free.
        if int n > free then Inr (fresh\<lparr>as_valid := False\<rparr>, mm, m)
        else case AddrSpace_GetPageTable space of
          None \<Rightarrow> if n = 0 then Inr (fresh\<lparr>as_valid := True, as_pageTable := Some [], as_numPages := 0\<rparr>, mm, m) else Inl OutOfBounds
        | Some ppt \<Rightarrow>
            if length ppt < n then Inl OutOfBounds
            else rbind (copy_pages (take n ppt) mm (mainMemory m)) (\<lambda>(pt, mm', mem).
              Inr (fresh\<lparr>as_valid := True, as_pageTable := Some pt, as_numPages := n\<rparr>, mm', m\<lparr>mainMemory := mem\<rparr>))))"

fun free_frames :: "TranslationEntry list \<Rightarrow> MemoryManager \<Rightarrow> MemoryManager result" where
  "free_frames [] mm = Inr mm"
| "free_frames (e # es) mm = rbind (MemoryManager_DeallocatePage mm (sint (physicalPage e))) (\<lambda>(r, mm').
     ASSERT (r = 0) (free_frames es mm'))"

definition AddrSpace_destroy :: "AddrSpace \<Rightarrow> MemoryManager \<Rightarrow> (AddrSpace \<times> MemoryManager) result" where
  "AddrSpace_destroy sp mm = ASSERT (as_pageTable sp \<noteq> None) (case as_pageTable sp of None \<Rightarrow> Inl Assertion
     | Some pt \<Rightarrow> if length pt < as_numPages sp then Inl OutOfBounds
         else rbind (free_frames (take (as_numPages sp) pt) mm) (\<lambda>mm'. Inr (sp\<lparr>as_pageTable := None\<rparr>, mm')))"

fun zero_registers :: "nat list \<Rightarrow> Machine \<Rightarrow> Machine result" where
  "zero_registers [] m = Inr m"
| "zero_registers (i # is) m = rbind (Machine_WriteRegister m (int i) 0) (zero_registers is)"

definition AddrSpace_InitRegisters :: "AddrSpace \<Rightarrow> Machine \<Rightarrow> Machine result" where
  "AddrSpace_InitRegisters sp m = rbind (zero_registers [0..<NumTotalRegs] m) (\<lambda>m.
     rbind (Machine_WriteRegister m (int PCReg) 0) (\<lambda>m.
     rbind (Machine_WriteRegister m (int NextPCReg) 4) (\<lambda>m.
       Machine_WriteRegister m (int StackReg) (of_nat (as_numPages sp) * of_nat PageSize - 16))))"

text \<open>
  \<open>SaveState\<close> does nothing, its body is commented out: the page table of the machine is the array of the address space. In
  the model the two are separate values; what executes user instructions writes the bits that the translation sets through to
  the address space.
\<close>

definition AddrSpace_SaveState :: "AddrSpace \<Rightarrow> Machine \<Rightarrow> AddrSpace" where
  "AddrSpace_SaveState sp m = sp"

definition AddrSpace_RestoreState :: "AddrSpace \<Rightarrow> Machine \<Rightarrow> Machine" where
  "AddrSpace_RestoreState sp m = m\<lparr>pageTable := as_pageTable sp, pageTableSize := of_nat (as_numPages sp)\<rparr>"

section \<open>Memory as the program sees it\<close>

definition frames :: "TranslationEntry list \<Rightarrow> nat list" where
  "frames pt = map (\<lambda>e. unat (physicalPage e)) pt"

definition space_ok :: "TranslationEntry list \<Rightarrow> bool" where
  "space_ok pt \<longleftrightarrow> distinct (frames pt) \<and> (\<forall>f \<in> set (frames pt). f < NumPhysPages)"

definition phys :: "TranslationEntry list \<Rightarrow> nat \<Rightarrow> nat" where
  "phys pt va = frames pt ! (va div PageSize) * PageSize + va mod PageSize"

definition user_byte :: "(nat \<Rightarrow> byte) \<Rightarrow> TranslationEntry list \<Rightarrow> nat \<Rightarrow> byte" where
  "user_byte mem pt va = mem (phys pt va)"

lemma unat_of_nat_32: "n < 2 ^ 32 \<Longrightarrow> unat (of_nat n :: 32 word) = n"
  by (simp add: unsigned_of_nat take_bit_nat_eq_self)

lemma length_frames [simp]: "length (frames pt) = length pt"
  by (simp add: frames_def)

lemma PageSize_pos [simp]: "0 < PageSize"
  by (simp add: PageSize_def SectorSize_def)

lemma page_less: "va < n * PageSize \<Longrightarrow> va div PageSize < n"
  by (simp add: less_mult_imp_div_less)

lemma phys_div [simp]: "phys pt va div PageSize = frames pt ! (va div PageSize)"
  by (simp add: phys_def)

lemma phys_inj:
  assumes "space_ok pt" "va < length pt * PageSize" "vb < length pt * PageSize" "phys pt va = phys pt vb"
  shows "va = vb"
proof -
  have "frames pt ! (va div PageSize) = frames pt ! (vb div PageSize)" using assms(4) phys_div by metis
  moreover have "va div PageSize < length (frames pt)" "vb div PageSize < length (frames pt)"
    using assms(2,3) page_less by simp_all
  ultimately have "va div PageSize = vb div PageSize"
    using assms(1) nth_eq_iff_index_eq [of "frames pt"] by (simp add: space_ok_def)
  moreover have "va mod PageSize = vb mod PageSize" using assms(4) calculation by (simp add: phys_def)
  ultimately show ?thesis by (metis div_mult_mod_eq)
qed

lemma phys_bound:
  assumes "space_ok pt" "va < length pt * PageSize"
  shows "phys pt va < MemorySize" "phys pt va div PageSize \<in> set (frames pt)"
proof -
  show f: "phys pt va div PageSize \<in> set (frames pt)" using page_less [OF assms(2)] by simp
  then have "phys pt va div PageSize < NumPhysPages" using assms(1) unfolding space_ok_def by blast
  then show "phys pt va < MemorySize"
    using div_less_iff_less_mult [OF PageSize_pos, of "phys pt va" NumPhysPages] by (simp only: MemorySize_def)
qed

lemma AddrSpace_Translate_ok:
  assumes "space_ok pt" "va < length pt * PageSize" "va < 2 ^ 32"
  shows "\<exists>pa. AddrSpace_Translate pt (of_nat va) = Inr pa \<and> unat pa = phys pt va"
proof -
  let ?f = "frames pt ! (va div PageSize)"
  have p: "va div PageSize < length pt" using page_less [OF assms(2)] .
  have u: "unat (of_nat va :: 32 word) = va" using assms(3) by (simp add: unat_of_nat_32)
  have f: "?f = unat (physicalPage (pt ! (va div PageSize)))" using p by (simp add: frames_def)
  have "phys pt va < 2 ^ 32"
    using phys_bound(1) [OF assms(1,2)] by (simp add: MemorySize_def NumPhysPages_def PageSize_def SectorSize_def)
  then have "unat (physicalPage (pt ! (va div PageSize)) * of_nat PageSize + of_nat (va mod PageSize)) = phys pt va"
    using unat_of_nat_32 [of "phys pt va"] by (simp add: phys_def f)
  then show ?thesis using p by (simp add: AddrSpace_Translate_def Let_def u)
qed

lemma store_bytes_ok:
  "bs = [] \<or> a + length bs \<le> MemorySize \<Longrightarrow>
   store_bytes a bs mem = Inr (\<lambda>i. if a \<le> i \<and> i < a + length bs then bs ! (i - a) else mem i)"
  by (auto simp: store_bytes_def)

definition reads :: "reader \<Rightarrow> byte list \<Rightarrow> bool" where
  "reads readAt f \<longleftrightarrow> (\<forall>n p. 0 \<le> p \<and> in_int (p + n) \<longrightarrow> readAt n p = Inr (take (nat n) (drop (nat p) f)))"

lemma OpenFile_reads:
  "disk_ok d \<Longrightarrow> hdr_ok (of_hdr file) \<Longrightarrow> reads (OpenFile_ReadAt d file) (file_bytes d (of_hdr file))"
  by (simp add: reads_def OpenFile_ReadAt_ok)

lemma AddrSpace_ReadFile_ok:
  assumes "space_ok pt" "reads readAt f" "va + b \<le> length pt * PageSize" "off + b \<le> length f"
    "in_int (int (va + b))" "in_int (int (off + b))"
  shows "\<exists>mem'. AddrSpace_ReadFile readAt pt (int off) (int va) [a..<b] mem = Inr mem'
    \<and> (\<forall>v < length pt * PageSize. user_byte mem' pt v =
         (if va + a \<le> v \<and> v < va + b then f ! (off + (v - va)) else user_byte mem pt v))
    \<and> (\<forall>x. x div PageSize \<notin> set (frames pt) \<longrightarrow> mem' x = mem x)"
proof (induction "b - a" arbitrary: a mem)
  case 0
  then show ?case by auto
next
  case (Suc n)
  then have ab: "a < b" by simp
  have v: "va + a < length pt * PageSize" "va + a < 2 ^ 32" "off + a < length f" "in_int (int (va + a))" "in_int (int (off + a))"
      "in_int (int (off + a) + 1)"
    using ab assms(3-6) by (auto simp: in_int_def)
  obtain pa where pa: "AddrSpace_Translate pt (of_nat (va + a)) = Inr pa" "unat pa = phys pt (va + a)"
    using AddrSpace_Translate_ok [OF assms(1) v(1,2)] by blast
  have r: "readAt 1 (int (off + a)) = Inr [f ! (off + a)]"
    using assms(2) [unfolded reads_def, rule_format, of "int (off + a)" 1] v(3,6)
    by (simp add: take_Suc_conv_app_nth Cons_nth_drop_Suc [symmetric] nat_plus_as_int del: of_nat_add)
  let ?mem = "\<lambda>i. if i = phys pt (va + a) then f ! (off + a) else mem i"
  have s: "store_bytes (unat pa) [f ! (off + a)] mem = Inr ?mem"
    using phys_bound(1) [OF assms(1) v(1)] pa(2) by (simp add: store_bytes_ok fun_eq_iff)
  have "n = b - Suc a" using Suc.hyps(2) by simp
  from Suc.hyps(1) [OF this, of ?mem] obtain mem' where
    m: "AddrSpace_ReadFile readAt pt (int off) (int va) [Suc a..<b] ?mem = Inr mem'"
      "\<forall>v < length pt * PageSize. user_byte mem' pt v =
         (if va + Suc a \<le> v \<and> v < va + b then f ! (off + (v - va)) else user_byte ?mem pt v)"
      "\<forall>x. x div PageSize \<notin> set (frames pt) \<longrightarrow> mem' x = ?mem x" by blast
  have "AddrSpace_ReadFile readAt pt (int off) (int va) [a..<b] mem = Inr mem'"
    using ab v(4,5) pa(1) r s m(1) by (simp add: upt_conv_Cons flip: of_nat_add)
  moreover have "user_byte mem' pt v = (if va + a \<le> v \<and> v < va + b then f ! (off + (v - va)) else user_byte mem pt v)"
    if "v < length pt * PageSize" for v
  proof -
    have "phys pt v = phys pt (va + a) \<longleftrightarrow> v = va + a" using phys_inj [OF assms(1) that v(1)] by auto
    then show ?thesis using m(2) that ab by (auto simp: user_byte_def)
  qed
  moreover have "mem' x = mem x" if "x div PageSize \<notin> set (frames pt)" for x
    using m(3) that phys_bound(2) [OF assms(1) v(1)] by auto
  ultimately show ?case by blast
qed

definition new_entry :: "nat \<Rightarrow> nat \<Rightarrow> TranslationEntry" where
  "new_entry i k = \<lparr>virtualPage = of_nat i, physicalPage = of_nat k, te_valid = True, readOnly = False, te_use = False, te_dirty = False\<rparr>"

lemma frame_address_word:
  assumes "k < NumPhysPages"
  shows "unat (of_nat k * 128 :: 32 word) = k * PageSize" "unat (of_nat k :: 32 word) = k"
proof -
  have "k < 64" using assms by (simp add: NumPhysPages_def)
  then show "unat (of_nat k :: 32 word) = k" by (simp add: unat_of_nat_32)
  have "(of_nat k * 128 :: 32 word) = of_nat (k * 128)" by simp
  also have "unat \<dots> = k * 128" using \<open>k < 64\<close> by (intro unat_of_nat_32) simp
  finally show "unat (of_nat k * 128 :: 32 word) = k * PageSize" by (simp add: PageSize_def SectorSize_def)
qed

lemma in_frame: "k * PageSize \<le> x \<and> x < k * PageSize + PageSize \<longleftrightarrow> x div PageSize = k"
  by (metis PageSize_pos add.commute div_nat_eqI mult.commute mult_Suc dividend_less_times_div times_div_less_eq_dividend)

lemma alloc_pages_ok:
  "MemoryManager_wf mm \<Longrightarrow> length is \<le> card (free_pages mm) \<Longrightarrow>
   \<exists>ks mm' mem'. alloc_pages is mm mem = Inr (map2 new_entry is ks, mm', mem') \<and> MemoryManager_wf mm'
     \<and> length ks = length is \<and> distinct ks \<and> set ks \<subseteq> free_pages mm \<and> free_pages mm' = free_pages mm - set ks
     \<and> (\<forall>x. mem' x = (if x div PageSize \<in> set ks then 0 else mem x))"
proof (induction "is" arbitrary: mm mem)
  case Nil
  then show ?case by simp
next
  case (Cons i "is")
  have "free_pages mm \<noteq> {}" using Cons.prems(2) by auto
  then obtain k mm1 where k: "MemoryManager_AllocatePage mm = Inr (int k, mm1)" "MemoryManager_wf mm1"
      "k \<in> free_pages mm" "free_pages mm1 = free_pages mm - {k}"
    using pages.find_some [OF Cons.prems(1)] by blast
  have kb: "k < NumPhysPages" using k(3) Cons.prems(1) by (simp add: clear_bits_def MemoryManager_wf_def)
  let ?mem = "\<lambda>x. if x div PageSize = k then 0 else mem x"
  have "store_bytes (unat (of_nat k * 128 :: 32 word)) (replicate 128 0) mem = Inr ?mem"
  proof -
    have "k * PageSize + 128 \<le> MemorySize"
      using kb mult_le_mono1 [of "Suc k" NumPhysPages PageSize] by (simp add: MemorySize_def PageSize_def SectorSize_def)
    moreover have "length (replicate 128 (0 :: byte)) = PageSize" by (simp add: PageSize_def SectorSize_def)
    ultimately show ?thesis
      using in_frame [of k] by (simp add: frame_address_word(1) [OF kb] store_bytes_ok fun_eq_iff PageSize_def SectorSize_def)
  qed
  note st = this
  have "length is \<le> card (free_pages mm1)" using Cons.prems(2) k(3) unfolding k(4) by (simp add: card_Diff_singleton)
  from Cons.IH [OF k(2) this, of ?mem] obtain ks mm' mem' where
    r: "alloc_pages is mm1 ?mem = Inr (map2 new_entry is ks, mm', mem')" "MemoryManager_wf mm'" "length ks = length is"
      "distinct ks" "set ks \<subseteq> free_pages mm1" "free_pages mm' = free_pages mm1 - set ks"
      "\<forall>x. mem' x = (if x div PageSize \<in> set ks then 0 else ?mem x)" by blast
  have "alloc_pages (i # is) mm mem = Inr (map2 new_entry (i # is) (k # ks), mm', mem')"
    using k(1) st r(1) by (simp add: new_entry_def)
  then show ?case using r k(3,4) by (intro exI [of _ "k # ks"] exI [of _ mm'] exI [of _ mem']) auto
qed


section \<open>Loading a program\<close>

definition segment_fits :: "nat \<Rightarrow> byte list \<Rightarrow> Segment \<Rightarrow> bool" where
  "segment_fits n f s \<longleftrightarrow> 0 \<le> sint (seg_virtualAddr s) \<and> 0 \<le> sint (seg_inFileAddr s) \<and> 0 \<le> sint (seg_size s)
     \<and> sint (seg_virtualAddr s) + sint (seg_size s) \<le> int (n * PageSize)
     \<and> sint (seg_inFileAddr s) + sint (seg_size s) \<le> int (length f)"

definition in_segment :: "Segment \<Rightarrow> nat \<Rightarrow> bool" where
  "in_segment s v \<longleftrightarrow> sint (seg_virtualAddr s) \<le> int v \<and> int v < sint (seg_virtualAddr s) + sint (seg_size s)"

definition segment_byte :: "byte list \<Rightarrow> Segment \<Rightarrow> nat \<Rightarrow> byte" where
  "segment_byte f s v = f ! nat (sint (seg_inFileAddr s) + (int v - sint (seg_virtualAddr s)))"

definition program_byte :: "byte list \<Rightarrow> NoffHeader \<Rightarrow> nat \<Rightarrow> byte" where
  "program_byte f h v = (if in_segment (noff_initData h) v then segment_byte f (noff_initData h) v
     else if in_segment (noff_code h) v then segment_byte f (noff_code h) v else 0)"

lemma load_segment_ok:
  assumes "space_ok pt" "reads readAt f" "segment_fits (length pt) f s" "in_int (int (length f))" "length pt \<le> NumPhysPages"
  shows "\<exists>mem'. load_segment readAt pt s mem = Inr mem'
    \<and> (\<forall>v < length pt * PageSize. user_byte mem' pt v = (if in_segment s v then segment_byte f s v else user_byte mem pt v))
    \<and> (\<forall>x. x div PageSize \<notin> set (frames pt) \<longrightarrow> mem' x = mem x)"
proof (cases "sint (seg_size s) > 0")
  case False
  then show ?thesis by (auto simp: load_segment_def in_segment_def)
next
  case True
  obtain va off n where w: "sint (seg_virtualAddr s) = int va" "sint (seg_inFileAddr s) = int off" "sint (seg_size s) = int n"
    using assms(3) unfolding segment_fits_def by (metis zero_le_imp_eq_int)
  have b: "va + n \<le> length pt * PageSize" "off + n \<le> length f"
    using assms(3) w by (simp_all add: segment_fits_def flip: of_nat_add of_nat_mult)
  moreover have "length pt * PageSize \<le> MemorySize" using assms(5) by (simp add: MemorySize_def)
  then have "va + n \<le> 8192" using b(1) by (simp add: MemorySize_def NumPhysPages_def PageSize_def SectorSize_def)
  ultimately have i: "in_int (int (va + n))" "in_int (int (off + n))" using assms(4) by (auto simp: in_int_def)
  obtain mem' where m: "AddrSpace_ReadFile readAt pt (int off) (int va) [0..<n] mem = Inr mem'"
      "\<forall>v < length pt * PageSize. user_byte mem' pt v = (if va \<le> v \<and> v < va + n then f ! (off + (v - va)) else user_byte mem pt v)"
      "\<forall>x. x div PageSize \<notin> set (frames pt) \<longrightarrow> mem' x = mem x"
    using AddrSpace_ReadFile_ok [OF assms(1,2) b i, of 0 mem] by auto
  have "segment_byte f s v = f ! (off + (v - va))" if "va \<le> v" for v
    using that by (simp add: segment_byte_def w nat_add_distrib flip: of_nat_diff)
  then have "user_byte mem' pt v = (if in_segment s v then segment_byte f s v else user_byte mem pt v)"
    if "v < length pt * PageSize" for v
    using m(2) that by (auto simp: in_segment_def w)
  then show ?thesis using m(1,3) True by (simp add: load_segment_def w)
qed

lemma map2_new_entry:
  assumes "length ks = length is" "\<forall>k \<in> set ks. k < NumPhysPages"
  shows "frames (map2 new_entry is ks) = ks" "length (map2 new_entry is ks) = length is"
proof -
  show "frames (map2 new_entry is ks) = ks"
    using assms by (induction ks "is" rule: list_induct2) (simp_all add: frames_def new_entry_def frame_address_word(2))
qed (use assms in simp)

lemma free_pages_bound: "MemoryManager_wf mm \<Longrightarrow> k \<in> free_pages mm \<Longrightarrow> k < NumPhysPages"
  by (simp add: clear_bits_def MemoryManager_wf_def)

lemma card_free_pages: "MemoryManager_wf mm \<Longrightarrow> card (free_pages mm) \<le> NumPhysPages"
  using card_mono [of "{..<NumPhysPages}" "free_pages mm"] free_pages_bound [of mm] by auto

lemma load_space_ok:
  assumes mm: "MemoryManager_wf mm" "as_numPages sp \<le> card (free_pages mm)" and f: "reads readAt f" "in_int (int (length f))"
    and seg: "segment_fits (as_numPages sp) f (noff_code h)" "segment_fits (as_numPages sp) f (noff_initData h)"
  shows "\<exists>pt mm' mem'. load_space readAt h sp mm mem = Inr (sp\<lparr>as_pageTable := Some pt, as_valid := True\<rparr>, mm', mem')
    \<and> MemoryManager_wf mm' \<and> space_ok pt \<and> length pt = as_numPages sp
    \<and> set (frames pt) \<subseteq> free_pages mm \<and> free_pages mm' = free_pages mm - set (frames pt)
    \<and> (\<forall>v < as_numPages sp * PageSize. user_byte mem' pt v = program_byte f h v)
    \<and> (\<forall>x. x div PageSize \<notin> set (frames pt) \<longrightarrow> mem' x = mem x)"
proof -
  let ?n = "as_numPages sp"
  obtain ks mm' mem1 where a: "alloc_pages [0..<?n] mm mem = Inr (map2 new_entry [0..<?n] ks, mm', mem1)" "MemoryManager_wf mm'"
      "length ks = ?n" "distinct ks" "set ks \<subseteq> free_pages mm" "free_pages mm' = free_pages mm - set ks"
      "\<forall>x. mem1 x = (if x div PageSize \<in> set ks then 0 else mem x)"
    using alloc_pages_ok [OF mm(1), of "[0..<?n]" mem] mm(2) by auto
  define pt where "pt = map2 new_entry [0..<?n] ks"
  have ks: "\<forall>k \<in> set ks. k < NumPhysPages" using a(5) free_pages_bound [OF mm(1)] by blast
  have pt: "frames pt = ks" "length pt = ?n" using map2_new_entry [OF _ ks, of "[0..<?n]"] a(3) by (simp_all add: pt_def)
  then have ok: "space_ok pt" using a(4) ks by (simp add: space_ok_def)
  have np: "length pt \<le> NumPhysPages" using mm(2) card_free_pages [OF mm(1)] pt(2) by simp
  obtain mem2 where m2: "load_segment readAt pt (noff_code h) mem1 = Inr mem2"
      "\<forall>v < length pt * PageSize. user_byte mem2 pt v = (if in_segment (noff_code h) v then segment_byte f (noff_code h) v else user_byte mem1 pt v)"
      "\<forall>x. x div PageSize \<notin> set (frames pt) \<longrightarrow> mem2 x = mem1 x"
    using load_segment_ok [OF ok f(1) _ f(2) np] seg(1) pt(2) by metis
  obtain mem3 where m3: "load_segment readAt pt (noff_initData h) mem2 = Inr mem3"
      "\<forall>v < length pt * PageSize. user_byte mem3 pt v = (if in_segment (noff_initData h) v then segment_byte f (noff_initData h) v else user_byte mem2 pt v)"
      "\<forall>x. x div PageSize \<notin> set (frames pt) \<longrightarrow> mem3 x = mem2 x"
    using load_segment_ok [OF ok f(1) _ f(2) np] seg(2) pt(2) by metis
  have "user_byte mem1 pt v = 0" if "v < length pt * PageSize" for v
    using phys_bound(2) [OF ok that] a(7) pt(1) by (simp add: user_byte_def)
  then have "\<forall>v < ?n * PageSize. user_byte mem3 pt v = program_byte f h v"
    using m2(2) m3(2) pt(2) by (simp add: program_byte_def)
  moreover have "\<forall>x. x div PageSize \<notin> set (frames pt) \<longrightarrow> mem3 x = mem x" using m2(3) m3(3) a(7) pt(1) by simp
  moreover have "load_space readAt h sp mm mem = Inr (sp\<lparr>as_pageTable := Some pt, as_valid := True\<rparr>, mm', mem3)"
    using a(1) m2(1) m3(1) by (simp add: load_space_def pt_def)
  ultimately show ?thesis using a(2,5,6) ok pt by auto
qed

subsection \<open>The header of the executable\<close>

definition le_Segment :: "byte list \<Rightarrow> nat \<Rightarrow> Segment" where
  "le_Segment f a = \<lparr>seg_virtualAddr = load32_le ((!) f) a, seg_inFileAddr = load32_le ((!) f) (a + 4), seg_size = load32_le ((!) f) (a + 8)\<rparr>"

text \<open>The header of a file in the format that the tools of the MIPS write, which is little-endian.\<close>

definition noff_of :: "byte list \<Rightarrow> NoffHeader" where
  "noff_of f = \<lparr>noffMagic = load32_le ((!) f) 0, noff_code = le_Segment f 4, noff_initData = le_Segment f 16,
     noff_uninitData = le_Segment f 28\<rparr>"

lemma host_load32_little: "host_load32 False mem a = load32_le mem a"
  using WordToHost_load [of False mem a] by (simp add: WordToHost_def)

lemma noff_of_take: "noff_of (take sizeof_NoffHeader f) = noff_of f"
  by (simp add: noff_of_def le_Segment_def load32_le_def load16_le_def sizeof_NoffHeader_def)

lemma SwapHeader_bytes: "SwapHeader be (bytes_NoffHeader be f) = noff_of f"
  by (simp add: SwapHeader_def swap_Segment_def bytes_NoffHeader_def bytes_Segment_def noff_of_def le_Segment_def WordToHost_load)

text \<open>The header is understood on hosts of both byte orders.\<close>

lemma read_noff_ok:
  assumes "reads readAt f" "sizeof_NoffHeader \<le> length f" "length garbage = sizeof_NoffHeader" "noffMagic (noff_of f) = NOFFMAGIC"
  shows "read_noff be garbage readAt = Inr (Some (noff_of f))"
proof -
  have r: "readAt (int sizeof_NoffHeader) 0 = Inr (take sizeof_NoffHeader f)"
    using assms(1) by (simp add: reads_def sizeof_NoffHeader_def in_int_def)
  have o: "overlay garbage 0 (take sizeof_NoffHeader f) = take sizeof_NoffHeader f"
    using assms(2,3) by (simp add: overlay_def)
  let ?h = "bytes_NoffHeader be (take sizeof_NoffHeader f)"
  have sw: "SwapHeader be ?h = noff_of f" by (simp add: SwapHeader_bytes noff_of_take)
  have mg: "WordToHost be (noffMagic ?h) = NOFFMAGIC" using sw assms(4) by (metis NoffHeader.select_convs(1) SwapHeader_def)
  show ?thesis
  proof (cases be)
    case False
    then have "SwapHeader be ?h = ?h" by (simp add: SwapHeader_def swap_Segment_def WordToHost_def)
    then show ?thesis using sw assms(4) by (simp add: read_noff_def r o Let_def)
  next
    case True
    have "WordToHost True NOFFMAGIC \<noteq> NOFFMAGIC" by (simp add: WordToHost_def NOFFMAGIC_def)
    then have "noffMagic ?h \<noteq> NOFFMAGIC" using mg True by metis
    then show ?thesis using sw mg assms(4) by (simp add: read_noff_def r o Let_def)
  qed
qed

definition program_size :: "NoffHeader \<Rightarrow> int" where
  "program_size h = sint (seg_size (noff_code h)) + sint (seg_size (noff_initData h)) + sint (seg_size (noff_uninitData h)) + UserStackSize"

definition program_ok :: "byte list \<Rightarrow> bool" where
  "program_ok f \<longleftrightarrow> (let h = noff_of f; n = divRoundUp (nat (program_size h)) PageSize in
     sizeof_NoffHeader \<le> length f \<and> in_int (int (length f)) \<and> noffMagic h = NOFFMAGIC
     \<and> segment_fits n f (noff_code h) \<and> segment_fits n f (noff_initData h)
     \<and> 0 \<le> sint (seg_size (noff_uninitData h)) \<and> in_int (program_size h))"

definition program_pages :: "byte list \<Rightarrow> nat" where
  "program_pages f = divRoundUp (nat (program_size (noff_of f))) PageSize"

lemma space_pages_ok:
  assumes "program_ok f"
  shows "space_pages (noff_of f) = Inr (program_pages f)"
proof -
  let ?h = "noff_of f"
  define a b c where abc: "a = sint (seg_size (noff_code ?h))" "b = sint (seg_size (noff_initData ?h))" "c = sint (seg_size (noff_uninitData ?h))"
  have nn: "0 \<le> a" "0 \<le> b" "0 \<le> c" "a + b + c + 1024 < 2 ^ 31"
    using assms by (auto simp: program_ok_def Let_def segment_fits_def abc program_size_def UserStackSize_def in_int_def)
  then have "add_ints [a, b, c, UserStackSize] = Inr (a + b + c + UserStackSize)"
    by (simp add: add_ints_def in_int_def UserStackSize_def)
  moreover have "unat (of_int (a + b + c + 1024) :: 32 word) = nat (a + b + c + 1024)"
    using nn by (simp add: unat_eq_nat_uint uint_word_of_int_eq take_bit_int_eq_self del: of_int_add)
  ultimately show ?thesis
    by (simp add: space_pages_def program_pages_def program_size_def flip: abc) (simp add: UserStackSize_def)
qed


section \<open>Copying and destroying\<close>

definition copy_entry :: "TranslationEntry \<Rightarrow> nat \<Rightarrow> TranslationEntry" where
  "copy_entry p k = p\<lparr>physicalPage := of_nat k\<rparr>"

lemma frames_copy:
  assumes "length ks = length ps" "\<forall>k \<in> set ks. k < NumPhysPages"
  shows "frames (map2 copy_entry ps ks) = ks"
  using assms by (induction ks ps rule: list_induct2) (simp_all add: frames_def copy_entry_def frame_address_word(2))

lemma copy_pages_ok:
  "MemoryManager_wf mm \<Longrightarrow> length ps \<le> card (free_pages mm) \<Longrightarrow> space_ok ps \<Longrightarrow> set (frames ps) \<inter> free_pages mm = {} \<Longrightarrow>
   \<exists>ks mm' mem'. copy_pages ps mm mem = Inr (map2 copy_entry ps ks, mm', mem') \<and> MemoryManager_wf mm'
     \<and> length ks = length ps \<and> distinct ks \<and> set ks \<subseteq> free_pages mm \<and> free_pages mm' = free_pages mm - set ks
     \<and> (\<forall>i < length ps. \<forall>j < PageSize. mem' (ks ! i * PageSize + j) = mem (frames ps ! i * PageSize + j))
     \<and> (\<forall>x. x div PageSize \<notin> set ks \<longrightarrow> mem' x = mem x)"
proof (induction ps arbitrary: mm mem)
  case Nil
  then show ?case by simp
next
  case (Cons p ps)
  let ?f = "unat (physicalPage p)"
  have fr: "frames (p # ps) = ?f # frames ps" by (simp add: frames_def)
  have fb: "?f < NumPhysPages" "?f \<notin> free_pages mm" using Cons.prems(3,4) by (auto simp: fr space_ok_def)
  have "free_pages mm \<noteq> {}" using Cons.prems(2) by auto
  then obtain k mm1 where k: "MemoryManager_AllocatePage mm = Inr (int k, mm1)" "MemoryManager_wf mm1"
      "k \<in> free_pages mm" "free_pages mm1 = free_pages mm - {k}"
    using pages.find_some [OF Cons.prems(1)] by blast
  have kb: "k < NumPhysPages" using free_pages_bound [OF Cons.prems(1) k(3)] .
  have end_frame: "i < NumPhysPages \<Longrightarrow> i * PageSize + PageSize \<le> MemorySize" for i
    using mult_le_mono1 [of "Suc i" NumPhysPages PageSize] by (simp add: MemorySize_def)
  have P: "PageSize = 128" by (simp add: PageSize_def SectorSize_def)
  have src: "unat (physicalPage p * 128) = ?f * PageSize"
    using frame_address_word(1) [OF fb(1)] by simp
  let ?mem = "\<lambda>x. if x div PageSize = k then mem (?f * PageSize + x mod PageSize) else mem x"
  have st: "store_bytes (unat (of_nat k * 128 :: 32 word)) (map mem [?f * PageSize..<?f * PageSize + 128]) mem = Inr ?mem"
  proof -
    have "(if k * PageSize \<le> x \<and> x < k * PageSize + 128 then map mem [?f * PageSize..<?f * PageSize + 128] ! (x - k * PageSize) else mem x) = ?mem x" for x
    proof (cases "x div PageSize = k")
      case True
      then have "x - k * PageSize = x mod PageSize" "x mod PageSize < 128"
        using minus_div_mult_eq_mod [of x PageSize] by (simp_all add: P)
      then show ?thesis using True in_frame [of k x] by (simp add: P)
    next
      case False
      then show ?thesis using in_frame [of k x] by (auto simp: P)
    qed
    then show ?thesis
      using end_frame [OF kb] unfolding frame_address_word(1) [OF kb] P by (simp add: store_bytes_ok fun_eq_iff)
  qed
  have "length ps \<le> card (free_pages mm1)" using Cons.prems(2) k(3) unfolding k(4) by (simp add: card_Diff_singleton)
  moreover have "space_ok ps" "set (frames ps) \<inter> free_pages mm1 = {}"
    using Cons.prems(3,4) k(4) by (auto simp: fr space_ok_def)
  ultimately obtain ks mm' mem' where
    r: "copy_pages ps mm1 ?mem = Inr (map2 copy_entry ps ks, mm', mem')" "MemoryManager_wf mm'" "length ks = length ps"
      "distinct ks" "set ks \<subseteq> free_pages mm1" "free_pages mm' = free_pages mm1 - set ks"
      "\<forall>i < length ps. \<forall>j < PageSize. mem' (ks ! i * PageSize + j) = ?mem (frames ps ! i * PageSize + j)"
      "\<forall>x. x div PageSize \<notin> set ks \<longrightarrow> mem' x = ?mem x"
    using Cons.IH [OF k(2), of ?mem] by blast
  have "copy_pages (p # ps) mm mem = Inr (map2 copy_entry (p # ps) (k # ks), mm', mem')"
    using k(1) st r(1) end_frame [OF fb(1)] by (simp add: copy_entry_def src P)
  moreover have "mem' ((k # ks) ! i * PageSize + j) = mem (frames (p # ps) ! i * PageSize + j)"
    if ij: "i < length (p # ps)" "j < PageSize" for i j
  proof (cases i)
    case 0
    have "k \<notin> set ks" using r(5) k(4) by auto
    then show ?thesis using r(8) ij(2) 0 by (simp add: fr)
  next
    case (Suc i')
    then have "frames ps ! i' \<in> set (frames ps)" using ij(1) by simp
    then have "frames ps ! i' \<noteq> k" using Cons.prems(4) k(3) by (auto simp: fr)
    then show ?thesis using r(7) ij Suc by (simp add: fr)
  qed
  ultimately show ?case using r k(3,4) by (intro exI [of _ "k # ks"] exI [of _ mm'] exI [of _ mem']) auto
qed

lemma AddrSpace_AddrSpace_copy_ok:
  assumes "MemoryManager_wf mm" "as_pageTable sp = Some pt" "length pt = as_numPages sp" "space_ok pt"
    "set (frames pt) \<inter> free_pages mm = {}" "as_numPages sp \<le> card (free_pages mm)"
  shows "\<exists>pt' mm' m'. AddrSpace_AddrSpace_copy sp fresh mm m
      = Inr (fresh\<lparr>as_valid := True, as_pageTable := Some pt', as_numPages := as_numPages sp\<rparr>, mm', m')
    \<and> MemoryManager_wf mm' \<and> space_ok pt' \<and> length pt' = as_numPages sp
    \<and> set (frames pt') \<subseteq> free_pages mm \<and> free_pages mm' = free_pages mm - set (frames pt')
    \<and> (\<forall>v < as_numPages sp * PageSize. user_byte (mainMemory m') pt' v = user_byte (mainMemory m) pt v)
    \<and> (\<forall>x. x div PageSize \<notin> set (frames pt') \<longrightarrow> mainMemory m' x = mainMemory m x)
    \<and> m' = m\<lparr>mainMemory := mainMemory m'\<rparr>"
proof -
  obtain ks mm' mem' where r: "copy_pages pt mm (mainMemory m) = Inr (map2 copy_entry pt ks, mm', mem')" "MemoryManager_wf mm'"
      "length ks = length pt" "distinct ks" "set ks \<subseteq> free_pages mm" "free_pages mm' = free_pages mm - set ks"
      "\<forall>i < length pt. \<forall>j < PageSize. mem' (ks ! i * PageSize + j) = mainMemory m (frames pt ! i * PageSize + j)"
      "\<forall>x. x div PageSize \<notin> set ks \<longrightarrow> mem' x = mainMemory m x"
    using copy_pages_ok [OF assms(1) _ assms(4,5)] assms(3,6) by metis
  have ks: "\<forall>k \<in> set ks. k < NumPhysPages" using r(5) free_pages_bound [OF assms(1)] by blast
  define pt' where "pt' = map2 copy_entry pt ks"
  have fr: "frames pt' = ks" using frames_copy [OF r(3) ks] by (simp add: pt'_def)
  have "AddrSpace_AddrSpace_copy sp fresh mm m
      = Inr (fresh\<lparr>as_valid := True, as_pageTable := Some pt', as_numPages := as_numPages sp\<rparr>, mm', m\<lparr>mainMemory := mem'\<rparr>)"
    using assms(2,3,6) r(1) by (simp add: AddrSpace_AddrSpace_copy_def AddrSpace_GetNumPages_def AddrSpace_GetPageTable_def
        MemoryManager_GetFreePageCount_def BitMap_NumClear_ok pt'_def)
  moreover have "user_byte mem' pt' v = user_byte (mainMemory m) pt v" if "v < as_numPages sp * PageSize" for v
    using r(7) page_less [OF that] assms(3) by (simp add: user_byte_def phys_def fr)
  ultimately show ?thesis
    using r assms(3) fr ks
    by (intro exI [of _ pt'] exI [of _ mm'] exI [of _ "m\<lparr>mainMemory := mem'\<rparr>"]) (simp add: space_ok_def pt'_def)
qed

lemma in_int_small: "n < 64 \<Longrightarrow> in_int (int n)"
  by (simp add: in_int_def)

lemma free_frames_ok:
  "MemoryManager_wf mm \<Longrightarrow> space_ok pt \<Longrightarrow> set (frames pt) \<inter> free_pages mm = {} \<Longrightarrow>
   \<exists>mm'. free_frames pt mm = Inr mm' \<and> MemoryManager_wf mm' \<and> free_pages mm' = free_pages mm \<union> set (frames pt)"
proof (induction pt arbitrary: mm)
  case Nil
  then show ?case by (simp add: frames_def)
next
  case (Cons e es)
  let ?k = "unat (physicalPage e)"
  have fr: "frames (e # es) = ?k # frames es" by (simp add: frames_def)
  have k: "?k < NumPhysPages" "?k \<notin> free_pages mm" using Cons.prems(2,3) by (auto simp: fr space_ok_def)
  then have "?k < 64" by (simp add: NumPhysPages_def)
  then have "in_int (int ?k)" by (rule in_int_small)
  then have "sint (of_int (int ?k) :: 32 word) = int ?k" by (rule sint_of_int_in_int)
  then have "sint (physicalPage e) = int ?k" by simp
  moreover obtain mm1 where mm1: "MemoryManager_DeallocatePage mm (int ?k) = Inr (0, mm1)" "MemoryManager_wf mm1"
      "free_pages mm1 = insert ?k (free_pages mm)"
    using MemoryManager_DeallocatePage_ok(2) [OF Cons.prems(1) k] by blast
  moreover have "space_ok es" "set (frames es) \<inter> free_pages mm1 = {}"
    using Cons.prems(2,3) mm1(3) by (auto simp: fr space_ok_def)
  ultimately show ?case using Cons.IH [OF mm1(2)] by (auto simp: fr)
qed

lemma AddrSpace_destroy_ok:
  assumes "MemoryManager_wf mm" "as_pageTable sp = Some pt" "length pt = as_numPages sp" "space_ok pt"
    "set (frames pt) \<inter> free_pages mm = {}"
  shows "\<exists>mm'. AddrSpace_destroy sp mm = Inr (sp\<lparr>as_pageTable := None\<rparr>, mm') \<and> MemoryManager_wf mm'
    \<and> free_pages mm' = free_pages mm \<union> set (frames pt)"
  using free_frames_ok [OF assms(1,4,5)] assms(2,3) by (auto simp: AddrSpace_destroy_def)

text \<open>
  What the constructors leave behind when they return, whatever the executable is: a page table on frames that were free, with
  nothing written outside them.
\<close>

definition space_built :: "AddrSpace \<Rightarrow> MemoryManager \<Rightarrow> MemoryManager \<Rightarrow> (nat \<Rightarrow> byte) \<Rightarrow> (nat \<Rightarrow> byte) \<Rightarrow> bool" where
  "space_built sp mm mm' mem mem' \<longleftrightarrow> as_valid sp \<and> MemoryManager_wf mm' \<and> (\<exists>pt. as_pageTable sp = Some pt \<and> length pt = as_numPages sp \<and> space_ok pt
     \<and> set (frames pt) \<subseteq> free_pages mm \<and> free_pages mm' = free_pages mm - set (frames pt)
     \<and> (\<forall>x. x div PageSize \<notin> set (frames pt) \<longrightarrow> mem' x = mem x))"

lemma AddrSpace_Translate_frame:
  assumes "AddrSpace_Translate pt va = Inr pa" "space_ok pt"
  shows "unat pa div PageSize \<in> set (frames pt)"
proof -
  have v: "unat va < length pt * PageSize"
  proof -
    have "unat va div PageSize < length pt" using assms(1) by (auto simp: AddrSpace_Translate_def Let_def split: if_splits)
    then show ?thesis using div_less_iff_less_mult [of PageSize "unat va" "length pt"] by simp
  qed
  moreover have "unat va < 2 ^ 32" using unsigned_less [of va] by simp
  ultimately obtain pa' where "AddrSpace_Translate pt (of_nat (unat va)) = Inr pa'" "unat pa' = phys pt (unat va)"
    using AddrSpace_Translate_ok [OF assms(2)] by blast
  then show ?thesis using assms(1) phys_bound(2) [OF assms(2) v] by simp
qed

definition reads_bytes :: "reader \<Rightarrow> bool" where
  "reads_bytes readAt \<longleftrightarrow> (\<forall>p bs. readAt 1 p = Inr bs \<longrightarrow> length bs \<le> 1)"

lemma AddrSpace_ReadFile_confined:
  "AddrSpace_ReadFile readAt pt off va cs mem = Inr mem' \<Longrightarrow> space_ok pt \<Longrightarrow> reads_bytes readAt \<Longrightarrow>
   x div PageSize \<notin> set (frames pt) \<Longrightarrow> mem' x = mem x"
proof (induction readAt pt off va cs mem rule: AddrSpace_ReadFile.induct)
  case (2 readAt pt offset virtualAddr counter cs mem)
  obtain pa bs mem1 where s: "AddrSpace_Translate pt (of_int (virtualAddr + int counter)) = Inr pa" "readAt 1 (offset + int counter) = Inr bs"
      "store_bytes (unat pa) bs mem = Inr mem1" "AddrSpace_ReadFile readAt pt offset virtualAddr cs mem1 = Inr mem'"
      "in_int (virtualAddr + int counter)" "in_int (offset + int counter)"
    using 2(2) by (auto simp: result_inv split: if_splits)
  have "mem1 x = mem x"
  proof -
    have "length bs \<le> 1" using s(2) 2(4) by (auto simp: reads_bytes_def)
    then have "mem1 x = mem x" if "x \<noteq> unat pa" using s(3) that by (auto simp: store_bytes_def split: if_splits)
    moreover have "x \<noteq> unat pa" using AddrSpace_Translate_frame [OF s(1) 2(3)] 2(5) by auto
    ultimately show ?thesis by blast
  qed
  moreover have "mem' x = mem1 x" using 2(1) s 2(3-5) by simp
  ultimately show ?case by simp
qed simp

lemma load_segment_confined:
  "load_segment readAt pt seg mem = Inr mem' \<Longrightarrow> space_ok pt \<Longrightarrow> reads_bytes readAt \<Longrightarrow> x div PageSize \<notin> set (frames pt) \<Longrightarrow> mem' x = mem x"
  by (auto simp: load_segment_def intro: AddrSpace_ReadFile_confined split: if_splits)

lemma load_space_built:
  assumes "load_space readAt h sp mm mem = Inr (sp', mm', mem')" "MemoryManager_wf mm" "as_numPages sp \<le> card (free_pages mm)" "reads_bytes readAt"
  shows "space_built sp' mm mm' mem mem' \<and> as_numPages sp' = as_numPages sp \<and> as_pcb sp' = as_pcb sp"
proof -
  let ?n = "as_numPages sp"
  obtain ks mm1 mem1 where a: "alloc_pages [0..<?n] mm mem = Inr (map2 new_entry [0..<?n] ks, mm1, mem1)" "MemoryManager_wf mm1"
      "length ks = ?n" "distinct ks" "set ks \<subseteq> free_pages mm" "free_pages mm1 = free_pages mm - set ks"
      "\<forall>x. mem1 x = (if x div PageSize \<in> set ks then 0 else mem x)"
    using alloc_pages_ok [OF assms(2), of "[0..<?n]" mem] assms(3) by auto
  define pt where "pt = map2 new_entry [0..<?n] ks"
  have ks: "\<forall>k \<in> set ks. k < NumPhysPages" using a(5) free_pages_bound [OF assms(2)] by blast
  have pt: "frames pt = ks" "length pt = ?n" using map2_new_entry [OF _ ks, of "[0..<?n]"] a(3) by (simp_all add: pt_def)
  then have ok: "space_ok pt" using a(4) ks by (simp add: space_ok_def)
  obtain mem2 where m: "load_segment readAt pt (noff_code h) mem1 = Inr mem2" "load_segment readAt pt (noff_initData h) mem2 = Inr mem'"
      "sp' = sp\<lparr>as_pageTable := Some pt, as_valid := True\<rparr>" "mm' = mm1"
    using assms(1) a(1) by (auto simp: load_space_def result_inv pt_def)
  have "mem' x = mem x" if "x div PageSize \<notin> set (frames pt)" for x
    using load_segment_confined [OF m(1) ok assms(4) that] load_segment_confined [OF m(2) ok assms(4) that] a(7) that pt(1) by simp
  then show ?thesis using a(2,5,6) pt ok m(3,4) by (auto simp: space_built_def)
qed

lemma load_check_result:
  assumes "load_check be garbage readAt mm fresh = Inr (sp, h)"
  shows "case h of None \<Rightarrow> \<not> as_valid sp | Some noffH \<Rightarrow> as_numPages sp \<le> card (free_pages mm)"
proof -
  obtain noff where n: "read_noff be garbage readAt = Inr noff" using assms by (auto simp: load_check_def result_inv)
  show ?thesis
  proof (cases noff)
    case None
    then show ?thesis using assms n by (auto simp: load_check_def)
  next
    case (Some noffH)
    then obtain k where k: "space_pages noffH = Inr k" using assms n by (auto simp: load_check_def result_inv)
    have "MemoryManager_GetFreePageCount mm = Inr (int (card (free_pages mm)))" by (simp add: MemoryManager_GetFreePageCount_def BitMap_NumClear_ok)
    then show ?thesis using assms n Some k by (auto simp: load_check_def split: if_splits)
  qed
qed

lemma AddrSpace_AddrSpace_pcb_result:
  assumes "AddrSpace_AddrSpace_pcb garbage readAt p fresh mm m = Inr (sp, mm', m')" "MemoryManager_wf mm" "reads_bytes readAt"
  shows "if as_valid sp then space_built sp mm mm' (mainMemory m) (mainMemory m') \<and> as_pcb sp = p \<and> m' = m\<lparr>mainMemory := mainMemory m'\<rparr>
    else mm' = mm \<and> m' = m"
proof -
  obtain x h where x: "load_check (hostBigEndian m) garbage readAt mm fresh = Inr (x, h)"
    using assms(1) by (auto simp: AddrSpace_AddrSpace_pcb_def result_inv)
  show ?thesis
  proof (cases h)
    case None
    then show ?thesis using assms(1) x load_check_result [OF x] by (simp add: AddrSpace_AddrSpace_pcb_def)
  next
    case (Some noffH)
    then obtain mem where l: "load_space readAt noffH (x\<lparr>as_pcb := p\<rparr>) mm (mainMemory m) = Inr (sp, mm', mem)" "m' = m\<lparr>mainMemory := mem\<rparr>"
      using assms(1) x by (auto simp: AddrSpace_AddrSpace_pcb_def result_inv)
    have "as_numPages (x\<lparr>as_pcb := p\<rparr>) \<le> card (free_pages mm)" using load_check_result [OF x] Some by simp
    from load_space_built [OF l(1) assms(2) this assms(3)]
    have b: "space_built sp mm mm' (mainMemory m) mem" "as_pcb sp = p" by simp_all
    then have "as_valid sp" by (simp add: space_built_def)
    then show ?thesis using b l(2) by simp
  qed
qed

section \<open>Isolation\<close>

lemma store_isolated:
  assumes "tlb m = None" "pageTable m = Some pt" "unat (pageTableSize m) \<le> length pt" "load_pending_ok m" "sz \<in> {1, 2, 4}"
    "Machine_WriteMem m va sz value = Inr (Returned m')"
    "set (frames pt) \<inter> set (frames pt') = {}" "v < length pt' * PageSize"
  shows "user_byte (mainMemory m') pt' v = user_byte (mainMemory m) pt' v"
proof -
  have "mmu_ok m" using assms(1-3) by (simp add: mmu_ok_def)
  from store_confined [OF this assms(4-6)]
  obtain e where e: "entry_for m va = Some e" "\<forall>a. mainMemory m' a \<noteq> mainMemory m a \<longrightarrow> a div PageSize = unat (physicalPage e)"
    by blast
  then have "e \<in> set pt" using assms(1-3) by (auto simp: entry_for_def Let_def split: if_splits)
  then have "unat (physicalPage e) \<in> set (frames pt)" by (auto simp: frames_def)
  moreover have "frames pt' ! (v div PageSize) \<in> set (frames pt')" using page_less [OF assms(8)] by simp
  ultimately have "phys pt' v div PageSize \<noteq> unat (physicalPage e)" using assms(7) by auto
  then show ?thesis using e(2) by (auto simp: user_byte_def)
qed


section \<open>Properties\<close>

text \<open>
  Loading an executable whose segments lie inside its address space and inside the file, when
  there are enough free pages: the constructor succeeds on hosts of both byte orders, the program sees its
  code and data at their addresses and zeros elsewhere (the stack included), whatever the memory held
  before; the pages were free, no page is used twice and memory outside them is untouched.\<close>

theorem program_loaded:
  assumes "MemoryManager_wf mm" "reads readAt f" "program_ok f" "program_pages f \<le> card (free_pages mm)"
    "length garbage = sizeof_NoffHeader"
  shows "\<exists>sp pt mm' m'. AddrSpace_AddrSpace_pcb garbage readAt pcb fresh mm m = Inr (sp, mm', m')
    \<and> as_valid sp \<and> as_pageTable sp = Some pt \<and> as_numPages sp = program_pages f \<and> as_pcb sp = pcb
    \<and> space_ok pt \<and> length pt = program_pages f \<and> MemoryManager_wf mm'
    \<and> set (frames pt) \<subseteq> free_pages mm \<and> free_pages mm' = free_pages mm - set (frames pt)
    \<and> (\<forall>v < program_pages f * PageSize. user_byte (mainMemory m') pt v = program_byte f (noff_of f) v)
    \<and> (\<forall>x. x div PageSize \<notin> set (frames pt) \<longrightarrow> mainMemory m' x = mainMemory m x)"
proof -
  note ok = assms(3) [unfolded program_ok_def Let_def, folded program_pages_def]
  let ?sp = "fresh\<lparr>as_numPages := program_pages f, as_pcb := pcb\<rparr>"
  have "load_check (hostBigEndian m) garbage readAt mm fresh = Inr (fresh\<lparr>as_numPages := program_pages f\<rparr>, Some (noff_of f))"
    using read_noff_ok [OF assms(2) _ assms(5), of "hostBigEndian m"] ok space_pages_ok [OF assms(3)] assms(4)
    by (simp add: load_check_def MemoryManager_GetFreePageCount_def BitMap_NumClear_ok)
  moreover have "\<exists>pt mm' mem'. load_space readAt (noff_of f) ?sp mm (mainMemory m) = Inr (?sp\<lparr>as_pageTable := Some pt, as_valid := True\<rparr>, mm', mem')
    \<and> MemoryManager_wf mm' \<and> space_ok pt \<and> length pt = as_numPages ?sp
    \<and> set (frames pt) \<subseteq> free_pages mm \<and> free_pages mm' = free_pages mm - set (frames pt)
    \<and> (\<forall>v < as_numPages ?sp * PageSize. user_byte mem' pt v = program_byte f (noff_of f) v)
    \<and> (\<forall>x. x div PageSize \<notin> set (frames pt) \<longrightarrow> mem' x = mainMemory m x)"
    using ok assms(4) by (intro load_space_ok [OF assms(1) _ assms(2)]) simp_all
  ultimately show ?thesis by (auto simp: AddrSpace_AddrSpace_pcb_def)
qed

definition sample_program :: "byte list" where
  "sample_program = concat (map word_bytes [0xbadfad, 0, 40, 4, 4, 44, 4, 8, 0, 0]) @ [1, 2, 3, 4, 5, 6, 7, 8]"


lemma sample_program_ok: "program_ok sample_program" "program_pages sample_program = 9"
  by code_simp+

definition sample_reader :: "byte list \<Rightarrow> reader" where
  "sample_reader f n p = Inr (take (nat n) (drop (nat p) f))"

lemma sample_reader_reads: "reads (sample_reader f) f"
  by (simp add: reads_def sample_reader_def)

lemma sample_pages: "\<exists>mm. MemoryManager_wf mm \<and> free_pages mm = {..<64}"
proof -
  obtain bm where bm: "BitMap_wf bm" "numBits bm = NumPhysPages" "marked bm = {}"
    using BitMap_BitMap_ok [of "[0, 0]" NumPhysPages] by (auto simp: divRoundUp_def BitsInWord_def NumPhysPages_def)
  then have "MemoryManager_wf \<lparr>mm_bitmap = bm\<rparr>" "free_pages \<lparr>mm_bitmap = bm\<rparr> = {..<64}"
    by (auto simp: MemoryManager_wf_def clear_bits_def NumPhysPages_def)
  then show ?thesis by blast
qed

theorem program_loaded_witness:
  "\<exists>mm sp pt mm' m'. AddrSpace_AddrSpace_pcb (replicate 40 7) (sample_reader sample_program) 3
      \<lparr>as_pageTable = None, as_numPages = 5, as_valid = False, as_pcb = 0\<rparr> mm (Machine_Machine True 0) = Inr (sp, mm', m')
     \<and> as_pageTable sp = Some pt \<and> user_byte (mainMemory m') pt 6 = 7 \<and> user_byte (mainMemory m') pt 1000 = 0"
proof -
  obtain mm where mm: "MemoryManager_wf mm" "free_pages mm = {..<64}" using sample_pages by blast
  have p: "program_pages sample_program \<le> card (free_pages mm)" by (simp add: mm(2) sample_program_ok(2))
  have "program_byte sample_program (noff_of sample_program) 6 = 7" "program_byte sample_program (noff_of sample_program) 1000 = 0"
    by code_simp+
  moreover have "6 < program_pages sample_program * PageSize" "1000 < program_pages sample_program * PageSize"
      "length (replicate 40 (7 :: byte)) = sizeof_NoffHeader"
    by (simp_all add: sample_program_ok(2) sizeof_NoffHeader_def PageSize_def SectorSize_def)
  ultimately show ?thesis
    using program_loaded [OF mm(1) sample_reader_reads sample_program_ok(1) p, of "replicate 40 7" 3
        "\<lparr>as_pageTable = None, as_numPages = 5, as_valid = False, as_pcb = 0\<rparr>" "Machine_Machine True 0"]
    by metis
qed

text \<open>
  The copy that \<open>Fork\<close> makes of an address space has the same size and the same contents in pages of its
  own, which were free; the original is unchanged. Without enough free pages the copy is marked invalid
  and nothing is allocated.\<close>

theorem space_copied:
  assumes "MemoryManager_wf mm" "as_pageTable sp = Some pt" "length pt = as_numPages sp" "space_ok pt"
    "set (frames pt) \<inter> free_pages mm = {}"
  shows "if as_numPages sp \<le> card (free_pages mm)
    then \<exists>pt' mm' m'. AddrSpace_AddrSpace_copy sp fresh mm m
        = Inr (fresh\<lparr>as_valid := True, as_pageTable := Some pt', as_numPages := as_numPages sp\<rparr>, mm', m')
      \<and> space_ok pt' \<and> set (frames pt') \<subseteq> free_pages mm \<and> free_pages mm' = free_pages mm - set (frames pt')
      \<and> (\<forall>v < as_numPages sp * PageSize. user_byte (mainMemory m') pt' v = user_byte (mainMemory m) pt v
            \<and> user_byte (mainMemory m') pt v = user_byte (mainMemory m) pt v)
    else AddrSpace_AddrSpace_copy sp fresh mm m = Inr (fresh\<lparr>as_valid := False\<rparr>, mm, m)"
proof (cases "as_numPages sp \<le> card (free_pages mm)")
  case True
  obtain pt' mm' m' where c: "AddrSpace_AddrSpace_copy sp fresh mm m
        = Inr (fresh\<lparr>as_valid := True, as_pageTable := Some pt', as_numPages := as_numPages sp\<rparr>, mm', m')"
      "space_ok pt'" "set (frames pt') \<subseteq> free_pages mm" "free_pages mm' = free_pages mm - set (frames pt')"
      "\<forall>v < as_numPages sp * PageSize. user_byte (mainMemory m') pt' v = user_byte (mainMemory m) pt v"
      "\<forall>x. x div PageSize \<notin> set (frames pt') \<longrightarrow> mainMemory m' x = mainMemory m x"
    using AddrSpace_AddrSpace_copy_ok [OF assms True] by metis
  have "user_byte (mainMemory m') pt v = user_byte (mainMemory m) pt v" if "v < as_numPages sp * PageSize" for v
  proof -
    have "phys pt v div PageSize \<in> set (frames pt)" using phys_bound(2) [OF assms(4), of v] that assms(3) by simp
    then have "phys pt v div PageSize \<notin> set (frames pt')" using assms(5) c(3) by blast
    then show ?thesis using c(6) unfolding user_byte_def by blast
  qed
  then show ?thesis using True c by auto
next
  case False
  then show ?thesis
    by (simp add: AddrSpace_AddrSpace_copy_def AddrSpace_GetNumPages_def MemoryManager_GetFreePageCount_def BitMap_NumClear_ok)
qed

theorem space_copied_witness:
  "\<exists>mm sp pt pt' mm' m m'. as_pageTable sp = Some pt \<and> as_numPages sp = 9 \<and> user_byte (mainMemory m) pt 6 = 7
     \<and> AddrSpace_AddrSpace_copy sp sp mm m = Inr (sp\<lparr>as_valid := True, as_pageTable := Some pt', as_numPages := 9\<rparr>, mm', m')
     \<and> user_byte (mainMemory m') pt' 6 = 7"
proof -
  obtain mm where mm: "MemoryManager_wf mm" "free_pages mm = {..<64}" using sample_pages by blast
  let ?sp = "\<lparr>as_pageTable = None, as_numPages = 9, as_valid = False, as_pcb = 0\<rparr>"
  have fits: "segment_fits (as_numPages ?sp) sample_program (noff_code (noff_of sample_program))"
      "segment_fits (as_numPages ?sp) sample_program (noff_initData (noff_of sample_program))"
      "in_int (int (length sample_program))" "program_byte sample_program (noff_of sample_program) 6 = 7"
    by code_simp+
  obtain pt mm1 mem where l: "MemoryManager_wf mm1" "space_ok pt" "length pt = 9" "set (frames pt) \<subseteq> {..<64}"
      "free_pages mm1 = {..<64} - set (frames pt)"
      "\<forall>v < 9 * PageSize. user_byte mem pt v = program_byte sample_program (noff_of sample_program) v"
    using load_space_ok [OF mm(1) _ sample_reader_reads fits(3,1,2), of "\<lambda>_. 0"] mm(2) by auto
  let ?m = "(Machine_Machine False 0)\<lparr>mainMemory := mem\<rparr>" and ?spl = "?sp\<lparr>as_pageTable := Some pt\<rparr>"
  have "card (set (frames pt)) = 9" using l(2,3) by (simp add: space_ok_def distinct_card)
  then have "9 \<le> card (free_pages mm1)" using l(4,5) by (simp add: card_Diff_subset)
  moreover have six: "6 < 9 * PageSize" by (simp add: PageSize_def SectorSize_def)
  ultimately obtain pt' mm' m' where "AddrSpace_AddrSpace_copy ?spl ?spl mm1 ?m
        = Inr (?spl\<lparr>as_valid := True, as_pageTable := Some pt', as_numPages := 9\<rparr>, mm', m')"
      "user_byte (mainMemory m') pt' 6 = user_byte (mainMemory ?m) pt 6"
    using space_copied [OF l(1), of ?spl pt ?spl ?m] l by auto
  moreover have "user_byte (mainMemory ?m) pt 6 = 7" using l(6) six fits(4) by simp
  ultimately show ?thesis by (intro exI [of _ mm1] exI [of _ ?spl] exI [of _ pt] exI [of _ pt'] exI [of _ mm'] exI [of _ ?m] exI [of _ m']) simp
qed

text \<open>
  A store by a running user program never changes a byte of another program's memory, when the two
  address spaces have no page in common, as loading and copying guarantee.\<close>

theorem user_store_isolated:
  assumes "tlb m = None" "pageTable m = Some pt" "unat (pageTableSize m) \<le> length pt" "load_pending_ok m" "sz \<in> {1, 2, 4}"
    "Machine_WriteMem m va sz value = Inr (Returned m')"
    "set (frames pt) \<inter> set (frames pt') = {}" "v < length pt' * PageSize"
  shows "user_byte (mainMemory m') pt' v = user_byte (mainMemory m) pt' v"
  using assms by (rule store_isolated)

theorem user_store_isolated_witness:
  "\<exists>m'. Machine_WriteMem (sample_machine False) 4 4 9 = Inr (Returned m')
     \<and> user_byte (mainMemory m') [new_entry 0 5] 4 = user_byte (mainMemory (sample_machine False)) [new_entry 0 5] 4"
proof -
  obtain m' where m': "Machine_WriteMem (sample_machine False) 4 4 9 = Inr (Returned m')" using sample_store ..
  have f: "frames [new_entry 0 5] = [5]" by (simp add: frames_def new_entry_def)
  have "tlb (sample_machine False) = None" "pageTable (sample_machine False) = Some [sample_entry False]"
      "unat (pageTableSize (sample_machine False)) \<le> length [sample_entry False]"
      "set (frames [sample_entry False]) \<inter> set (frames [new_entry 0 5]) = {}" "4 < length [new_entry 0 5] * PageSize"
    by (simp_all add: sample_machine_def Machine_Machine_def f) (simp_all add: sample_entry_def frames_def PageSize_def SectorSize_def)
  then show ?thesis
    using user_store_isolated [OF _ _ _ sample_machine_ok(2) _ m'] m' by blast
qed

end
