(* ===== verification/Nachos_Threads.thy ===== *)
theory Nachos_Threads
  imports Nachos_Interrupt Nachos_AddrSpace
begin

text \<open>
  \<^verbatim>\<open>threads/thread.cc\<close>, \<^verbatim>\<open>threads/scheduler.cc\<close> and \<^verbatim>\<open>threads/synch.cc\<close>: threads, the ready list, semaphores,
  locks and condition variables, on the simulated interrupts of \<open>Nachos_Interrupt\<close>.

  A thread that is not running has a kernel stack, on which \<^verbatim>\<open>SWITCH\<close> has left it somewhere inside
  \<open>Scheduler::Run\<close>. The stack is modelled as the list of what the thread still has to do, innermost routine
  first: each element of \<open>kcode\<close> is a point in one of the routines, from which the code runs up to its next
  call that may give up the processor, and \<open>kexec\<close> is that code. A routine's call puts its points on
  the stack. A thread can only lose the processor in \<open>Scheduler::Run\<close>, so that executing
  one point after the other of the current thread's stack is the execution of the kernel: \<open>kstep\<close>.
  Below the kernel's routines the stack holds the function that the thread was forked with, whose
  behaviour is arbitrary: \<open>kstep\<close> lets it make any call at any time.

  Threads, semaphores, locks and condition variables are named by numbers, for their addresses.
  A \<open>DELETED\<close> thread is one whose object does not exist. The execution stack
  is reduced to the fencepost that \<open>CheckOverflow\<close> tests.
\<close>

section \<open>State\<close>

datatype ThreadStatus = JUST_CREATED | RUNNING | READY | BLOCKED | DELETED

datatype kcode =
    BodyK int                      \<comment> \<open>the forked function\<close>
  | FinishK                        \<comment> \<open>\<open>ThreadFinish\<close>, when it returns\<close>
  | FinishedK                      \<comment> \<open>not reached\<close>
  | SetLevelK IntStatus            \<comment> \<open>a call of \<open>Interrupt::SetLevel\<close>\<close>
  | TickK                          \<comment> \<open>a call of \<open>Interrupt::OneTick\<close>\<close>
  | TickRestK MachineStatus        \<comment> \<open>\<open>OneTick\<close> after \<open>Yield\<close>\<close>
  | YieldK                         \<comment> \<open>a call of \<open>Thread::Yield\<close>\<close>
  | SleepLoopK                     \<comment> \<open>the loop of \<open>Thread::Sleep\<close>\<close>
  | RunRestK                       \<comment> \<open>\<open>Scheduler::Run\<close> after \<open>SWITCH\<close>\<close>
  | P_loopK nat                    \<comment> \<open>the loop of \<open>Semaphore::P\<close>\<close>
  | AcquireK nat                   \<comment> \<open>a call of \<open>Lock::Acquire\<close>\<close>
  | Acquire_loopK nat              \<comment> \<open>\<open>Acquire\<close> with interrupts disabled\<close>
  | ReleaseK nat bool              \<comment> \<open>a call of \<open>Lock::Release\<close>\<close>
  | Wait_enqueueK nat              \<comment> \<open>\<open>Condition::Wait\<close> with the queue lock\<close>
  | Wait_reacquireK nat nat        \<comment> \<open>\<open>Condition::Wait\<close> after \<open>Sleep\<close>\<close>
  | Signal_dequeueK nat            \<comment> \<open>\<open>Condition::Signal\<close> with the queue lock\<close>
  | WakeK                          \<comment> \<open>\<open>Condition::Signal\<close> after releasing the queue lock\<close>
  | Broadcast_dequeueK nat int     \<comment> \<open>\<open>Condition::Broadcast\<close> with the queue lock\<close>
  | Broadcast_testK nat int        \<comment> \<open>the loop of \<open>Condition::Broadcast\<close>\<close>

text \<open>\<open>th_local\<close> is the local variable \<open>thread\<close> of \<open>Signal\<close> and \<open>Broadcast\<close>, \<open>th_result\<close> a returned value.\<close>

record Thread =
  th_status :: ThreadStatus
  th_stack :: "kcode list"
  th_fencepost :: "32 word option"
  userRegisters :: "nat \<Rightarrow> 32 word"
  th_space :: "nat option"
  th_local :: "nat option"
  th_result :: int

record Semaphore =
  sem_value :: int
  sem_queue :: "nat nlist"

record Lock =
  lock_free :: bool
  lock_queue :: "nat nlist"
  activeThread :: "nat option"

record Condition =
  cond_queue :: "nat nlist"
  queueLock :: nat

record kernel = sim +
  currentThread :: nat
  threads :: "nat \<Rightarrow> Thread"
  readyList :: "nat nlist"
  threadToBeDestroyed :: "nat option"
  semaphores :: "nat \<Rightarrow> Semaphore"
  locks :: "nat \<Rightarrow> Lock"
  conditions :: "nat \<Rightarrow> Condition"
  spaces :: "nat \<Rightarrow> AddrSpace"
  halted :: bool

abbreviation current :: "'a kernel_scheme \<Rightarrow> Thread" where
  "current s \<equiv> threads s (currentThread s)"

definition set_thread :: "nat \<Rightarrow> Thread \<Rightarrow> 'a kernel_scheme \<Rightarrow> 'a kernel_scheme" where
  "set_thread t x s = s\<lparr>threads := (threads s)(t := x)\<rparr>"

definition set_sem :: "nat \<Rightarrow> Semaphore \<Rightarrow> 'a kernel_scheme \<Rightarrow> 'a kernel_scheme" where
  "set_sem i x s = s\<lparr>semaphores := (semaphores s)(i := x)\<rparr>"

definition set_lock :: "nat \<Rightarrow> Lock \<Rightarrow> 'a kernel_scheme \<Rightarrow> 'a kernel_scheme" where
  "set_lock i x s = s\<lparr>locks := (locks s)(i := x)\<rparr>"

definition set_cond :: "nat \<Rightarrow> Condition \<Rightarrow> 'a kernel_scheme \<Rightarrow> 'a kernel_scheme" where
  "set_cond i x s = s\<lparr>conditions := (conditions s)(i := x)\<rparr>"

definition push :: "kcode list \<Rightarrow> 'a kernel_scheme \<Rightarrow> 'a kernel_scheme" where
  "push ks s = set_thread (currentThread s) ((current s)\<lparr>th_stack := ks @ th_stack (current s)\<rparr>) s"

definition pop :: "'a kernel_scheme \<Rightarrow> 'a kernel_scheme" where
  "pop s = set_thread (currentThread s) ((current s)\<lparr>th_stack := tl (th_stack (current s))\<rparr>) s"

section \<open>Threads and the scheduler\<close>

definition STACK_FENCEPOST :: "32 word" where "STACK_FENCEPOST = 0xdeadbeef"

definition Thread_Thread :: "Thread" where
  "Thread_Thread = \<lparr>th_status = JUST_CREATED, th_stack = [], th_fencepost = None, userRegisters = (\<lambda>_. 0),
     th_space = None, th_local = None, th_result = 0\<rparr>"

definition Thread_destroy :: "nat \<Rightarrow> 'a kernel_scheme \<Rightarrow> 'a kernel_scheme result" where
  "Thread_destroy t s = ASSERT (t \<noteq> currentThread s)
     (Inr (set_thread t ((threads s t)\<lparr>th_status := DELETED, th_stack := [], th_fencepost := None\<rparr>) s))"

definition Thread_setStatus :: "nat \<Rightarrow> ThreadStatus \<Rightarrow> 'a kernel_scheme \<Rightarrow> 'a kernel_scheme" where
  "Thread_setStatus t st s = set_thread t ((threads s t)\<lparr>th_status := st\<rparr>) s"

definition Thread_CheckOverflow :: "nat \<Rightarrow> 'a kernel_scheme \<Rightarrow> 'a kernel_scheme result" where
  "Thread_CheckOverflow t s = (case th_fencepost (threads s t) of None \<Rightarrow> Inr s
     | Some w \<Rightarrow> ASSERT (w = STACK_FENCEPOST) (Inr s))"

definition Thread_SaveUserState :: "nat \<Rightarrow> 'a kernel_scheme \<Rightarrow> 'a kernel_scheme result" where
  "Thread_SaveUserState t s = (case machine s of None \<Rightarrow> Inl OutOfBounds
     | Some m \<Rightarrow> Inr (set_thread t ((threads s t)\<lparr>userRegisters :=
         (\<lambda>i. if i < NumTotalRegs then registers m i else userRegisters (threads s t) i)\<rparr>) s))"

definition Thread_RestoreUserState :: "nat \<Rightarrow> 'a kernel_scheme \<Rightarrow> 'a kernel_scheme result" where
  "Thread_RestoreUserState t s = (case machine s of None \<Rightarrow> Inl OutOfBounds
     | Some m \<Rightarrow> Inr (s\<lparr>machine := Some (m\<lparr>registers :=
         (\<lambda>i. if i < NumTotalRegs then userRegisters (threads s t) i else registers m i)\<rparr>)\<rparr>))"

definition Scheduler_ReadyToRun :: "nat \<Rightarrow> 'a kernel_scheme \<Rightarrow> 'a kernel_scheme" where
  "Scheduler_ReadyToRun t s = (let s1 = Thread_setStatus t READY s in s1\<lparr>readyList := List_Append t (readyList s1)\<rparr>)"

definition Scheduler_FindNextToRun :: "'a kernel_scheme \<Rightarrow> nat option \<times> 'a kernel_scheme" where
  "Scheduler_FindNextToRun s = (case List_Remove (readyList s) of (t, rest) \<Rightarrow> (t, s\<lparr>readyList := rest\<rparr>))"

definition Scheduler_RemoveThread :: "nat \<Rightarrow> 'a kernel_scheme \<Rightarrow> int \<times> 'a kernel_scheme" where
  "Scheduler_RemoveThread t s = (case List_RemoveItem t (readyList s) of (r, rest) \<Rightarrow> (r, s\<lparr>readyList := rest\<rparr>))"

text \<open>\<open>Run\<close> up to \<^verbatim>\<open>SWITCH\<close>, which leaves the old thread at its return point and goes on with the new one.\<close>

definition save_user :: "'a kernel_scheme \<Rightarrow> 'a kernel_scheme result" where
  "save_user s = (case th_space (current s) of None \<Rightarrow> Inr s
     | Some sp \<Rightarrow> rbind (Thread_SaveUserState (currentThread s) s) (\<lambda>s1. case machine s1 of None \<Rightarrow> Inl OutOfBounds
         | Some m \<Rightarrow> Inr (s1\<lparr>spaces := (spaces s1)(sp := AddrSpace_SaveState (spaces s1 sp) m)\<rparr>)))"

definition restore_user :: "'a kernel_scheme \<Rightarrow> 'a kernel_scheme result" where
  "restore_user s = (case th_space (current s) of None \<Rightarrow> Inr s
     | Some sp \<Rightarrow> rbind (Thread_RestoreUserState (currentThread s) s) (\<lambda>s1. case machine s1 of None \<Rightarrow> Inl OutOfBounds
         | Some m \<Rightarrow> Inr (s1\<lparr>machine := Some (AddrSpace_RestoreState (spaces s1 sp) m)\<rparr>)))"

definition Scheduler_Run :: "nat \<Rightarrow> 'a kernel_scheme \<Rightarrow> 'a kernel_scheme result" where
  "Scheduler_Run nextThread s =
     (let oldThread = currentThread s in
      rbind (save_user s) (\<lambda>s1.
      rbind (Thread_CheckOverflow oldThread s1) (\<lambda>s2.
        let s3 = push [RunRestK] s2 in
        Inr (Thread_setStatus nextThread RUNNING (s3\<lparr>currentThread := nextThread\<rparr>)))))"

definition Run_rest :: "'a kernel_scheme \<Rightarrow> 'a kernel_scheme result" where
  "Run_rest s = rbind (case threadToBeDestroyed s of None \<Rightarrow> Inr s
     | Some t \<Rightarrow> rbind (Thread_destroy t s) (\<lambda>s1. Inr (s1\<lparr>threadToBeDestroyed := None\<rparr>))) restore_user"

text \<open>The stack of a forked thread: \<open>ThreadRoot\<close> enables interrupts, calls the function and then \<open>ThreadFinish\<close>.\<close>

definition Thread_StackAllocate :: "nat \<Rightarrow> int \<Rightarrow> 'a kernel_scheme \<Rightarrow> 'a kernel_scheme" where
  "Thread_StackAllocate t func s = set_thread t ((threads s t)\<lparr>th_stack := [SetLevelK IntOn, BodyK func, FinishK],
     th_fencepost := Some STACK_FENCEPOST\<rparr>) s"

text \<open>
  \<^verbatim>\<open>IntStatus oldLevel = interrupt->SetLevel(IntOff)\<close> at the start of a routine, and at its end the call that
  restores the level.
\<close>

definition with_ints_off :: "('a kernel_scheme \<Rightarrow> 'a kernel_scheme) \<Rightarrow> 'a kernel_scheme \<Rightarrow> 'a kernel_scheme" where
  "with_ints_off body s = body (push [SetLevelK (level s)] (Interrupt_ChangeLevel IntOff s))"

definition Thread_Fork :: "nat \<Rightarrow> int \<Rightarrow> 'a kernel_scheme \<Rightarrow> 'a kernel_scheme" where
  "Thread_Fork t func s = with_ints_off (Scheduler_ReadyToRun t) (Thread_StackAllocate t func s)"

text \<open>\<open>Sleep\<close> up to its loop, and the loop: once the machine is halted nothing runs any more.\<close>

definition Thread_Sleep :: "'a kernel_scheme \<Rightarrow> 'a kernel_scheme result" where
  "Thread_Sleep s = ASSERT (level s = IntOff) (Inr (push [SleepLoopK] (Thread_setStatus (currentThread s) BLOCKED s)))"

definition Sleep_loop ::
    "(VoidFunctionPtr \<Rightarrow> int \<Rightarrow> 'a kernel_scheme \<Rightarrow> 'a kernel_scheme result) \<Rightarrow> 'a kernel_scheme \<Rightarrow> 'a kernel_scheme run" where
  "Sleep_loop callHandler s = (case Scheduler_FindNextToRun s of
     (Some nextThread, s1) \<Rightarrow> Some (Scheduler_Run nextThread s1)
   | (None, s1) \<Rightarrow> run_bind (Interrupt_Idle callHandler (push [SleepLoopK] s1)) (\<lambda>(goes_on, s2).
       Some (Inr (if goes_on then s2 else s2\<lparr>halted := True\<rparr>))))"

definition Thread_Yield :: "'a kernel_scheme \<Rightarrow> 'a kernel_scheme result" where
  "Thread_Yield s =
     (let s1 = push [SetLevelK (level s)] (Interrupt_ChangeLevel IntOff s) in
      case Scheduler_FindNextToRun s1 of
        (None, s2) \<Rightarrow> Inr s2
      | (Some nextThread, s2) \<Rightarrow> Scheduler_Run nextThread (Scheduler_ReadyToRun (currentThread s2) s2))"

definition Thread_Finish :: "'a kernel_scheme \<Rightarrow> 'a kernel_scheme result" where
  "Thread_Finish s = (let s1 = Interrupt_ChangeLevel IntOff s in
     Thread_Sleep (push [FinishedK] (s1\<lparr>threadToBeDestroyed := Some (currentThread s1)\<rparr>)))"

section \<open>Semaphores\<close>

definition Semaphore_Semaphore :: "int \<Rightarrow> Semaphore" where
  "Semaphore_Semaphore initialValue = \<lparr>sem_value = initialValue, sem_queue = List_empty\<rparr>"

definition Semaphore_P :: "nat \<Rightarrow> 'a kernel_scheme \<Rightarrow> 'a kernel_scheme" where
  "Semaphore_P x = with_ints_off (push [P_loopK x])"

definition P_loop :: "nat \<Rightarrow> 'a kernel_scheme \<Rightarrow> 'a kernel_scheme result" where
  "P_loop x s = (let sem = semaphores s x in
     if sem_value sem = 0
     then Thread_Sleep (push [P_loopK x] (set_sem x (sem\<lparr>sem_queue := List_Append (currentThread s) (sem_queue sem)\<rparr>) s))
     else Inr (set_sem x (sem\<lparr>sem_value := sem_value sem - 1\<rparr>) s))"

text \<open>\<open>V\<close> between the two calls of \<open>SetLevel\<close>; interrupt handlers, which run with interrupts disabled, do only this.\<close>

definition V_body :: "nat \<Rightarrow> 'a kernel_scheme \<Rightarrow> 'a kernel_scheme" where
  "V_body x s = (case List_Remove (sem_queue (semaphores s x)) of (thread, rest) \<Rightarrow>
     let s1 = set_sem x ((semaphores s x)\<lparr>sem_queue := rest, sem_value := sem_value (semaphores s x) + 1\<rparr>) s
     in case thread of None \<Rightarrow> s1 | Some t \<Rightarrow> Scheduler_ReadyToRun t s1)"

definition Semaphore_V :: "nat \<Rightarrow> 'a kernel_scheme \<Rightarrow> 'a kernel_scheme" where
  "Semaphore_V x = with_ints_off (V_body x)"

section \<open>Locks\<close>

definition Lock_Lock :: "bool \<Rightarrow> Lock" where
  "Lock_Lock lFree = \<lparr>lock_free = lFree, lock_queue = List_empty, activeThread = None\<rparr>"

definition Lock_isHeldByCurrentThread :: "nat \<Rightarrow> 'a kernel_scheme \<Rightarrow> bool" where
  "Lock_isHeldByCurrentThread l s \<longleftrightarrow> activeThread (locks s l) = Some (currentThread s)"

definition Lock_Acquire :: "nat \<Rightarrow> 'a kernel_scheme \<Rightarrow> 'a kernel_scheme" where
  "Lock_Acquire l = with_ints_off (push [Acquire_loopK l])"

definition Acquire_loop :: "nat \<Rightarrow> 'a kernel_scheme \<Rightarrow> 'a kernel_scheme result" where
  "Acquire_loop l s = (let lock = locks s l in
     if lock_free lock
     then Inr (set_lock l (lock\<lparr>lock_free := False, activeThread := Some (currentThread s)\<rparr>) s)
     else Thread_Sleep (push [Acquire_loopK l]
            (set_lock l (lock\<lparr>lock_queue := List_Append (currentThread s) (lock_queue lock)\<rparr>) s)))"

definition Release_body :: "nat \<Rightarrow> bool \<Rightarrow> 'a kernel_scheme \<Rightarrow> 'a kernel_scheme" where
  "Release_body l nullActiveThread s =
     (if Lock_isHeldByCurrentThread l s
      then case List_Remove (lock_queue (locks s l)) of (thread, rest) \<Rightarrow>
        let s1 = set_lock l ((locks s l)\<lparr>lock_free := True, lock_queue := rest,
                   activeThread := (if nullActiveThread then None else activeThread (locks s l))\<rparr>) s
        in case thread of None \<Rightarrow> s1 | Some t \<Rightarrow> Scheduler_ReadyToRun t s1
      else s)"

definition Lock_Release :: "nat \<Rightarrow> bool \<Rightarrow> 'a kernel_scheme \<Rightarrow> 'a kernel_scheme" where
  "Lock_Release l nullActiveThread = with_ints_off (Release_body l nullActiveThread)"

section \<open>Condition variables\<close>

definition Condition_Condition :: "nat \<Rightarrow> Condition" where
  "Condition_Condition newLock = \<lparr>cond_queue = List_empty, queueLock = newLock\<rparr>"

definition Condition_Wait :: "nat \<Rightarrow> nat \<Rightarrow> 'a kernel_scheme \<Rightarrow> 'a kernel_scheme result" where
  "Condition_Wait c conditionLock s = ASSERT (Lock_isHeldByCurrentThread conditionLock s)
     (Inr (with_ints_off (\<lambda>s1. push [AcquireK (queueLock (conditions s c)), Wait_enqueueK c, Wait_reacquireK c conditionLock]
        (Release_body conditionLock True s1)) s))"

definition Wait_enqueue :: "nat \<Rightarrow> 'a kernel_scheme \<Rightarrow> 'a kernel_scheme result" where
  "Wait_enqueue c s = (let cond = conditions s c in
     Thread_Sleep (Release_body (queueLock cond) True
       (set_cond c (cond\<lparr>cond_queue := List_Append (currentThread s) (cond_queue cond)\<rparr>) s)))"

definition Condition_Signal :: "nat \<Rightarrow> nat \<Rightarrow> 'a kernel_scheme \<Rightarrow> 'a kernel_scheme result" where
  "Condition_Signal c conditionLock s = ASSERT (Lock_isHeldByCurrentThread conditionLock s)
     (Inr (push [AcquireK (queueLock (conditions s c)), Signal_dequeueK c] s))"

definition set_local :: "nat option \<Rightarrow> 'a kernel_scheme \<Rightarrow> 'a kernel_scheme" where
  "set_local x s = set_thread (currentThread s) ((current s)\<lparr>th_local := x\<rparr>) s"

definition set_result :: "int \<Rightarrow> 'a kernel_scheme \<Rightarrow> 'a kernel_scheme" where
  "set_result x s = set_thread (currentThread s) ((current s)\<lparr>th_result := x\<rparr>) s"

definition cond_dequeue :: "nat \<Rightarrow> 'a kernel_scheme \<Rightarrow> 'a kernel_scheme" where
  "cond_dequeue c s = (case List_Remove (cond_queue (conditions s c)) of (thread, rest) \<Rightarrow>
     set_local thread (set_cond c ((conditions s c)\<lparr>cond_queue := rest\<rparr>) s))"

definition Signal_dequeue :: "nat \<Rightarrow> 'a kernel_scheme \<Rightarrow> 'a kernel_scheme" where
  "Signal_dequeue c s = push [ReleaseK (queueLock (conditions s c)) True, WakeK] (cond_dequeue c s)"

text \<open>\<open>Signal\<close> returns the thread it woke, or NULL.\<close>

definition Signal_wake :: "'a kernel_scheme \<Rightarrow> 'a kernel_scheme" where
  "Signal_wake s = (case th_local (current s) of None \<Rightarrow> set_result 0 s
     | Some t \<Rightarrow> set_result (int t) (set_local None (Scheduler_ReadyToRun t s)))"

definition Condition_Broadcast :: "nat \<Rightarrow> nat \<Rightarrow> 'a kernel_scheme \<Rightarrow> 'a kernel_scheme result" where
  "Condition_Broadcast c conditionLock s = ASSERT (Lock_isHeldByCurrentThread conditionLock s)
     (Inr (push [AcquireK (queueLock (conditions s c)), Broadcast_dequeueK c 0] s))"

definition Broadcast_dequeue :: "nat \<Rightarrow> int \<Rightarrow> 'a kernel_scheme \<Rightarrow> 'a kernel_scheme" where
  "Broadcast_dequeue c i s = push [ReleaseK (queueLock (conditions s c)) True, Broadcast_testK c i] (cond_dequeue c s)"

definition Broadcast_test :: "nat \<Rightarrow> int \<Rightarrow> 'a kernel_scheme \<Rightarrow> 'a kernel_scheme" where
  "Broadcast_test c i s = (case th_local (current s) of None \<Rightarrow> set_result i s
     | Some t \<Rightarrow> push [AcquireK (queueLock (conditions s c)), Broadcast_dequeueK c (i + 1)]
                  (set_local None (Scheduler_ReadyToRun t s)))"

section \<open>Execution\<close>

definition after_tick :: "MachineStatus option \<times> 'a kernel_scheme \<Rightarrow> 'a kernel_scheme" where
  "after_tick r = (case r of (None, s) \<Rightarrow> s | (Some old, s) \<Rightarrow> push [YieldK, TickRestK old] s)"

fun kexec ::
    "(VoidFunctionPtr \<Rightarrow> int \<Rightarrow> 'a kernel_scheme \<Rightarrow> 'a kernel_scheme result) \<Rightarrow> kcode \<Rightarrow> 'a kernel_scheme \<Rightarrow> 'a kernel_scheme run" where
  "kexec h (BodyK f) s = None"
| "kexec h FinishK s = Some (Thread_Finish s)"
| "kexec h FinishedK s = Some (Inl Assertion)"
| "kexec h (SetLevelK l) s = run_bind (Interrupt_SetLevel h l s) (\<lambda>r. Some (Inr (after_tick r)))"
| "kexec h TickK s = run_bind (Interrupt_OneTick h s) (\<lambda>r. Some (Inr (after_tick r)))"
| "kexec h (TickRestK old) s = Some (Inr (s\<lparr>int_status := old\<rparr>))"
| "kexec h YieldK s = Some (Thread_Yield s)"
| "kexec h SleepLoopK s = Sleep_loop h s"
| "kexec h RunRestK s = Some (Run_rest s)"
| "kexec h (P_loopK x) s = Some (P_loop x s)"
| "kexec h (AcquireK l) s = Some (Inr (Lock_Acquire l s))"
| "kexec h (Acquire_loopK l) s = Some (Acquire_loop l s)"
| "kexec h (ReleaseK l b) s = Some (Inr (Lock_Release l b s))"
| "kexec h (Wait_enqueueK c) s = Some (Wait_enqueue c s)"
| "kexec h (Wait_reacquireK c l) s = Some (Inr (Lock_Acquire l s))"
| "kexec h (Signal_dequeueK c) s = Some (Inr (Signal_dequeue c s))"
| "kexec h WakeK s = Some (Inr (Signal_wake s))"
| "kexec h (Broadcast_dequeueK c i) s = Some (Inr (Broadcast_dequeue c i s))"
| "kexec h (Broadcast_testK c i) s = Some (Inr (Broadcast_test c i s))"

text \<open>
  What the code of a thread may do: call a routine of the kernel, change the user's machine and the address spaces (by executing user
  instructions or in a system call), attach a thread to an address space, or return.
\<close>

datatype kcall = CallP nat | CallV nat | CallAcquire nat | CallRelease nat bool | CallWait nat nat
  | CallSignal nat nat | CallBroadcast nat nat | CallYield | CallNew nat | CallFork nat int
  | CallSetLevel IntStatus | CallTick | CallSetStatus MachineStatus | CallMachine Machine "nat \<Rightarrow> AddrSpace"
  | CallSetSpace nat "nat option" | CallReturn

fun kcall_enter :: "kcall \<Rightarrow> 'a kernel_scheme \<Rightarrow> 'a kernel_scheme result" where
  "kcall_enter (CallP x) s = Inr (Semaphore_P x s)"
| "kcall_enter (CallV x) s = Inr (Semaphore_V x s)"
| "kcall_enter (CallAcquire l) s = Inr (Lock_Acquire l s)"
| "kcall_enter (CallRelease l b) s = Inr (Lock_Release l b s)"
| "kcall_enter (CallWait c l) s = Condition_Wait c l s"
| "kcall_enter (CallSignal c l) s = Condition_Signal c l s"
| "kcall_enter (CallBroadcast c l) s = Condition_Broadcast c l s"
| "kcall_enter CallYield s = Inr (push [YieldK] s)"
| "kcall_enter (CallNew t) s = Inr (set_thread t Thread_Thread s)"
| "kcall_enter (CallFork t f) s = Inr (Thread_Fork t f s)"
| "kcall_enter (CallSetLevel l) s = Inr (push [SetLevelK l] s)"
| "kcall_enter CallTick s = Inr (push [TickK] s)"
| "kcall_enter (CallSetStatus m) s = Inr (s\<lparr>int_status := m\<rparr>)"
| "kcall_enter (CallMachine m sps) s = Inr (s\<lparr>machine := Some m, spaces := sps\<rparr>)"
| "kcall_enter (CallSetSpace t sp) s = Inr (set_thread t ((threads s t)\<lparr>th_space := sp\<rparr>) s)"
| "kcall_enter CallReturn s = Inr (pop s)"

text \<open>
  What the callers keep to: the condition lock is held, \<open>Fork\<close> is called once, on a new thread,
  a new object has a fresh address, user instructions run with interrupts enabled and leave a legal pending load, and the machine
  is created before the first address space.
\<close>

fun call_ok :: "kcall \<Rightarrow> 'a kernel_scheme \<Rightarrow> bool" where
  "call_ok (CallWait c l) s \<longleftrightarrow> Lock_isHeldByCurrentThread l s"
| "call_ok (CallSignal c l) s \<longleftrightarrow> Lock_isHeldByCurrentThread l s"
| "call_ok (CallBroadcast c l) s \<longleftrightarrow> Lock_isHeldByCurrentThread l s"
| "call_ok (CallNew t) s \<longleftrightarrow> th_status (threads s t) = DELETED"
| "call_ok (CallFork t f) s \<longleftrightarrow> th_status (threads s t) = JUST_CREATED"
| "call_ok CallTick s \<longleftrightarrow> level s = IntOn"
| "call_ok (CallSetStatus m) s \<longleftrightarrow> m \<noteq> IdleMode"
| "call_ok (CallMachine m sps) s \<longleftrightarrow> load_pending_ok m"
| "call_ok (CallSetSpace t sp) s \<longleftrightarrow> sp \<noteq> None \<longrightarrow> machine s \<noteq> None"
| "call_ok _ s \<longleftrightarrow> True"

inductive kstep ::
    "(VoidFunctionPtr \<Rightarrow> int \<Rightarrow> 'a kernel_scheme \<Rightarrow> 'a kernel_scheme result) \<Rightarrow> 'a kernel_scheme \<Rightarrow> 'a kernel_scheme \<Rightarrow> bool"
  for h where
  exec: "\<not> halted s \<Longrightarrow> th_stack (current s) = k # r \<Longrightarrow> kexec h k (pop s) = Some (Inr s') \<Longrightarrow> kstep h s s'"
| call: "\<not> halted s \<Longrightarrow> th_stack (current s) = BodyK f # r \<Longrightarrow> call_ok c s \<Longrightarrow> kcall_enter c s = Inr s' \<Longrightarrow> kstep h s s'"

end
