(* ===== verification/Nachos_Kernel.thy ===== *)
theory Nachos_Kernel
  imports Nachos_Threads
begin

text \<open>
  The invariant of the thread system of \<open>Nachos_Threads\<close>, first over the status, the stacks and the queues alone, with one lemma for
  each way in which the kernel changes them, then over the state; and the contract \<open>kernel_devices\<close> of the interrupt handlers.
\<close>

section \<open>The invariant of the thread system\<close>

text \<open>
  A thread that has given up the processor is inside \<open>Scheduler::Run\<close>, called from \<open>Sleep\<close> (or still in the loop
  of \<open>Sleep\<close>, when it is the current thread); the next element of its stack tells what it waits for.
\<close>

datatype waitq = SemQ nat | LockQ nat | CondQ nat | FinQ

fun wait_point :: "kcode \<Rightarrow> waitq option" where
  "wait_point (P_loopK x) = Some (SemQ x)"
| "wait_point (Acquire_loopK l) = Some (LockQ l)"
| "wait_point (Wait_reacquireK c l) = Some (CondQ c)"
| "wait_point FinishedK = Some FinQ"
| "wait_point _ = None"

fun waits_for :: "kcode list \<Rightarrow> waitq option" where
  "waits_for (RunRestK # k # r) = wait_point k"
| "waits_for (SleepLoopK # k # r) = wait_point k"
| "waits_for _ = None"

fun queue_of :: "'a kernel_scheme \<Rightarrow> waitq \<Rightarrow> nat list" where
  "queue_of s (SemQ x) = items (sem_queue (semaphores s x))"
| "queue_of s (LockQ l) = items (lock_queue (locks s l))"
| "queue_of s (CondQ c) = items (cond_queue (conditions s c))"
| "queue_of s FinQ = []"

text \<open>
  The interrupt level with which each point of the stack is reached: \<open>lev_ok l ks\<close> holds if the points that need
  interrupts disabled find them so, when the execution of \<open>ks\<close> starts at level \<open>l\<close>.
\<close>

fun lev_ok :: "IntStatus \<Rightarrow> kcode list \<Rightarrow> bool" where
  "lev_ok l [] \<longleftrightarrow> False"
| "lev_ok l (BodyK f # r) \<longleftrightarrow> (\<forall>l'. lev_ok l' r)"
| "lev_ok l (FinishK # r) \<longleftrightarrow> True"
| "lev_ok l (FinishedK # r) \<longleftrightarrow> False"
| "lev_ok l (SetLevelK x # r) \<longleftrightarrow> lev_ok x r"
| "lev_ok l (TickK # r) \<longleftrightarrow> l = IntOn \<and> lev_ok IntOn r"
| "lev_ok l (TickRestK m # r) \<longleftrightarrow> m \<noteq> IdleMode \<and> lev_ok l r"
| "lev_ok l (SleepLoopK # r) \<longleftrightarrow> False"
| "lev_ok l (RunRestK # r) \<longleftrightarrow> l = IntOff \<and> lev_ok IntOff r"
| "lev_ok l (P_loopK x # r) \<longleftrightarrow> l = IntOff \<and> lev_ok IntOff r"
| "lev_ok l (Acquire_loopK x # r) \<longleftrightarrow> l = IntOff \<and> lev_ok IntOff r"
| "lev_ok l (Wait_enqueueK x # r) \<longleftrightarrow> l = IntOff \<and> lev_ok IntOff r \<and> (\<exists>k r'. r = k # r' \<and> wait_point k = Some (CondQ x))"
| "lev_ok l (k # r) \<longleftrightarrow> lev_ok l r"

text \<open>A thread that is not running is allowed, besides, to be in the loop of \<open>Sleep\<close>, or to have finished.\<close>

definition lev_top :: "IntStatus \<Rightarrow> kcode list \<Rightarrow> bool" where
  "lev_top l ks \<longleftrightarrow> lev_ok l ks \<or> l = IntOff \<and> (waits_for ks = Some FinQ \<or> (\<exists>r. ks = SleepLoopK # r \<and> lev_ok IntOff r))"

lemma lev_ok_not_finished: "lev_ok l ks \<Longrightarrow> waits_for ks \<noteq> Some FinQ"
  by (induction ks rule: waits_for.induct) (auto elim!: wait_point.elims)

lemma lev_top_switch: "lev_top IntOff (SleepLoopK # r) \<Longrightarrow> lev_top IntOff (RunRestK # r)"
  by (cases r) (auto simp: lev_top_def)

text \<open>A thread that has taken another one off a condition's queue will wake it.\<close>

fun wake_pending :: "kcode list \<Rightarrow> bool" where
  "wake_pending (WakeK # r) \<longleftrightarrow> True"
| "wake_pending (Broadcast_testK c i # r) \<longleftrightarrow> True"
| "wake_pending (ReleaseK l b # r) \<longleftrightarrow> wake_pending r"
| "wake_pending (SetLevelK l # r) \<longleftrightarrow> wake_pending r"
| "wake_pending (YieldK # r) \<longleftrightarrow> wake_pending r"
| "wake_pending (TickRestK m # r) \<longleftrightarrow> wake_pending r"
| "wake_pending (RunRestK # r) \<longleftrightarrow> wake_pending r"
| "wake_pending _ \<longleftrightarrow> False"

text \<open>The parts of the invariant, over the status, the stacks and the local variables of the threads.\<close>

type_synonym stats_of = "nat \<Rightarrow> ThreadStatus"
type_synonym stacks_of = "nat \<Rightarrow> kcode list"

definition k_run :: "stats_of \<Rightarrow> stacks_of \<Rightarrow> nat \<Rightarrow> bool" where
  "k_run st sk cur \<longleftrightarrow> (\<forall>t. t \<noteq> cur \<longrightarrow> st t \<noteq> RUNNING)
     \<and> (st cur = RUNNING \<or> st cur \<in> {READY, BLOCKED} \<and> (\<exists>r. sk cur = SleepLoopK # r))"

definition k_off :: "stats_of \<Rightarrow> stacks_of \<Rightarrow> nat \<Rightarrow> bool" where
  "k_off st sk cur \<longleftrightarrow> (\<forall>t. st t \<in> {READY, BLOCKED} \<longrightarrow> t \<noteq> cur \<longrightarrow> lev_top IntOff (sk t) \<and> sk t \<noteq> [] \<and> hd (sk t) \<noteq> SleepLoopK)"

definition k_dead :: "stats_of \<Rightarrow> stacks_of \<Rightarrow> bool" where
  "k_dead st sk \<longleftrightarrow> (\<forall>t. st t \<in> {JUST_CREATED, DELETED} \<longrightarrow> sk t = [])"

definition k_fin :: "stats_of \<Rightarrow> stacks_of \<Rightarrow> nat option \<Rightarrow> bool" where
  "k_fin st sk tbd \<longleftrightarrow> (\<forall>t. waits_for (sk t) = Some FinQ \<longrightarrow> st t = BLOCKED) \<and> (\<forall>t. tbd = Some t \<longrightarrow> waits_for (sk t) = Some FinQ)"

definition k_ready :: "stats_of \<Rightarrow> nat list \<Rightarrow> bool" where
  "k_ready st rdy \<longleftrightarrow> distinct rdy \<and> (\<forall>t. t \<in> set rdy \<longleftrightarrow> st t = READY)"

definition k_queues :: "stats_of \<Rightarrow> stacks_of \<Rightarrow> (waitq \<Rightarrow> nat list) \<Rightarrow> bool" where
  "k_queues st sk Q \<longleftrightarrow> (\<forall>q. distinct (Q q)) \<and> (\<forall>q t. t \<in> set (Q q) \<longrightarrow> st t = BLOCKED \<and> waits_for (sk t) = Some q) \<and> Q FinQ = []"

definition k_local :: "stats_of \<Rightarrow> stacks_of \<Rightarrow> (nat \<Rightarrow> nat option) \<Rightarrow> (waitq \<Rightarrow> nat list) \<Rightarrow> bool" where
  "k_local st sk lc Q \<longleftrightarrow> (\<forall>t t'. lc t' = Some t \<longrightarrow> st t = BLOCKED \<and> (\<exists>c. waits_for (sk t) = Some (CondQ c)) \<and> (\<forall>q. t \<notin> set (Q q)))
     \<and> (\<forall>t t1 t2. t1 \<noteq> t2 \<longrightarrow> lc t1 = Some t \<longrightarrow> lc t2 \<noteq> Some t)
     \<and> (\<forall>t. lc t \<noteq> None \<longrightarrow> wake_pending (sk t))"

definition k_blocked :: "stats_of \<Rightarrow> stacks_of \<Rightarrow> (nat \<Rightarrow> nat option) \<Rightarrow> (waitq \<Rightarrow> nat list) \<Rightarrow> bool" where
  "k_blocked st sk lc Q \<longleftrightarrow> (\<forall>t. st t = BLOCKED \<longrightarrow> waits_for (sk t) \<noteq> None
     \<and> (waits_for (sk t) = Some FinQ \<or> (\<exists>q. t \<in> set (Q q)) \<or> (\<exists>t'. lc t' = Some t)))"

definition kok :: "stats_of \<Rightarrow> stacks_of \<Rightarrow> (nat \<Rightarrow> nat option) \<Rightarrow> nat \<Rightarrow> nat list \<Rightarrow> (waitq \<Rightarrow> nat list) \<Rightarrow> nat option \<Rightarrow> bool" where
  "kok st sk lc cur rdy Q tbd \<longleftrightarrow> k_run st sk cur \<and> k_off st sk cur \<and> k_dead st sk \<and> k_fin st sk tbd \<and> k_ready st rdy
     \<and> k_queues st sk Q \<and> k_local st sk lc Q \<and> k_blocked st sk lc Q"

lemma kokD:
  assumes "kok st sk lc cur rdy Q tbd"
  shows "k_run st sk cur" "k_off st sk cur" "k_dead st sk" "k_fin st sk tbd" "k_ready st rdy"
    "k_queues st sk Q" "k_local st sk lc Q" "k_blocked st sk lc Q"
  using assms by (simp_all add: kok_def)

lemma queueD:
  "k_queues st sk Q \<Longrightarrow> t \<in> set (Q q) \<Longrightarrow> st t = BLOCKED" "k_queues st sk Q \<Longrightarrow> t \<in> set (Q q) \<Longrightarrow> waits_for (sk t) = Some q"
  "k_queues st sk Q \<Longrightarrow> t \<in> set (Q q) \<Longrightarrow> q \<noteq> FinQ" "k_queues st sk Q \<Longrightarrow> distinct (Q q)"
  by (auto simp: k_queues_def)

lemma localD:
  "k_local st sk lc Q \<Longrightarrow> lc t' = Some t \<Longrightarrow> t \<notin> set (Q q)" "k_local st sk lc Q \<Longrightarrow> lc t' = Some t \<Longrightarrow> st t = BLOCKED"
  by (auto simp: k_local_def)

lemma k_blockedI:
  assumes "k_blocked st sk lc Q"
    "\<And>t. st' t = BLOCKED \<Longrightarrow> waits_for (sk' t) = Some q0 \<and> (q0 = FinQ \<or> t \<in> set (Q' q0))
      \<or> st t = BLOCKED \<and> waits_for (sk' t) = waits_for (sk t)"
    "\<And>t q. st' t = BLOCKED \<Longrightarrow> t \<in> set (Q q) \<Longrightarrow> t \<in> set (Q' q) \<or> (\<exists>t'. lc' t' = Some t)"
    "\<And>t t'. st' t = BLOCKED \<Longrightarrow> lc t' = Some t \<Longrightarrow> lc' t' = Some t"
  shows "k_blocked st' sk' lc' Q'"
  unfolding k_blocked_def
proof (intro allI impI)
  fix t assume t: "st' t = BLOCKED"
  consider (new) "waits_for (sk' t) = Some q0" "q0 = FinQ \<or> t \<in> set (Q' q0)"
    | (old) "st t = BLOCKED" "waits_for (sk' t) = waits_for (sk t)" using assms(2) [OF t] by blast
  then show "waits_for (sk' t) \<noteq> None \<and> (waits_for (sk' t) = Some FinQ \<or> (\<exists>q. t \<in> set (Q' q)) \<or> (\<exists>t'. lc' t' = Some t))"
  proof cases
    case new then show ?thesis by auto
  next
    case old
    then consider "waits_for (sk t) = Some FinQ" | q where "t \<in> set (Q q)" "waits_for (sk t) \<noteq> None"
      | t' where "lc t' = Some t" "waits_for (sk t) \<noteq> None"
      using assms(1) unfolding k_blocked_def by blast
    then show ?thesis
    proof cases
      case 1 then show ?thesis using old by simp
    next
      case 2 then show ?thesis using old(2) assms(3) [OF t 2(1)] by auto
    next
      case 3 then show ?thesis using old(2) assms(4) [OF t 3(1)] by auto
    qed
  qed
qed

subsection \<open>The primitive changes of state\<close>

text \<open>The running thread calls and returns.\<close>

lemma kok_stack:
  assumes "kok st sk lc cur rdy Q tbd" "st cur = RUNNING" "waits_for ks \<noteq> Some FinQ" "lc cur \<noteq> None \<Longrightarrow> wake_pending ks"
  shows "kok st (sk(cur := ks)) lc cur rdy Q tbd"
  unfolding kok_def
proof (intro conjI)
  note a = kokD [OF assms(1)]
  show "k_run st (sk(cur := ks)) cur" using a(1) assms(2) by (simp add: k_run_def)
  show "k_off st (sk(cur := ks)) cur" using a(2) by (simp add: k_off_def)
  show "k_dead st (sk(cur := ks))" using a(3) assms(2) by (simp add: k_dead_def)
  show "k_fin st (sk(cur := ks)) tbd" using a(4) assms(2,3) by (auto simp: k_fin_def)
  show "k_ready st rdy" by (rule a(5))
  show "k_queues st (sk(cur := ks)) Q" using a(6) assms(2) by (auto simp: k_queues_def)
  show "k_local st (sk(cur := ks)) lc Q" using a(7) assms(2,4) by (auto simp: k_local_def)
  show "k_blocked st (sk(cur := ks)) lc Q" using a(8) assms(2) by (auto simp: k_blocked_def)
qed

text \<open>The first thread of a queue becomes ready.\<close>

lemma kok_wake_queue:
  assumes "kok st sk lc cur rdy Q tbd" "Q q = t # rest"
  shows "kok (st(t := READY)) sk lc cur (rdy @ [t]) (Q(q := rest)) tbd"
  unfolding kok_def
proof (intro conjI)
  note a = kokD [OF assms(1)]
  have tq: "t \<in> set (Q q)" using assms(2) by simp
  have "distinct (Q q)" using a(6) unfolding k_queues_def by blast
  then have r: "t \<notin> set rest" "distinct rest" using assms(2) by simp_all
  have t: "st t = BLOCKED" "waits_for (sk t) = Some q" "q \<noteq> FinQ" using queueD(1-3) [OF a(6) tq] .
  have nl: "lc t' \<noteq> Some t" for t' using a(7) t(2) tq by (auto simp: k_local_def)
  have nq: "t \<in> set (Q q') \<longleftrightarrow> q' = q" for q' using queueD(2) [OF a(6), of t q'] t(2) tq by auto
  show "k_run (st(t := READY)) sk cur" using a(1) t(1) by (auto simp: k_run_def)
  show "k_off (st(t := READY)) sk cur" using a(2) t(1) by (auto simp: k_off_def)
  show "k_dead (st(t := READY)) sk" using a(3) by (auto simp: k_dead_def)
  show "k_fin (st(t := READY)) sk tbd" using a(4) t(2,3) by (auto simp: k_fin_def)
  show "k_ready (st(t := READY)) (rdy @ [t])" using a(5) t(1) by (auto simp: k_ready_def)
  have "st t' = BLOCKED \<and> waits_for (sk t') = Some q" if "t' \<in> set rest" for t'
    using queueD(1,2) [OF a(6), of t' q] assms(2) that by simp
  then show "k_queues (st(t := READY)) sk (Q(q := rest))"
    using a(6) t r nq by (auto simp: k_queues_def)
  have "lc t' \<noteq> Some x" if "x \<in> set rest" for x t' using localD(1) [OF a(7), of t' x q] assms(2) that by auto
  then show "k_local (st(t := READY)) sk lc (Q(q := rest))" using a(7) nl by (auto simp: k_local_def)
  show "k_blocked (st(t := READY)) sk lc (Q(q := rest))"
    by (rule k_blockedI [OF a(8)]) (use assms(2) in \<open>auto split: if_splits\<close>)
qed

text \<open>The running thread goes to sleep in a queue.\<close>

lemma kok_block:
  assumes "kok st sk lc cur rdy Q tbd" "st cur = RUNNING" "lc cur = None" "ks = SleepLoopK # r" "waits_for ks = Some q" "q \<noteq> FinQ"
  shows "kok (st(cur := BLOCKED)) (sk(cur := ks)) lc cur rdy (Q(q := Q q @ [cur])) tbd"
  unfolding kok_def
proof (intro conjI)
  note a = kokD [OF assms(1)]
  have nq: "cur \<notin> set (Q q')" for q' using a(6) assms(2) by (auto simp: k_queues_def)
  have nl: "lc t' \<noteq> Some cur" for t' using a(7) assms(2) by (auto simp: k_local_def)
  have dq: "distinct (Q q')" for q' using a(6) by (simp add: k_queues_def)
  show "k_run (st(cur := BLOCKED)) (sk(cur := ks)) cur" using a(1) assms(4) by (simp add: k_run_def)
  show "k_off (st(cur := BLOCKED)) (sk(cur := ks)) cur" using a(2) by (simp add: k_off_def)
  show "k_dead (st(cur := BLOCKED)) (sk(cur := ks))" using a(3) by (simp add: k_dead_def)
  show "k_fin (st(cur := BLOCKED)) (sk(cur := ks)) tbd" using a(4) assms(2) by (auto simp: k_fin_def)
  show "k_ready (st(cur := BLOCKED)) rdy" using a(5) assms(2) by (auto simp: k_ready_def)
  show "k_queues (st(cur := BLOCKED)) (sk(cur := ks)) (Q(q := Q q @ [cur]))"
    using a(6) assms(5,6) nq dq by (auto simp: k_queues_def)
  show "k_local (st(cur := BLOCKED)) (sk(cur := ks)) lc (Q(q := Q q @ [cur]))"
    using a(7) assms(2,3) nl by (auto simp: k_local_def)
  show "k_blocked (st(cur := BLOCKED)) (sk(cur := ks)) lc (Q(q := Q q @ [cur]))"
    by (rule k_blockedI [OF a(8), of _ _ q]) (use assms(5) in \<open>auto split: if_splits\<close>)
qed

text \<open>The running thread finishes.\<close>

lemma kok_finish:
  assumes "kok st sk lc cur rdy Q tbd" "st cur = RUNNING" "lc cur = None" "ks = SleepLoopK # FinishedK # r"
  shows "kok (st(cur := BLOCKED)) (sk(cur := ks)) lc cur rdy Q (Some cur)"
  unfolding kok_def
proof (intro conjI)
  note a = kokD [OF assms(1)]
  have nq: "cur \<notin> set (Q q')" for q' using a(6) assms(2) by (auto simp: k_queues_def)
  have nl: "lc t' \<noteq> Some cur" for t' using a(7) assms(2) by (auto simp: k_local_def)
  show "k_run (st(cur := BLOCKED)) (sk(cur := ks)) cur" using a(1) assms(4) by (simp add: k_run_def)
  show "k_off (st(cur := BLOCKED)) (sk(cur := ks)) cur" using a(2) by (simp add: k_off_def)
  show "k_dead (st(cur := BLOCKED)) (sk(cur := ks))" using a(3) by (simp add: k_dead_def)
  show "k_fin (st(cur := BLOCKED)) (sk(cur := ks)) (Some cur)" using a(4) assms(4) by (auto simp: k_fin_def)
  show "k_ready (st(cur := BLOCKED)) rdy" using a(5) assms(2) by (auto simp: k_ready_def)
  show "k_queues (st(cur := BLOCKED)) (sk(cur := ks)) Q" using a(6) nq by (auto simp: k_queues_def)
  show "k_local (st(cur := BLOCKED)) (sk(cur := ks)) lc Q" using a(7) assms(2,3) nl by (auto simp: k_local_def)
  show "k_blocked (st(cur := BLOCKED)) (sk(cur := ks)) lc Q" using a(8) assms(4) by (auto simp: k_blocked_def)
qed

text \<open>The first ready thread takes over from a thread that sleeps, which may be that thread itself.\<close>

lemma kok_switch:
  assumes "kok st sk lc cur rdy Q tbd" "rdy = n # rest" "sk cur = SleepLoopK # r" "lev_top IntOff (sk cur)" "st cur \<noteq> RUNNING"
  shows "kok (st(n := RUNNING)) (sk(cur := RunRestK # r)) lc n rest Q tbd"
  unfolding kok_def
proof (intro conjI)
  note a = kokD [OF assms(1)]
  have n: "st n = READY" "n \<notin> set rest" "distinct rest" using a(5) assms(2) by (auto simp: k_ready_def)
  have w: "waits_for (RunRestK # r) = waits_for (sk cur)" using assms(3) by (cases r) simp_all
  have wf: "waits_for ((sk(cur := RunRestK # r)) t) = waits_for (sk t)" for t using w by simp
  have nw: "lc cur = None" using a(7) assms(3) by (auto simp: k_local_def)
  have nq: "n \<notin> set (Q q')" for q' using a(6) n(1) by (auto simp: k_queues_def)
  have nl: "lc t' \<noteq> Some n" for t' using a(7) n(1) by (auto simp: k_local_def)
  have rdy: "t \<in> set rest \<longleftrightarrow> st t = READY \<and> t \<noteq> n" for t using a(5) n assms(2) by (auto simp: k_ready_def)
  show "k_run (st(n := RUNNING)) (sk(cur := RunRestK # r)) n" using a(1) assms(5) by (auto simp: k_run_def)
  show "k_off (st(n := RUNNING)) (sk(cur := RunRestK # r)) n"
    using a(2) assms(3,4) lev_top_switch [of r] by (auto simp: k_off_def)
  show "k_dead (st(n := RUNNING)) (sk(cur := RunRestK # r))" using a(3) assms(3) n(1) by (auto simp: k_dead_def)
  show "k_fin (st(n := RUNNING)) (sk(cur := RunRestK # r)) tbd" using a(4) n(1) unfolding k_fin_def wf by auto
  show "k_ready (st(n := RUNNING)) rest" using rdy n(3) by (auto simp: k_ready_def)
  show "k_queues (st(n := RUNNING)) (sk(cur := RunRestK # r)) Q" using a(6) nq unfolding k_queues_def wf by auto
  show "k_local (st(n := RUNNING)) (sk(cur := RunRestK # r)) lc Q" using a(7) nl nw unfolding k_local_def wf by auto
  show "k_blocked (st(n := RUNNING)) (sk(cur := RunRestK # r)) lc Q" using a(8) unfolding k_blocked_def wf by auto
qed

text \<open>The running thread yields to the first ready one.\<close>

lemma kok_yield:
  assumes "kok st sk lc cur rdy Q tbd" "rdy = n # rest" "st cur = RUNNING" "lev_top IntOff ks" "waits_for ks = None"
    "ks = RunRestK # r" "lc cur \<noteq> None \<Longrightarrow> wake_pending ks"
  shows "kok (st(cur := READY, n := RUNNING)) (sk(cur := ks)) lc n (rest @ [cur]) Q tbd"
  unfolding kok_def
proof (intro conjI)
  note a = kokD [OF assms(1)]
  have n: "st n = READY" "n \<notin> set rest" "distinct rest" using a(5) assms(2) by (auto simp: k_ready_def)
  have cn: "cur \<noteq> n" using n(1) assms(3) by auto
  have rdy: "t \<in> set rest \<longleftrightarrow> st t = READY \<and> t \<noteq> n" for t using a(5) n assms(2) by (auto simp: k_ready_def)
  have nq: "n \<notin> set (Q q')" "cur \<notin> set (Q q')" for q' using a(6) n(1) assms(3) by (auto simp: k_queues_def)
  have nl: "lc t' \<noteq> Some n" "lc t' \<noteq> Some cur" for t' using a(7) n(1) assms(3) by (auto simp: k_local_def)
  let ?st = "st(cur := READY, n := RUNNING)" and ?sk = "sk(cur := ks)"
  show "k_run ?st ?sk n" using a(1) by (auto simp: k_run_def)
  show "k_off ?st ?sk n" using a(2) assms(4,6) by (auto simp: k_off_def)
  show "k_dead ?st ?sk" using a(3) n(1) by (auto simp: k_dead_def)
  show "k_fin ?st ?sk tbd" using a(4) n(1) assms(3,5) by (auto simp: k_fin_def)
  show "k_ready ?st (rest @ [cur])" using rdy n(3) assms(3) cn by (auto simp: k_ready_def)
  show "k_queues ?st ?sk Q" using a(6) nq by (auto simp: k_queues_def)
  show "k_local ?st ?sk lc Q" using a(7) nl assms(7) by (auto simp: k_local_def)
  show "k_blocked ?st ?sk lc Q" using a(8) by (auto simp: k_blocked_def)
qed

text \<open>A finished thread is deleted, a new one is created and forked.\<close>

lemma kok_destroy:
  assumes "kok st sk lc cur rdy Q (Some t)" "t \<noteq> cur"
  shows "kok (st(t := DELETED)) (sk(t := [])) lc cur rdy Q None"
  unfolding kok_def
proof (intro conjI)
  note a = kokD [OF assms(1)]
  have t: "waits_for (sk t) = Some FinQ" "st t = BLOCKED" using a(4) by (auto simp: k_fin_def)
  have nq: "t \<notin> set (Q q')" for q' using a(6) t(1) unfolding k_queues_def by (metis empty_iff list.set(1) option.inject)
  have nl: "lc t' \<noteq> Some t" for t' using a(7) t(1) by (auto simp: k_local_def)
  have "\<not> wake_pending (sk t)"
    using t(1) by (cases "sk t" rule: waits_for.cases) (auto elim: wait_point.elims)
  then have lt: "lc t = None" using a(7) by (auto simp: k_local_def)
  show "k_run (st(t := DELETED)) (sk(t := [])) cur" using a(1) assms(2) by (auto simp: k_run_def)
  show "k_off (st(t := DELETED)) (sk(t := [])) cur" using a(2) by (auto simp: k_off_def)
  show "k_dead (st(t := DELETED)) (sk(t := []))" using a(3) by (auto simp: k_dead_def)
  show "k_fin (st(t := DELETED)) (sk(t := [])) None" using a(4) by (auto simp: k_fin_def)
  show "k_ready (st(t := DELETED)) rdy" using a(5) t(2) by (auto simp: k_ready_def)
  show "k_queues (st(t := DELETED)) (sk(t := [])) Q" using a(6) nq by (auto simp: k_queues_def)
  show "k_local (st(t := DELETED)) (sk(t := [])) lc Q" using a(7) nl lt by (auto simp: k_local_def)
  show "k_blocked (st(t := DELETED)) (sk(t := [])) lc Q" using a(8) by (auto simp: k_blocked_def)
qed

lemma kok_new:
  assumes "kok st sk lc cur rdy Q tbd" "st t = DELETED"
  shows "kok (st(t := JUST_CREATED)) (sk(t := [])) (lc(t := None)) cur rdy Q tbd"
  unfolding kok_def
proof (intro conjI)
  note a = kokD [OF assms(1)]
  have sk: "sk t = []" using a(3) assms(2) by (simp add: k_dead_def)
  have sk': "sk(t := []) = sk" using sk by auto
  have "lc t = None" using a(7) sk by (auto simp: k_local_def)
  then have lc: "lc(t := None) = lc" by auto
  show "k_run (st(t := JUST_CREATED)) (sk(t := [])) cur" using a(1) assms(2) by (auto simp: k_run_def)
  show "k_off (st(t := JUST_CREATED)) (sk(t := [])) cur" using a(2) by (auto simp: k_off_def)
  show "k_dead (st(t := JUST_CREATED)) (sk(t := []))" using a(3) by (auto simp: k_dead_def)
  show "k_fin (st(t := JUST_CREATED)) (sk(t := [])) tbd" using a(4) sk unfolding sk' by (auto simp: k_fin_def)
  show "k_ready (st(t := JUST_CREATED)) rdy" using a(5) assms(2) by (auto simp: k_ready_def)
  show "k_queues (st(t := JUST_CREATED)) (sk(t := [])) Q" using a(6) assms(2) unfolding sk' by (auto simp: k_queues_def)
  show "k_local (st(t := JUST_CREATED)) (sk(t := [])) (lc(t := None)) Q" using a(7) assms(2) unfolding sk' lc by (auto simp: k_local_def)
  show "k_blocked (st(t := JUST_CREATED)) (sk(t := [])) (lc(t := None)) Q" using a(8) unfolding sk' lc by (auto simp: k_blocked_def)
qed

lemma kok_fork:
  assumes "kok st sk lc cur rdy Q tbd" "st t = JUST_CREATED" "ks = [SetLevelK IntOn, BodyK f, FinishK]"
  shows "kok (st(t := READY)) (sk(t := ks)) lc cur (rdy @ [t]) Q tbd"
  unfolding kok_def
proof (intro conjI)
  note a = kokD [OF assms(1)]
  have sk: "sk t = []" using a(3) assms(2) by (simp add: k_dead_def)
  have lt: "lc t = None" using a(7) sk by (auto simp: k_local_def)
  have tc: "t \<noteq> cur" using a(1) assms(2) by (auto simp: k_run_def)
  show "k_run (st(t := READY)) (sk(t := ks)) cur" using a(1) tc by (auto simp: k_run_def)
  show "k_off (st(t := READY)) (sk(t := ks)) cur" using a(2) assms(3) by (auto simp: k_off_def lev_top_def)
  show "k_dead (st(t := READY)) (sk(t := ks))" using a(3) by (auto simp: k_dead_def)
  show "k_fin (st(t := READY)) (sk(t := ks)) tbd" using a(4) assms(2,3) by (auto simp: k_fin_def)
  show "k_ready (st(t := READY)) (rdy @ [t])" using a(5) assms(2) by (auto simp: k_ready_def)
  show "k_queues (st(t := READY)) (sk(t := ks)) Q" using a(6) assms(2) by (auto simp: k_queues_def)
  show "k_local (st(t := READY)) (sk(t := ks)) lc Q" using a(7) assms(2) lt by (auto simp: k_local_def)
  show "k_blocked (st(t := READY)) (sk(t := ks)) lc Q" using a(8) assms(2) by (auto simp: k_blocked_def)
qed

text \<open>The running thread takes a thread off a condition's queue, and wakes it later.\<close>

lemma kok_dequeue:
  assumes "kok st sk lc cur rdy Q tbd" "st cur = RUNNING" "lc cur = None" "Q (CondQ c) = t # rest"
    "wake_pending ks" "waits_for ks \<noteq> Some FinQ"
  shows "kok st (sk(cur := ks)) (lc(cur := Some t)) cur rdy (Q(CondQ c := rest)) tbd"
  unfolding kok_def
proof (intro conjI)
  note a = kokD [OF assms(1)]
  have tq: "t \<in> set (Q (CondQ c))" using assms(4) by simp
  have "distinct (Q (CondQ c))" using a(6) unfolding k_queues_def by blast
  then have r: "t \<notin> set rest" "distinct rest" using assms(4) by simp_all
  have t: "st t = BLOCKED" "waits_for (sk t) = Some (CondQ c)" using a(6) tq by (auto simp: k_queues_def)
  have nl: "lc t' \<noteq> Some t" for t' using a(7) t(2) tq by (auto simp: k_local_def)
  have tc: "t \<noteq> cur" using t(1) assms(2) by auto
  show "k_run st (sk(cur := ks)) cur" using a(1) assms(2) by (simp add: k_run_def)
  show "k_off st (sk(cur := ks)) cur" using a(2) by (simp add: k_off_def)
  show "k_dead st (sk(cur := ks))" using a(3) assms(2) by (simp add: k_dead_def)
  show "k_fin st (sk(cur := ks)) tbd" using a(4) assms(2,6) by (auto simp: k_fin_def)
  show "k_ready st rdy" by (rule a(5))
  have "st t' = BLOCKED \<and> waits_for (sk t') = Some (CondQ c)" if "t' \<in> set rest" for t'
    using queueD(1,2) [OF a(6), of t' "CondQ c"] assms(4) that by simp
  then show "k_queues st (sk(cur := ks)) (Q(CondQ c := rest))" using a(6) assms(2) r(2) by (auto simp: k_queues_def)
  have nq: "t \<notin> set (Q q)" if "q \<noteq> CondQ c" for q using queueD(2) [OF a(6), of t q] t(2) that by auto
  have "lc t' \<noteq> Some x" if "x \<in> set rest" for x t'
    using localD(1) [OF a(7), of t' x "CondQ c"] assms(4) that by auto
  then show "k_local st (sk(cur := ks)) (lc(cur := Some t)) (Q(CondQ c := rest))"
    using a(7) assms(2,5) t tc nl nq r(1) by (auto simp: k_local_def)
  show "k_blocked st (sk(cur := ks)) (lc(cur := Some t)) (Q(CondQ c := rest))"
    by (rule k_blockedI [OF a(8)]) (use assms(2,3,4) in \<open>auto split: if_splits\<close>)
qed

lemma kok_wake_local:
  assumes "kok st sk lc cur rdy Q tbd" "st cur = RUNNING" "lc cur = Some t" "waits_for ks \<noteq> Some FinQ"
  shows "kok (st(t := READY)) (sk(cur := ks)) (lc(cur := None)) cur (rdy @ [t]) Q tbd"
  unfolding kok_def
proof (intro conjI)
  note a = kokD [OF assms(1)]
  obtain c where t: "st t = BLOCKED" "waits_for (sk t) = Some (CondQ c)" and nq: "\<And>q. t \<notin> set (Q q)"
    using a(7) assms(3) by (auto simp: k_local_def)
  have nl: "lc t' \<noteq> Some t" if "t' \<noteq> cur" for t' using a(7) assms(3) that by (auto simp: k_local_def)
  have tc: "t \<noteq> cur" using t(1) assms(2) by auto
  let ?st = "st(t := READY)" and ?sk = "sk(cur := ks)" and ?lc = "lc(cur := None)"
  show "k_run ?st ?sk cur" using a(1) assms(2) tc by (auto simp: k_run_def)
  show "k_off ?st ?sk cur" using a(2) t(1) by (auto simp: k_off_def)
  show "k_dead ?st ?sk" using a(3) assms(2) tc by (auto simp: k_dead_def)
  show "k_fin ?st ?sk tbd" using a(4) assms(2,4) t(2) tc by (auto simp: k_fin_def)
  show "k_ready ?st (rdy @ [t])" using a(5) t(1) by (auto simp: k_ready_def)
  show "k_queues ?st ?sk Q" using a(6) nq assms(2) by (auto simp: k_queues_def)
  show "k_local ?st ?sk ?lc Q" using a(7) nl assms(2) by (auto simp: k_local_def)
  show "k_blocked ?st ?sk ?lc Q"
    by (rule k_blockedI [OF a(8)]) (use assms(2,3) in \<open>auto split: if_splits\<close>)
qed


subsection \<open>No wake-up is lost\<close>

text \<open>
  A thread that waits for a semaphore or a lock is woken to test it again. \<open>retests\<close> is what a thread will test next
  when it gets the processor, \<open>awake\<close> counts the ready or running threads that will test \<open>q\<close>. As long as a thread is queued,
  there is an awake thread for each unit of the semaphore (or for a free lock): a thread does not sleep forever on a resource that is free.
\<close>

fun retests :: "kcode list \<Rightarrow> waitq option" where
  "retests [] = None"
| "retests (RunRestK # r) = (case r of [] \<Rightarrow> None | k # _ \<Rightarrow> wait_point k)"
| "retests (SleepLoopK # r) = (case r of [] \<Rightarrow> None | k # _ \<Rightarrow> wait_point k)"
| "retests (k # r) = wait_point k"

definition testers :: "stacks_of \<Rightarrow> waitq \<Rightarrow> nat list \<Rightarrow> nat" where
  "testers sk q ts = length (filter (\<lambda>t. retests (sk t) = Some q) ts)"

definition awake :: "stats_of \<Rightarrow> stacks_of \<Rightarrow> nat \<Rightarrow> nat list \<Rightarrow> waitq \<Rightarrow> nat" where
  "awake st sk cur rdy q = testers sk q rdy + of_bool (st cur = RUNNING \<and> retests (sk cur) = Some q)"

definition kwake :: "stats_of \<Rightarrow> stacks_of \<Rightarrow> nat \<Rightarrow> nat list \<Rightarrow> (waitq \<Rightarrow> nat list) \<Rightarrow> (waitq \<Rightarrow> int) \<Rightarrow> bool" where
  "kwake st sk cur rdy Q V \<longleftrightarrow> (\<forall>q. Q q \<noteq> [] \<longrightarrow> V q \<le> int (awake st sk cur rdy q))"

definition K where
  "K st sk lc cur rdy Q tbd V \<longleftrightarrow> kok st sk lc cur rdy Q tbd \<and> kwake st sk cur rdy Q V"

lemma testers_simps [simp]:
  "testers sk q [] = 0" "testers sk q (t # ts) = of_bool (retests (sk t) = Some q) + testers sk q ts"
  "testers sk q (ts @ us) = testers sk q ts + testers sk q us"
  by (simp_all add: testers_def)

lemma testers_upd [simp]:
  assumes "t \<notin> set ts"
  shows "testers (sk(t := ks)) q ts = testers sk q ts"
proof -
  have "filter (\<lambda>u. retests ((sk(t := ks)) u) = Some q) ts = filter (\<lambda>u. retests (sk u) = Some q) ts"
    using assms by (intro filter_cong) auto
  then show ?thesis unfolding testers_def by simp
qed

lemma kwakeI:
  assumes "kwake st sk cur rdy Q V" "\<And>q. Q' q \<noteq> [] \<Longrightarrow> 0 < V' q \<Longrightarrow> Q q \<noteq> [] \<and> V' q + int (awake st sk cur rdy q) \<le> V q + int (awake st' sk' cur' rdy' q)"
  shows "kwake st' sk' cur' rdy' Q' V'"
  unfolding kwake_def
proof (intro allI impI)
  fix q assume q: "Q' q \<noteq> []"
  show "V' q \<le> int (awake st' sk' cur' rdy' q)"
  proof (cases "0 < V' q")
    case True
    then show ?thesis using assms(2) [OF q] assms(1) unfolding kwake_def by force
  qed simp
qed

lemma kwake_more:
  assumes "kwake st sk cur rdy Q V" "\<And>q. awake st sk cur rdy q \<le> awake st' sk' cur' rdy' q"
  shows "kwake st' sk' cur' rdy' Q V"
proof (rule kwakeI [OF assms(1)])
  fix q assume "Q q \<noteq> []"
  then show "Q q \<noteq> [] \<and> V q + int (awake st sk cur rdy q) \<le> V q + int (awake st' sk' cur' rdy' q)" using assms(2) [of q] by simp
qed

lemma K_notready:
  assumes "K st sk lc cur rdy Q tbd V" "st t \<noteq> READY"
  shows "t \<notin> set rdy"
  using assms kokD(5) by (fastforce simp: K_def k_ready_def)

lemma K_stack:
  assumes "K st sk lc cur rdy Q tbd V" "st cur = RUNNING" "waits_for ks \<noteq> Some FinQ" "lc cur \<noteq> None \<Longrightarrow> wake_pending ks"
    "\<And>q. Q q \<noteq> [] \<Longrightarrow> V' q \<le> V q" "\<And>q. retests (sk cur) = Some q \<Longrightarrow> Q q \<noteq> [] \<Longrightarrow> 0 < V' q \<Longrightarrow> retests ks = Some q \<or> V' q < V q"
  shows "K st (sk(cur := ks)) lc cur rdy Q tbd V'"
  unfolding K_def
proof
  show "kok st (sk(cur := ks)) lc cur rdy Q tbd" using assms(1-4) kok_stack by (auto simp: K_def)
  have n: "cur \<notin> set rdy" using K_notready [OF assms(1)] assms(2) by simp
  show "kwake st (sk(cur := ks)) cur rdy Q V'"
    by (rule kwakeI [of st sk cur rdy Q V]) (use assms n in \<open>force simp: K_def awake_def\<close>)+
qed

lemma K_wake_queue:
  assumes "K st sk lc cur rdy Q tbd V" "Q q = t # rest" "V' q \<le> V q + 1" "\<And>q'. q' \<noteq> q \<Longrightarrow> V' q' = V q'" "q = SemQ x \<or> q = LockQ x"
  shows "K (st(t := READY)) sk lc cur (rdy @ [t]) (Q(q := rest)) tbd V'"
  unfolding K_def
proof
  have a: "kok st sk lc cur rdy Q tbd" using assms(1) by (simp add: K_def)
  show "kok (st(t := READY)) sk lc cur (rdy @ [t]) (Q(q := rest)) tbd" using kok_wake_queue [OF a assms(2)] .
  have t: "st t = BLOCKED" "waits_for (sk t) = Some q" using queueD(1,2) [OF kokD(6) [OF a], of t q] assms(2) by simp_all
  then have r: "retests (sk t) = Some q" by (cases "sk t" rule: waits_for.cases) auto
  show "kwake (st(t := READY)) sk cur (rdy @ [t]) (Q(q := rest)) V'"
  proof (rule kwakeI [of st sk cur rdy Q V])
    show "kwake st sk cur rdy Q V" using assms(1) by (simp add: K_def)
    fix q' assume "(Q(q := rest)) q' \<noteq> []" "0 < V' q'"
    then show "Q q' \<noteq> [] \<and> V' q' + int (awake st sk cur rdy q') \<le> V q' + int (awake (st(t := READY)) sk cur (rdy @ [t]) q')"
      using assms(2-4) t(1) r by (cases "q' = q") (auto simp: awake_def)
  qed
qed

lemma K_block:
  assumes "K st sk lc cur rdy Q tbd V" "st cur = RUNNING" "lc cur = None" "ks = SleepLoopK # r" "waits_for ks = Some q" "q \<noteq> FinQ"
    "V q \<le> 0" "\<And>q'. retests (sk cur) = Some q' \<Longrightarrow> V q' \<le> 0"
  shows "K (st(cur := BLOCKED)) (sk(cur := ks)) lc cur rdy (Q(q := Q q @ [cur])) tbd V"
  unfolding K_def
proof
  have kok1: "kok st sk lc cur rdy Q tbd" using assms(1) by (simp add: K_def)
  show "kok (st(cur := BLOCKED)) (sk(cur := ks)) lc cur rdy (Q(q := Q q @ [cur])) tbd"
    using kok_block [OF kok1 assms(2-6)] .
  have n: "cur \<notin> set rdy" using K_notready [OF assms(1)] assms(2) by simp
  show "kwake (st(cur := BLOCKED)) (sk(cur := ks)) cur rdy (Q(q := Q q @ [cur])) V"
  proof (rule kwakeI [of st sk cur rdy Q V])
    show "kwake st sk cur rdy Q V" using assms(1) by (simp add: K_def)
    fix q' assume q': "(Q(q := Q q @ [cur])) q' \<noteq> []" "0 < V q'"
    then have "q' \<noteq> q" "retests (sk cur) \<noteq> Some q'" using assms(7,8) by force+
    then show "Q q' \<noteq> [] \<and> V q' + int (awake st sk cur rdy q') \<le> V q' + int (awake (st(cur := BLOCKED)) (sk(cur := ks)) cur rdy q')"
      using q' n by (auto simp: awake_def)
  qed
qed

lemma K_finish:
  assumes "K st sk lc cur rdy Q tbd V" "st cur = RUNNING" "lc cur = None" "ks = SleepLoopK # FinishedK # r" "retests (sk cur) = None"
  shows "K (st(cur := BLOCKED)) (sk(cur := ks)) lc cur rdy Q (Some cur) V"
  unfolding K_def
proof
  have kok1: "kok st sk lc cur rdy Q tbd" using assms(1) by (simp add: K_def)
  show "kok (st(cur := BLOCKED)) (sk(cur := ks)) lc cur rdy Q (Some cur)" using kok_finish [OF kok1 assms(2-4)] .
  have n: "cur \<notin> set rdy" using K_notready [OF assms(1)] assms(2) by simp
  show "kwake (st(cur := BLOCKED)) (sk(cur := ks)) cur rdy Q V"
    by (rule kwakeI [of st sk cur rdy Q V]) (use assms n in \<open>auto simp: K_def awake_def\<close>)
qed

lemma K_switch:
  assumes "K st sk lc cur rdy Q tbd V" "rdy = n # rest" "sk cur = SleepLoopK # r" "lev_top IntOff (sk cur)" "st cur \<noteq> RUNNING"
  shows "K (st(n := RUNNING)) (sk(cur := RunRestK # r)) lc n rest Q tbd V"
  unfolding K_def
proof
  have kok1: "kok st sk lc cur rdy Q tbd" using assms(1) by (simp add: K_def)
  show "kok (st(n := RUNNING)) (sk(cur := RunRestK # r)) lc n rest Q tbd" using kok_switch [OF kok1 assms(2-5)] .
  have "retests ((sk(cur := RunRestK # r)) t) = retests (sk t)" for t using assms(3) by simp
  then have "testers (sk(cur := RunRestK # r)) q ts = testers sk q ts" "retests ((sk(cur := RunRestK # r)) t) = retests (sk t)" for q t ts
    by (simp_all only: testers_def)
  then have "awake st sk cur rdy q = awake (st(n := RUNNING)) (sk(cur := RunRestK # r)) n rest q" for q
    using assms(2,5) by (simp add: awake_def del: fun_upd_apply) (simp add: fun_upd_def)
  then show "kwake (st(n := RUNNING)) (sk(cur := RunRestK # r)) n rest Q V" using assms(1) by (simp add: K_def kwake_def)
qed

lemma K_yield:
  assumes "K st sk lc cur rdy Q tbd V" "rdy = n # rest" "st cur = RUNNING" "lev_top IntOff ks" "waits_for ks = None"
    "ks = RunRestK # r" "lc cur \<noteq> None \<Longrightarrow> wake_pending ks" "retests (sk cur) = None"
  shows "K (st(cur := READY, n := RUNNING)) (sk(cur := ks)) lc n (rest @ [cur]) Q tbd V"
  unfolding K_def
proof
  have a: "kok st sk lc cur rdy Q tbd" using assms(1) by (simp add: K_def)
  show "kok (st(cur := READY, n := RUNNING)) (sk(cur := ks)) lc n (rest @ [cur]) Q tbd" using kok_yield [OF a assms(2-7)] .
  have n: "cur \<notin> set rdy" using K_notready [OF assms(1)] assms(3) by simp
  have "retests ks = None" using assms(5,6) by (cases r) simp_all
  then have "awake st sk cur rdy q = awake (st(cur := READY, n := RUNNING)) (sk(cur := ks)) n (rest @ [cur]) q" for q
    using assms(2,8) n by (auto simp: awake_def)
  then show "kwake (st(cur := READY, n := RUNNING)) (sk(cur := ks)) n (rest @ [cur]) Q V" using assms(1) by (simp add: K_def kwake_def)
qed

lemma K_destroy:
  assumes "K st sk lc cur rdy Q (Some t) V" "t \<noteq> cur"
  shows "K (st(t := DELETED)) (sk(t := [])) lc cur rdy Q None V"
  unfolding K_def
proof
  have a: "kok st sk lc cur rdy Q (Some t)" using assms(1) by (simp add: K_def)
  show "kok (st(t := DELETED)) (sk(t := [])) lc cur rdy Q None" using kok_destroy [OF a assms(2)] .
  have "t \<notin> set rdy" using K_notready [OF assms(1), of t] kokD(4) [OF a] by (simp add: k_fin_def)
  then have "awake st sk cur rdy q = awake (st(t := DELETED)) (sk(t := [])) cur rdy q" for q
    using assms(2) by (auto simp: awake_def)
  then show "kwake (st(t := DELETED)) (sk(t := [])) cur rdy Q V" using assms(1) by (simp add: K_def kwake_def)
qed

lemma K_new:
  assumes "K st sk lc cur rdy Q tbd V" "st t = DELETED"
  shows "K (st(t := JUST_CREATED)) (sk(t := [])) (lc(t := None)) cur rdy Q tbd V"
  unfolding K_def
proof
  have a: "kok st sk lc cur rdy Q tbd" using assms(1) by (simp add: K_def)
  show "kok (st(t := JUST_CREATED)) (sk(t := [])) (lc(t := None)) cur rdy Q tbd" using kok_new [OF a assms(2)] .
  have "sk(t := []) = sk" using kokD(3) [OF a] assms(2) by (auto simp: k_dead_def)
  moreover have "t \<noteq> cur" using kokD(1) [OF a] assms(2) by (auto simp: k_run_def)
  ultimately show "kwake (st(t := JUST_CREATED)) (sk(t := [])) cur rdy Q V" using assms(1) by (simp add: K_def kwake_def awake_def)
qed

lemma K_fork:
  assumes "K st sk lc cur rdy Q tbd V" "st t = JUST_CREATED" "ks = [SetLevelK IntOn, BodyK f, FinishK]"
  shows "K (st(t := READY)) (sk(t := ks)) lc cur (rdy @ [t]) Q tbd V"
  unfolding K_def
proof
  have a: "kok st sk lc cur rdy Q tbd" using assms(1) by (simp add: K_def)
  show "kok (st(t := READY)) (sk(t := ks)) lc cur (rdy @ [t]) Q tbd" using kok_fork [OF a assms(2,3)] .
  have "t \<notin> set rdy" using K_notready [OF assms(1), of t] assms(2) by simp
  moreover have "t \<noteq> cur" using kokD(1) [OF a] assms(2) by (auto simp: k_run_def)
  ultimately have "awake st sk cur rdy q \<le> awake (st(t := READY)) (sk(t := ks)) cur (rdy @ [t]) q" for q
    by (auto simp: awake_def)
  then show "kwake (st(t := READY)) (sk(t := ks)) cur (rdy @ [t]) Q V"
    using assms(1) kwake_more unfolding K_def by blast
qed

lemma K_dequeue:
  assumes "K st sk lc cur rdy Q tbd V" "st cur = RUNNING" "lc cur = None" "Q (CondQ c) = t # rest"
    "wake_pending ks" "waits_for ks \<noteq> Some FinQ" "retests (sk cur) = None"
  shows "K st (sk(cur := ks)) (lc(cur := Some t)) cur rdy (Q(CondQ c := rest)) tbd V"
  unfolding K_def
proof
  have kok1: "kok st sk lc cur rdy Q tbd" using assms(1) by (simp add: K_def)
  show "kok st (sk(cur := ks)) (lc(cur := Some t)) cur rdy (Q(CondQ c := rest)) tbd" using kok_dequeue [OF kok1 assms(2-6)] .
  have n: "cur \<notin> set rdy" using K_notready [OF assms(1)] assms(2) by simp
  show "kwake st (sk(cur := ks)) cur rdy (Q(CondQ c := rest)) V"
    by (rule kwakeI [of st sk cur rdy Q V]) (use assms n in \<open>auto simp: K_def awake_def split: if_splits\<close>)
qed

lemma K_wake_local:
  assumes "K st sk lc cur rdy Q tbd V" "st cur = RUNNING" "lc cur = Some t" "waits_for ks \<noteq> Some FinQ" "retests (sk cur) = None"
  shows "K (st(t := READY)) (sk(cur := ks)) (lc(cur := None)) cur (rdy @ [t]) Q tbd V"
  unfolding K_def
proof
  have a: "kok st sk lc cur rdy Q tbd" using assms(1) by (simp add: K_def)
  show "kok (st(t := READY)) (sk(cur := ks)) (lc(cur := None)) cur (rdy @ [t]) Q tbd" using kok_wake_local [OF a assms(2-4)] .
  have n: "cur \<notin> set rdy" using K_notready [OF assms(1)] assms(2) by simp
  have "st t = BLOCKED" using localD(2) [OF kokD(7) [OF a] assms(3)] .
  then have "t \<noteq> cur" using assms(2) by auto
  then have "awake st sk cur rdy q \<le> awake (st(t := READY)) (sk(cur := ks)) cur (rdy @ [t]) q" for q
    using n assms(5) by (auto simp: awake_def)
  then show "kwake (st(t := READY)) (sk(cur := ks)) cur (rdy @ [t]) Q V"
    using assms(1) kwake_more unfolding K_def by blast
qed


subsection \<open>The invariant of the state\<close>

definition sts :: "'a kernel_scheme \<Rightarrow> stats_of" where "sts s = (\<lambda>t. th_status (threads s t))"
definition sks :: "'a kernel_scheme \<Rightarrow> stacks_of" where "sks s = (\<lambda>t. th_stack (threads s t))"
definition lcs :: "'a kernel_scheme \<Rightarrow> nat \<Rightarrow> nat option" where "lcs s = (\<lambda>t. th_local (threads s t))"

lemma queue_of_cong:
  assumes "semaphores s' = semaphores s" "locks s' = locks s" "conditions s' = conditions s"
  shows "queue_of s' = queue_of s"
proof
  fix q show "queue_of s' q = queue_of s q" using assms by (cases q) simp_all
qed

lemma set_thread_fields [simp]:
  "threads (set_thread t x s) = (threads s)(t := x)" "currentThread (set_thread t x s) = currentThread s"
  "readyList (set_thread t x s) = readyList s" "threadToBeDestroyed (set_thread t x s) = threadToBeDestroyed s"
  "semaphores (set_thread t x s) = semaphores s" "locks (set_thread t x s) = locks s" "conditions (set_thread t x s) = conditions s"
  "spaces (set_thread t x s) = spaces s" "halted (set_thread t x s) = halted s" "kernel.more (set_thread t x s) = kernel.more s"
  "level (set_thread t x s) = level s" "machine (set_thread t x s) = machine s" "inHandler (set_thread t x s) = inHandler s"
  "int_status (set_thread t x s) = int_status s" "pending (set_thread t x s) = pending s" "stats (set_thread t x s) = stats s"
  by (simp_all add: set_thread_def)

lemma set_sem_fields [simp]:
  "threads (set_sem i y s) = threads s" "currentThread (set_sem i y s) = currentThread s"
  "readyList (set_sem i y s) = readyList s" "threadToBeDestroyed (set_sem i y s) = threadToBeDestroyed s"
  "semaphores (set_sem i y s) = (semaphores s)(i := y)" "locks (set_sem i y s) = locks s" "conditions (set_sem i y s) = conditions s"
  "spaces (set_sem i y s) = spaces s" "halted (set_sem i y s) = halted s" "kernel.more (set_sem i y s) = kernel.more s"
  "level (set_sem i y s) = level s" "machine (set_sem i y s) = machine s" "inHandler (set_sem i y s) = inHandler s"
  "int_status (set_sem i y s) = int_status s" "pending (set_sem i y s) = pending s" "stats (set_sem i y s) = stats s"
  by (simp_all add: set_sem_def)

lemma set_lock_fields [simp]:
  "threads (set_lock i y s) = threads s" "currentThread (set_lock i y s) = currentThread s"
  "readyList (set_lock i y s) = readyList s" "threadToBeDestroyed (set_lock i y s) = threadToBeDestroyed s"
  "semaphores (set_lock i y s) = semaphores s" "locks (set_lock i y s) = (locks s)(i := y)" "conditions (set_lock i y s) = conditions s"
  "spaces (set_lock i y s) = spaces s" "halted (set_lock i y s) = halted s" "kernel.more (set_lock i y s) = kernel.more s"
  "level (set_lock i y s) = level s" "machine (set_lock i y s) = machine s" "inHandler (set_lock i y s) = inHandler s"
  "int_status (set_lock i y s) = int_status s" "pending (set_lock i y s) = pending s" "stats (set_lock i y s) = stats s"
  by (simp_all add: set_lock_def)

lemma set_cond_fields [simp]:
  "threads (set_cond i y s) = threads s" "currentThread (set_cond i y s) = currentThread s"
  "readyList (set_cond i y s) = readyList s" "threadToBeDestroyed (set_cond i y s) = threadToBeDestroyed s"
  "semaphores (set_cond i y s) = semaphores s" "locks (set_cond i y s) = locks s" "conditions (set_cond i y s) = (conditions s)(i := y)"
  "spaces (set_cond i y s) = spaces s" "halted (set_cond i y s) = halted s" "kernel.more (set_cond i y s) = kernel.more s"
  "level (set_cond i y s) = level s" "machine (set_cond i y s) = machine s" "inHandler (set_cond i y s) = inHandler s"
  "int_status (set_cond i y s) = int_status s" "pending (set_cond i y s) = pending s" "stats (set_cond i y s) = stats s"
  by (simp_all add: set_cond_def)

lemma views_cong:
  assumes "threads s' = threads s"
  shows "sts s' = sts s" "sks s' = sks s" "lcs s' = lcs s"
  using assms by (simp_all add: sts_def sks_def lcs_def)

lemma views_upd:
  assumes "threads s' = (threads s)(t := x)"
  shows "sts s' = (sts s)(t := th_status x)" "sks s' = (sks s)(t := th_stack x)" "lcs s' = (lcs s)(t := th_local x)"
  using assms by (auto simp: sts_def sks_def lcs_def)

lemma queue_of_sem:
  assumes "semaphores s' = (semaphores s)(x := y)" "locks s' = locks s" "conditions s' = conditions s"
  shows "queue_of s' = (queue_of s)(SemQ x := items (sem_queue y))"
proof
  fix q show "queue_of s' q = ((queue_of s)(SemQ x := items (sem_queue y))) q" using assms by (cases q) simp_all
qed

lemma queue_of_lock:
  assumes "semaphores s' = semaphores s" "locks s' = (locks s)(x := y)" "conditions s' = conditions s"
  shows "queue_of s' = (queue_of s)(LockQ x := items (lock_queue y))"
proof
  fix q show "queue_of s' q = ((queue_of s)(LockQ x := items (lock_queue y))) q" using assms by (cases q) simp_all
qed

lemma queue_of_cond:
  assumes "semaphores s' = semaphores s" "locks s' = locks s" "conditions s' = (conditions s)(x := y)"
  shows "queue_of s' = (queue_of s)(CondQ x := items (cond_queue y))"
proof
  fix q show "queue_of s' q = ((queue_of s)(CondQ x := items (cond_queue y))) q" using assms by (cases q) simp_all
qed

lemma views_set [simp]:
  "sts (set_thread t x s) = (sts s)(t := th_status x)" "sks (set_thread t x s) = (sks s)(t := th_stack x)" "lcs (set_thread t x s) = (lcs s)(t := th_local x)"
  "sts (set_sem i a s) = sts s" "sks (set_sem i a s) = sks s" "lcs (set_sem i a s) = lcs s"
  "sts (set_lock i b s) = sts s" "sks (set_lock i b s) = sks s" "lcs (set_lock i b s) = lcs s"
  "sts (set_cond i c s) = sts s" "sks (set_cond i c s) = sks s" "lcs (set_cond i c s) = lcs s"
  by (rule views_upd views_cong, simp)+

lemma queue_of_set [simp]:
  "queue_of (set_thread t x s) = queue_of s" "queue_of (set_sem i a s) = (queue_of s)(SemQ i := items (sem_queue a))"
  "queue_of (set_lock i b s) = (queue_of s)(LockQ i := items (lock_queue b))"
  "queue_of (set_cond i c s) = (queue_of s)(CondQ i := items (cond_queue c))"
  by (rule queue_of_cong queue_of_sem queue_of_lock queue_of_cond, simp_all)+

lemma views_other [simp]:
  "sts (s\<lparr>readyList := rl\<rparr>) = sts s" "sks (s\<lparr>readyList := rl\<rparr>) = sks s" "lcs (s\<lparr>readyList := rl\<rparr>) = lcs s" "queue_of (s\<lparr>readyList := rl\<rparr>) = queue_of s"
  "sts (s\<lparr>currentThread := ct\<rparr>) = sts s" "sks (s\<lparr>currentThread := ct\<rparr>) = sks s" "lcs (s\<lparr>currentThread := ct\<rparr>) = lcs s" "queue_of (s\<lparr>currentThread := ct\<rparr>) = queue_of s"
  "sts (s\<lparr>threadToBeDestroyed := td\<rparr>) = sts s" "sks (s\<lparr>threadToBeDestroyed := td\<rparr>) = sks s" "lcs (s\<lparr>threadToBeDestroyed := td\<rparr>) = lcs s" "queue_of (s\<lparr>threadToBeDestroyed := td\<rparr>) = queue_of s"
  "sts (s\<lparr>level := lv\<rparr>) = sts s" "sks (s\<lparr>level := lv\<rparr>) = sks s" "lcs (s\<lparr>level := lv\<rparr>) = lcs s" "queue_of (s\<lparr>level := lv\<rparr>) = queue_of s"
  "sts (s\<lparr>machine := m\<rparr>) = sts s" "sks (s\<lparr>machine := m\<rparr>) = sks s" "lcs (s\<lparr>machine := m\<rparr>) = lcs s" "queue_of (s\<lparr>machine := m\<rparr>) = queue_of s"
  "sts (s\<lparr>spaces := sp\<rparr>) = sts s" "sks (s\<lparr>spaces := sp\<rparr>) = sks s" "lcs (s\<lparr>spaces := sp\<rparr>) = lcs s" "queue_of (s\<lparr>spaces := sp\<rparr>) = queue_of s"
  "sts (s\<lparr>int_status := is\<rparr>) = sts s" "sks (s\<lparr>int_status := is\<rparr>) = sks s" "lcs (s\<lparr>int_status := is\<rparr>) = lcs s" "queue_of (s\<lparr>int_status := is\<rparr>) = queue_of s"
  by (rule views_cong queue_of_cong, simp_all)+

fun val_of :: "'a kernel_scheme \<Rightarrow> waitq \<Rightarrow> int" where
  "val_of s (SemQ x) = sem_value (semaphores s x)"
| "val_of s (LockQ l) = (if lock_free (locks s l) then 1 else 0)"
| "val_of s q = 0"

lemma val_of_cong:
  assumes "semaphores s' = semaphores s" "locks s' = locks s"
  shows "val_of s' = val_of s"
proof
  fix q show "val_of s' q = val_of s q" using assms by (cases q) simp_all
qed

lemma val_of_set [simp]:
  "val_of (set_thread t x s) = val_of s" "val_of (set_cond i c s) = val_of s"
  "val_of (set_sem i a s) = (val_of s)(SemQ i := sem_value a)"
  "val_of (set_lock i b s) = (val_of s)(LockQ i := (if lock_free b then 1 else 0))"
proof -
  show "val_of (set_thread t x s) = val_of s" "val_of (set_cond i c s) = val_of s" by (rule val_of_cong, simp_all)+
  show "val_of (set_sem i a s) = (val_of s)(SemQ i := sem_value a)"
  proof
    fix q show "val_of (set_sem i a s) q = ((val_of s)(SemQ i := sem_value a)) q" by (cases q) simp_all
  qed
  show "val_of (set_lock i b s) = (val_of s)(LockQ i := (if lock_free b then 1 else 0))"
  proof
    fix q show "val_of (set_lock i b s) q = ((val_of s)(LockQ i := (if lock_free b then 1 else 0))) q" by (cases q) simp_all
  qed
qed

lemma val_of_other [simp]:
  "val_of (s\<lparr>readyList := rl\<rparr>) = val_of s" "val_of (s\<lparr>currentThread := ct\<rparr>) = val_of s" "val_of (s\<lparr>threadToBeDestroyed := td\<rparr>) = val_of s"
  "val_of (s\<lparr>level := lv\<rparr>) = val_of s" "val_of (s\<lparr>machine := m\<rparr>) = val_of s" "val_of (s\<lparr>spaces := sp\<rparr>) = val_of s" "val_of (s\<lparr>int_status := is\<rparr>) = val_of s"
  by (rule val_of_cong, simp_all)+

lemma val_of_less_one: "val_of s (LockQ l) \<le> 1" "0 \<le> val_of s (LockQ l)" by simp_all

abbreviation KS :: "'a kernel_scheme \<Rightarrow> bool" where
  "KS s \<equiv> K (sts s) (sks s) (lcs s) (currentThread s) (items (readyList s)) (queue_of s) (threadToBeDestroyed s) (val_of s)"

definition thread_ok :: "Thread \<Rightarrow> bool" where
  "thread_ok th \<longleftrightarrow> th_fencepost th \<in> {None, Some STACK_FENCEPOST} \<and> unat (userRegisters th LoadReg) < 32"

lemma thread_ok_upd [simp]:
  "thread_ok (th\<lparr>th_status := a\<rparr>) = thread_ok th" "thread_ok (th\<lparr>th_stack := b\<rparr>) = thread_ok th"
  "thread_ok (th\<lparr>th_local := c\<rparr>) = thread_ok th" "thread_ok (th\<lparr>th_result := d\<rparr>) = thread_ok th"
  "thread_ok (th\<lparr>th_fencepost := None\<rparr>) \<longleftrightarrow> unat (userRegisters th LoadReg) < 32"
  "thread_ok (th\<lparr>th_fencepost := Some STACK_FENCEPOST\<rparr>) \<longleftrightarrow> unat (userRegisters th LoadReg) < 32"
  by (simp_all add: thread_ok_def)

text \<open>The part of the invariant on the kernel's own data, on which interrupt handlers act.\<close>

definition kcore :: "'a kernel_scheme \<Rightarrow> bool" where
  "kcore s \<longleftrightarrow> KS s \<and> (\<forall>t. thread_ok (threads s t)) \<and> (\<forall>x. 0 \<le> sem_value (semaphores s x))"

lemma kcore_V_body:
  assumes "kcore s"
  shows "kcore (V_body x s)"
proof (cases "sem_queue (semaphores s x)")
  case Nil
  have "K (sts s) (sks s) (lcs s) (currentThread s) (items (readyList s)) (queue_of s) (threadToBeDestroyed s)
      ((val_of s)(SemQ x := sem_value (semaphores s x) + 1))"
    using assms Nil unfolding kcore_def K_def by (auto simp: kwake_def)
  moreover have "(queue_of s)(SemQ x := []) = queue_of s" using Nil by (simp add: fun_upd_idem)
  ultimately show ?thesis using assms Nil by (simp add: kcore_def V_body_def)
next
  case (Cons e rest)
  then have q: "queue_of s (SemQ x) = snd e # items rest" by simp
  have ks: "KS s" using assms by (simp add: kcore_def)
  from K_wake_queue [OF ks q, where V' = "(val_of s)(SemQ x := sem_value (semaphores s x) + 1)"]
  have "K ((sts s)(snd e := READY)) (sks s) (lcs s) (currentThread s) (items (readyList s) @ [snd e])
      ((queue_of s)(SemQ x := items rest)) (threadToBeDestroyed s) ((val_of s)(SemQ x := sem_value (semaphores s x) + 1))"
    using assms by (simp add: kcore_def)
  moreover have "(sks s)(snd e := th_stack (threads s (snd e))) = sks s" "(lcs s)(snd e := th_local (threads s (snd e))) = lcs s"
    by (simp_all add: sks_def lcs_def fun_upd_idem)
  ultimately show ?thesis using assms Cons
    by (simp add: kcore_def V_body_def Scheduler_ReadyToRun_def Thread_setStatus_def Let_def)
qed

text \<open>What a handler may change: the status of threads, the ready list, the semaphores.\<close>

definition kept :: "'a kernel_scheme \<Rightarrow> 'a kernel_scheme \<Rightarrow> bool" where
  "kept s s' \<longleftrightarrow> currentThread s' = currentThread s \<and> threadToBeDestroyed s' = threadToBeDestroyed s \<and> locks s' = locks s
     \<and> conditions s' = conditions s \<and> spaces s' = spaces s \<and> halted s' = halted s \<and> (\<exists>new. readyList s' = readyList s @ new)
     \<and> (\<forall>t. threads s' t = threads s t \<or> threads s' t = (threads s t)\<lparr>th_status := READY\<rparr>)"

lemma kept_refl: "kept s s"
  by (simp add: kept_def)

lemma kept_trans:
  assumes "kept s s1" "kept s1 s2"
  shows "kept s s2"
proof -
  have "threads s2 t = threads s t \<or> threads s2 t = (threads s t)\<lparr>th_status := READY\<rparr>" for t
  proof -
    have "threads s1 t = threads s t \<or> threads s1 t = (threads s t)\<lparr>th_status := READY\<rparr>" using assms(1) by (simp add: kept_def)
    moreover have "threads s2 t = threads s1 t \<or> threads s2 t = (threads s1 t)\<lparr>th_status := READY\<rparr>" using assms(2) by (simp add: kept_def)
    ultimately show ?thesis by auto
  qed
  then show ?thesis using assms by (auto simp: kept_def)
qed

lemma kept_V_body: "kept s (V_body x s)"
  by (auto simp: kept_def V_body_def Scheduler_ReadyToRun_def Thread_setStatus_def List_Append_def Let_def split: option.splits prod.splits)

subsection \<open>Devices\<close>

text \<open>
  The interface of the device simulators: their handlers signal semaphores, schedule later interrupts and may ask for a yield;
  \<open>dinv\<close> is an invariant of the devices' own state, the rest of the record.
\<close>

definition with_sim :: "'a kernel_ext \<Rightarrow> 'a kernel_scheme" where
  "with_sim x = sim.extend \<lparr>stats = Statistics_Statistics, level = IntOff, pending = List_empty, inHandler = False,
     yieldOnReturn = False, int_status = SystemMode, machine = None\<rparr> x"

lemma with_sim_fields [simp]:
  fixes s :: "'a kernel_scheme"
  shows "currentThread (with_sim (sim.more s)) = currentThread s" "threads (with_sim (sim.more s)) = threads s"
    "readyList (with_sim (sim.more s)) = readyList s" "threadToBeDestroyed (with_sim (sim.more s)) = threadToBeDestroyed s"
    "semaphores (with_sim (sim.more s)) = semaphores s" "locks (with_sim (sim.more s)) = locks s"
    "conditions (with_sim (sim.more s)) = conditions s" "spaces (with_sim (sim.more s)) = spaces s"
    "halted (with_sim (sim.more s)) = halted s" "kernel.more (with_sim (sim.more s)) = kernel.more s"
  by (cases s; simp add: with_sim_def sim.extend_def)+

lemma kcore_cong:
  assumes "currentThread s' = currentThread s" "threads s' = threads s" "readyList s' = readyList s"
    "threadToBeDestroyed s' = threadToBeDestroyed s" "semaphores s' = semaphores s" "locks s' = locks s" "conditions s' = conditions s"
  shows "kcore s' \<longleftrightarrow> kcore s"
  using assms views_cong [of s' s] queue_of_cong [of s' s] val_of_cong [of s' s] by (simp add: kcore_def)

locale kernel_devices =
  fixes callHandler :: "VoidFunctionPtr \<Rightarrow> int \<Rightarrow> 'a kernel_scheme \<Rightarrow> 'a kernel_scheme result"
    and dinv :: "'a \<Rightarrow> bool"
  assumes device_handler: "dinv (kernel.more s) \<Longrightarrow> level s = IntOff \<Longrightarrow> inHandler s \<Longrightarrow> int_status s = SystemMode \<Longrightarrow>
    \<exists>xs st new y m. callHandler h a s = Inr (kernel.more_update (\<lambda>_. m) ((fold V_body xs s)\<lparr>stats := st,
        pending := sorted_inserts new (pending s), yieldOnReturn := y\<rparr>))
      \<and> totalTicks st = now s \<and> (\<forall>e \<in> set new. now s < fst e) \<and> dinv m"

lemma fold_V_body:
  assumes "kcore s"
  shows "kcore (fold V_body xs s) \<and> kept s (fold V_body xs s)"
  using assms
proof (induction xs arbitrary: s)
  case (Cons x xs)
  then show ?case using kcore_V_body kept_V_body kept_trans by fastforce
qed (simp add: kept_refl)

lemma V_body_sim [simp]:
  "level (V_body x s) = level s" "machine (V_body x s) = machine s" "stats (V_body x s) = stats s" "pending (V_body x s) = pending s"
  "inHandler (V_body x s) = inHandler s" "int_status (V_body x s) = int_status s"
  by (auto simp: V_body_def Scheduler_ReadyToRun_def Thread_setStatus_def Let_def split: option.splits prod.splits)

lemma fold_V_body_sim [simp]:
  "level (fold V_body xs s) = level s" "machine (fold V_body xs s) = machine s"
  by (induction xs arbitrary: s) simp_all

sublocale kernel_devices \<subseteq> interrupt_handlers callHandler
    "\<lambda>x. kcore (with_sim x) \<and> dinv (kernel.more (with_sim x))" "\<lambda>x y. kept (with_sim x) (with_sim y)"
proof
  show "kept (with_sim x) (with_sim x)" for x by (rule kept_refl)
  show "kept (with_sim x) (with_sim z)" if "kept (with_sim x) (with_sim y)" "kept (with_sim y) (with_sim z)" for x y z
    using that by (rule kept_trans)
  fix s h a
  assume s: "kcore (with_sim (sim.more s)) \<and> dinv (kernel.more (with_sim (sim.more s)))" "ints_ok s" "level s = IntOff" "inHandler s" "int_status s = SystemMode"
  then have k: "kcore s" "dinv (kernel.more s)" using kcore_cong [of "with_sim (sim.more s)" s] by simp_all
  obtain xs st new y m where h: "callHandler h a s = Inr (kernel.more_update (\<lambda>_. m) ((fold V_body xs s)\<lparr>stats := st,
        pending := sorted_inserts new (pending s), yieldOnReturn := y\<rparr>))"
      "totalTicks st = now s" "\<forall>e \<in> set new. now s < fst e" "dinv m"
    using device_handler [OF k(2) s(3-5)] by blast
  define s0 where "s0 = fold V_body xs s"
  let ?s = "kernel.more_update (\<lambda>_. m) (s0\<lparr>stats := st, pending := sorted_inserts new (pending s), yieldOnReturn := y\<rparr>)"
  have s0: "kcore s0" "kept s s0" "level s0 = level s" "machine s0 = machine s" using fold_V_body [OF k(1)] by (simp_all add: s0_def)
  have c: "kcore (with_sim (sim.more ?s)) \<longleftrightarrow> kcore s0" by (rule kcore_cong) simp_all
  have d: "dinv (kernel.more (with_sim (sim.more ?s)))" using h(4) by simp
  have e: "kept (with_sim (sim.more s)) (with_sim (sim.more ?s))" using s0(2) by (simp add: kept_def)
  have "callHandler h a s = Inr ?s" using h(1) by (simp add: s0_def)
  then show "\<exists>s' new. callHandler h a s = Inr s' \<and> (kcore (with_sim (sim.more s')) \<and> dinv (kernel.more (with_sim (sim.more s'))))
      \<and> kept (with_sim (sim.more s)) (with_sim (sim.more s')) \<and> level s' = IntOff \<and> now s' = now s \<and> machine s' = machine s
      \<and> pending s' = sorted_inserts new (pending s) \<and> (\<forall>e \<in> set new. now s < fst e)"
    using s0 c d e h(2,3) s(3) by (intro exI [of _ ?s] exI [of _ new]) simp
qed

end
