(* ===== verification/Nachos_Steps.thy ===== *)
theory Nachos_Steps
  imports Nachos_Kernel
begin

text \<open>
  Every step of the kernel keeps the invariant of \<open>Nachos_Kernel\<close>, whatever the threads do and whatever devices meet the contract: no
  assertion fails and every call gets on. The last section shows in which order threads get the processor, and who can
  change the owner of a lock.
\<close>

section \<open>The kernel's own steps\<close>

definition ksim :: "'a kernel_scheme \<Rightarrow> bool" where
  "ksim s \<longleftrightarrow> ints_ok s \<and> \<not> inHandler s \<and> int_status s \<noteq> IdleMode \<and> \<not> halted s \<and> (\<forall>t. th_space (threads s t) \<noteq> None \<longrightarrow> machine s \<noteq> None)"

definition kernel_ok :: "'a kernel_scheme \<Rightarrow> bool" where
  "kernel_ok s \<longleftrightarrow> kcore s \<and> ksim s
     \<and> (if th_status (current s) = RUNNING then lev_ok (level s) (th_stack (current s)) else level s = IntOff \<and> lev_top IntOff (th_stack (current s)))"

lemma views_idem [simp]:
  "(sts s)(t := th_status (threads s t)) = sts s" "(sks s)(t := th_stack (threads s t)) = sks s" "(lcs s)(t := th_local (threads s t)) = lcs s"
  "(queue_of s)(SemQ x := items (sem_queue (semaphores s x))) = queue_of s"
  "(queue_of s)(LockQ x := items (lock_queue (locks s x))) = queue_of s"
  "(queue_of s)(CondQ x := items (cond_queue (conditions s x))) = queue_of s"
  "(val_of s)(SemQ x := sem_value (semaphores s x)) = val_of s"
  by (auto simp: sts_def sks_def lcs_def)

lemma views_current:
  "sts s (currentThread s) = th_status (current s)" "sks s (currentThread s) = th_stack (current s)" "lcs s (currentThread s) = th_local (current s)"
  by (simp_all add: sts_def sks_def lcs_def)

lemma ints_ok_cong: "pending s' = pending s \<Longrightarrow> machine s' = machine s \<Longrightarrow> ints_ok s' = ints_ok s"
  by (simp add: ints_ok_def user_load_ok_def)

lemmas kops = push_def pop_def with_ints_off_def Interrupt_ChangeLevel_def Thread_setStatus_def Scheduler_ReadyToRun_def
  set_local_def set_result_def Let_def

lemma kernel_okD:
  assumes "kernel_ok s"
  shows "KS s" "\<And>t. thread_ok (threads s t)" "\<And>x. 0 \<le> sem_value (semaphores s x)" "ksim s"
  using assms by (simp_all add: kernel_ok_def kcore_def)

lemma running:
  assumes "kernel_ok s" "th_stack (current s) = k # r" "k \<noteq> SleepLoopK"
  shows "sts s (currentThread s) = RUNNING" "lev_ok (level s) (k # r)" "lcs s (currentThread s) \<noteq> None \<Longrightarrow> wake_pending (k # r)"
proof -
  have K: "kok (sts s) (sks s) (lcs s) (currentThread s) (items (readyList s)) (queue_of s) (threadToBeDestroyed s)"
    using kernel_okD(1) [OF assms(1)] by (simp add: K_def)
  show st: "sts s (currentThread s) = RUNNING" using kokD(1) [OF K] assms(2,3) by (auto simp: k_run_def sks_def)
  then show "lev_ok (level s) (k # r)" using assms(1,2) by (simp add: kernel_ok_def sts_def)
  show "wake_pending (k # r)" if "lcs s (currentThread s) \<noteq> None"
  proof -
    have "wake_pending (sks s (currentThread s))" using kokD(7) [OF K] that unfolding k_local_def by blast
    then show ?thesis using assms(2) by (simp add: sks_def)
  qed
qed

text \<open>A step that only changes the stack of the running thread, the interrupt level and the machine's mode.\<close>

lemma kernel_ok_stack:
  assumes "kernel_ok s" "th_stack (current s) = k # r" "k \<noteq> SleepLoopK" "wait_point k = None \<or> (\<exists>c. wait_point k = Some (CondQ c))"
    "lev_ok l ks" "th_local (current s) \<noteq> None \<Longrightarrow> wake_pending (k # r) \<Longrightarrow> wake_pending ks" "k = RunRestK \<Longrightarrow> ks = r"
    "s' = set_thread (currentThread s) ((current s)\<lparr>th_stack := ks\<rparr>) (s\<lparr>level := l, int_status := is\<rparr>)" "is \<noteq> IdleMode"
  shows "kernel_ok s'"
proof -
  note run = running [OF assms(1-3)]
  have w: "waits_for ks \<noteq> Some FinQ" using lev_ok_not_finished [OF assms(5)] .
  have rt: "retests ks = Some q \<or> val_of s q = 0" if "retests (sks s (currentThread s)) = Some q" for q
  proof (cases "k = RunRestK")
    case True
    then show ?thesis using that assms(2,7) by (cases r; cases "hd r") (auto simp: sks_def)
  next
    case False
    then show ?thesis using that assms(2,3,4) by (cases k) (auto simp: sks_def)
  qed
  have "K (sts s) ((sks s)(currentThread s := ks)) (lcs s) (currentThread s) (items (readyList s)) (queue_of s) (threadToBeDestroyed s) (val_of s)"
    by (rule K_stack [OF kernel_okD(1) [OF assms(1)] run(1) w]) (use run(3) assms(6) rt in \<open>fastforce simp: lcs_def\<close>)+
  then show ?thesis using kernel_okD [OF assms(1)] assms(5,8,9)
    by (auto simp: kernel_ok_def kcore_def ksim_def lev_top_def ints_ok_def user_load_ok_def run(1) [unfolded sts_def] fun_upd_idem [of "sts s", OF run(1)])
qed

text \<open>Context switches.\<close>

lemma save_user_ok:
  assumes "th_space (current s) \<noteq> None \<Longrightarrow> machine s \<noteq> None" "user_load_ok s" "thread_ok (current s)"
  obtains u sp where "save_user s = Inr ((set_thread (currentThread s) ((current s)\<lparr>userRegisters := u\<rparr>) s)\<lparr>spaces := sp\<rparr>)"
    "unat (u LoadReg) < 32"
proof (cases "th_space (current s)")
  case None
  then show ?thesis using assms(3) by (intro that [where u = "userRegisters (current s)" and sp = "spaces s"]) (simp_all add: save_user_def set_thread_def thread_ok_def)
next
  case (Some p)
  then obtain m where m: "machine s = Some m" using assms(1) by auto
  have "unat (registers m LoadReg) < 32" using assms(2) m by (simp add: user_load_ok_def load_pending_ok_def)
  then show ?thesis using Some m
    by (intro that [where u = "\<lambda>i. if i < NumTotalRegs then registers m i else userRegisters (current s) i"])
      (auto simp: save_user_def Thread_SaveUserState_def set_thread_def)
qed

lemma Run_ok:
  assumes "th_space (current s) \<noteq> None \<Longrightarrow> machine s \<noteq> None" "user_load_ok s" "thread_ok (current s)"
  obtains u sp s1 where "s1 = set_thread (currentThread s) ((current s)\<lparr>userRegisters := u, th_stack := RunRestK # th_stack (current s)\<rparr>) (s\<lparr>spaces := sp\<rparr>)"
    "Scheduler_Run n s = Inr (set_thread n ((threads s1 n)\<lparr>th_status := RUNNING\<rparr>) (s1\<lparr>currentThread := n\<rparr>))" "unat (u LoadReg) < 32"
proof -
  obtain u sp where u: "save_user s = Inr ((set_thread (currentThread s) ((current s)\<lparr>userRegisters := u\<rparr>) s)\<lparr>spaces := sp\<rparr>)"
      "unat (u LoadReg) < 32"
    using save_user_ok [OF assms] by blast
  let ?s = "(set_thread (currentThread s) ((current s)\<lparr>userRegisters := u\<rparr>) s)\<lparr>spaces := sp\<rparr>"
  have "Thread_CheckOverflow (currentThread s) ?s = Inr ?s"
    using assms(3) by (auto simp: Thread_CheckOverflow_def thread_ok_def split: option.splits)
  moreover have "push [RunRestK] ?s = set_thread (currentThread s) ((current s)\<lparr>userRegisters := u, th_stack := RunRestK # th_stack (current s)\<rparr>) (s\<lparr>spaces := sp\<rparr>)"
    by (simp add: kops) (simp add: set_thread_def)
  ultimately show ?thesis using u by (intro that [OF refl, of u sp]) (simp_all add: Scheduler_Run_def Thread_setStatus_def Let_def del: fun_upd_apply)
qed

lemma switch_ksim:
  assumes "ksim s" "\<And>t. thread_ok (threads s t)"
  shows "th_space (threads s t) \<noteq> None \<Longrightarrow> machine s \<noteq> None" "user_load_ok s" "thread_ok (threads s t)"
  using assms by (auto simp: ksim_def ints_ok_def)

lemma lev_next:
  assumes "K st sk lc cur rdy Q tbd V" "rdy = n # rest" "n \<noteq> cur"
  shows "lev_ok IntOff (sk n)"
proof -
  have K: "kok st sk lc cur rdy Q tbd" using assms(1) by (simp add: K_def)
  have "st n = READY" using kokD(5) [OF K] assms(2) by (auto simp: k_ready_def)
  then have "lev_top IntOff (sk n)" "hd (sk n) \<noteq> SleepLoopK" "waits_for (sk n) \<noteq> Some FinQ"
    using kokD(2,4) [OF K] assms(3) by (auto simp: k_off_def k_fin_def)
  then show ?thesis by (auto simp: lev_top_def)
qed

lemma Yield_ok:
  assumes "kernel_ok s" "th_stack (current s) = YieldK # r"
  shows "\<exists>s'. Thread_Yield (pop s) = Inr s' \<and> kernel_ok s'"
proof -
  note run = running [OF assms, simplified]
  let ?c = "currentThread s"
  let ?ks = "SetLevelK (level s) # r"
  show ?thesis
  proof (cases "readyList s")
    case Nil
    have "Thread_Yield (pop s) = Inr (set_thread ?c ((current s)\<lparr>th_stack := ?ks\<rparr>) (s\<lparr>level := IntOff\<rparr>))"
      using Nil assms(2) by (simp add: Thread_Yield_def Scheduler_FindNextToRun_def kops set_thread_def)
    moreover have "kernel_ok (set_thread ?c ((current s)\<lparr>th_stack := ?ks\<rparr>) (s\<lparr>level := IntOff\<rparr>))"
      by (rule kernel_ok_stack [OF assms, of IntOff ?ks _ "int_status s"])
        (use run kernel_okD(4) [OF assms(1)] in \<open>simp_all add: ksim_def\<close>)
    ultimately show ?thesis by blast
  next
    case (Cons e rest)
    define n where "n = snd e"
    define s1 where "s1 = (set_thread ?c ((current s)\<lparr>th_stack := ?ks, th_status := READY\<rparr>) (s\<lparr>level := IntOff\<rparr>))\<lparr>readyList := List_Append ?c rest\<rparr>"
    have s1: "threads s1 = (threads s)(?c := (current s)\<lparr>th_stack := ?ks, th_status := READY\<rparr>)" "currentThread s1 = ?c" "machine s1 = machine s"
      "user_load_ok s1 = user_load_ok s"
      by (simp_all add: s1_def user_load_ok_def)
    note sw = switch_ksim [OF kernel_okD(4,2) [OF assms(1)]]
    obtain u sp s2 where s2: "s2 = set_thread ?c ((current s1)\<lparr>userRegisters := u, th_stack := RunRestK # th_stack (current s1)\<rparr>) (s1\<lparr>spaces := sp\<rparr>)"
        "Scheduler_Run n s1 = Inr (set_thread n ((threads s2 n)\<lparr>th_status := RUNNING\<rparr>) (s2\<lparr>currentThread := n\<rparr>))" "unat (u LoadReg) < 32"
    proof (rule Run_ok [of s1 n])
      show "machine s1 \<noteq> None" if "th_space (current s1) \<noteq> None" using that sw(1) [of ?c] s1 by simp
      show "user_load_ok s1" using sw(2) s1 by simp
      show "thread_ok (current s1)" using sw(3) s1 by simp
    qed (use s1 in auto)
    let ?s = "set_thread n ((threads s2 n)\<lparr>th_status := RUNNING\<rparr>) (s2\<lparr>currentThread := n\<rparr>)"
    have "Thread_Yield (pop s) = Inr ?s"
      using s2(2) Cons assms(2) by (simp add: Thread_Yield_def Scheduler_FindNextToRun_def kops set_thread_def s1_def n_def)
    moreover have "kernel_ok ?s"
    proof -
      have rdy: "items (readyList s) = n # items rest" using Cons by (simp add: n_def)
      have nr: "?c \<notin> set (items (readyList s))" using K_notready [OF kernel_okD(1) [OF assms(1)], of ?c] run(1) by simp
      then have nc: "n \<noteq> ?c" using rdy by auto
      have "K ((sts s)(?c := READY, n := RUNNING)) ((sks s)(?c := RunRestK # ?ks)) (lcs s) n (items rest @ [?c]) (queue_of s) (threadToBeDestroyed s) (val_of s)"
        by (rule K_yield [OF kernel_okD(1) [OF assms(1)] rdy run(1), of _ ?ks])
          (use run assms(2) in \<open>simp_all add: lev_top_def sks_def\<close>)
      then have "KS ?s" using nc by (simp add: s2(1) s1_def fun_upd_twist)
      moreover have "lev_ok IntOff (th_stack (threads s n))"
        using lev_next [OF kernel_okD(1) [OF assms(1)] rdy nc] by (simp add: sks_def)
      moreover have "\<forall>t. thread_ok (threads ?s t)" using kernel_okD(2) [OF assms(1)] s2(3) by (simp add: s2(1) s1_def thread_ok_def)
      moreover have "ksim ?s" using kernel_okD(4) [OF assms(1)] by (auto simp: ksim_def s2(1) s1_def ints_ok_def user_load_ok_def)
      ultimately show ?thesis using kernel_okD(3) [OF assms(1)] nc
        by (simp add: kernel_ok_def kcore_def) (simp add: s2(1) s1_def)
    qed
    ultimately show ?thesis by blast
  qed
qed

lemma ksim_cong:
  assumes "ksim s" "pending s' = pending s" "machine s' = machine s" "inHandler s' = inHandler s" "int_status s' = int_status s"
    "halted s' = halted s" "\<And>t. th_space (threads s' t) = th_space (threads s t)"
  shows "ksim s'"
  using assms by (simp add: ksim_def ints_ok_def user_load_ok_def)

lemma kernel_okI:
  assumes "KS s" "\<And>t. thread_ok (threads s t)" "\<And>x. 0 \<le> sem_value (semaphores s x)" "ksim s" "lev_ok (level s) (th_stack (current s))" "th_status (current s) = RUNNING"
  shows "kernel_ok s"
  using assms by (simp add: kernel_ok_def kcore_def)

lemma kernel_ok_sleepI:
  assumes "KS s" "\<And>t. thread_ok (threads s t)" "\<And>x. 0 \<le> sem_value (semaphores s x)" "ksim s"
    "level s = IntOff" "lev_top IntOff (th_stack (current s))" "th_status (current s) \<noteq> RUNNING"
  shows "kernel_ok s"
  using assms by (simp add: kernel_ok_def kcore_def)

lemma sleeping:
  assumes "kernel_ok s" "th_stack (current s) = SleepLoopK # r"
  shows "sts s (currentThread s) \<in> {READY, BLOCKED}" "level s = IntOff" "lev_top IntOff (SleepLoopK # r)"
proof -
  have K: "kok (sts s) (sks s) (lcs s) (currentThread s) (items (readyList s)) (queue_of s) (threadToBeDestroyed s)"
    using kernel_okD(1) [OF assms(1)] by (simp add: K_def)
  have n: "th_status (current s) \<noteq> RUNNING" using assms by (auto simp: kernel_ok_def)
  then show "sts s (currentThread s) \<in> {READY, BLOCKED}" using kokD(1) [OF K] by (auto simp: k_run_def sts_def)
  show "level s = IntOff" "lev_top IntOff (SleepLoopK # r)" using assms n by (auto simp: kernel_ok_def)
qed

text \<open>A sleeping thread hands the processor to the first ready one.\<close>

lemma Sleep_run_ok:
  assumes "kernel_ok s" "th_stack (current s) = SleepLoopK # r" "readyList s = e # rest"
  shows "\<exists>s'. Sleep_loop h (pop s) = Some (Inr s') \<and> kernel_ok s'"
proof -
  note sl = sleeping [OF assms(1,2)]
  let ?c = "currentThread s"
  define n where "n = snd e"
  define s1 where "s1 = (set_thread ?c ((current s)\<lparr>th_stack := r\<rparr>) s)\<lparr>readyList := rest\<rparr>"
  have s1: "threads s1 = (threads s)(?c := (current s)\<lparr>th_stack := r\<rparr>)" "currentThread s1 = ?c" "machine s1 = machine s"
      "user_load_ok s1 = user_load_ok s"
    by (simp_all add: s1_def user_load_ok_def)
  note sw = switch_ksim [OF kernel_okD(4,2) [OF assms(1)]]
  obtain u sp s2 where s2: "s2 = set_thread ?c ((current s1)\<lparr>userRegisters := u, th_stack := RunRestK # th_stack (current s1)\<rparr>) (s1\<lparr>spaces := sp\<rparr>)"
      "Scheduler_Run n s1 = Inr (set_thread n ((threads s2 n)\<lparr>th_status := RUNNING\<rparr>) (s2\<lparr>currentThread := n\<rparr>))" "unat (u LoadReg) < 32"
  proof (rule Run_ok [of s1 n])
    show "machine s1 \<noteq> None" if "th_space (current s1) \<noteq> None" using that sw(1) [of ?c] s1 by simp
    show "user_load_ok s1" using sw(2) s1 by simp
    show "thread_ok (current s1)" using sw(3) s1 by simp
  qed (use s1 in auto)
  let ?s = "set_thread n ((threads s2 n)\<lparr>th_status := RUNNING\<rparr>) (s2\<lparr>currentThread := n\<rparr>)"
  have "Sleep_loop h (pop s) = Some (Inr ?s)"
    using s2(2) assms(2,3) by (simp add: Sleep_loop_def Scheduler_FindNextToRun_def pop_def s1_def n_def)
  moreover have "kernel_ok ?s"
  proof (rule kernel_okI)
    have rdy: "items (readyList s) = n # items rest" using assms(3) by (simp add: n_def)
    have sk: "sks s ?c = SleepLoopK # r" using assms(2) by (simp add: sks_def)
    have "K ((sts s)(n := RUNNING)) ((sks s)(?c := RunRestK # r)) (lcs s) n (items rest) (queue_of s) (threadToBeDestroyed s) (val_of s)"
      by (rule K_switch [OF kernel_okD(1) [OF assms(1)] rdy sk]) (use sl sk in auto)
    moreover have "threads s2 = (threads s)(?c := (current s)\<lparr>userRegisters := u, th_stack := RunRestK # r\<rparr>)" by (simp add: s2(1) s1_def)
    moreover from this have "(lcs s2)(n := th_local (threads s2 n)) = lcs s" "(sks s2)(n := th_stack (threads s2 n)) = (sks s)(?c := RunRestK # r)"
        "sts s2 = sts s" by (auto simp: lcs_def sks_def sts_def)
    ultimately show "KS ?s" by (simp add: s2(1) s1_def)
    show "thread_ok (threads ?s t)" for t using kernel_okD(2) [OF assms(1)] s2(3) by (simp add: s2(1) s1_def thread_ok_def)
    show "0 \<le> sem_value (semaphores ?s x)" for x using kernel_okD(3) [OF assms(1)] by (simp add: s2(1) s1_def)
    show "ksim ?s" by (rule ksim_cong [OF kernel_okD(4) [OF assms(1)]]) (simp_all add: s2(1) s1_def)
    show "th_status (current ?s) = RUNNING" by simp
    have "n \<noteq> ?c \<Longrightarrow> lev_ok IntOff (sks s n)" using lev_next [OF kernel_okD(1) [OF assms(1)] rdy] .
    moreover have "lev_ok IntOff r" if "n = ?c"
    proof -
      have "kok (sts s) (sks s) (lcs s) ?c (items (readyList s)) (queue_of s) (threadToBeDestroyed s)"
        using kernel_okD(1) [OF assms(1)] by (simp add: K_def)
      note k = kokD(4,5) [OF this]
      have "sts s ?c = READY" using k(2) that rdy unfolding k_ready_def by (metis list.set_intros(1))
      moreover have "sts s ?c = BLOCKED" if "waits_for (sks s ?c) = Some FinQ" using k(1) that by (simp add: k_fin_def)
      ultimately have "waits_for (sks s ?c) \<noteq> Some FinQ" by auto
      then show ?thesis using sl(3) sk by (auto simp: lev_top_def)
    qed
    ultimately show "lev_ok (level ?s) (th_stack (current ?s))" using sl(2) by (auto simp: s2(1) s1_def sks_def)
  qed
  ultimately show ?thesis by blast
qed

text \<open>After the switch: the carcass of a finished thread is deleted, the user's registers are restored.\<close>

lemma restore_user_ok:
  assumes "ksim s" "\<And>t. thread_ok (threads s t)"
  obtains m where "restore_user s = Inr (s\<lparr>machine := m\<rparr>)" "ksim (s\<lparr>machine := m\<rparr>)"
proof (cases "th_space (current s)")
  case None
  then show ?thesis using assms(1) by (intro that [of "machine s"]) (simp_all add: restore_user_def)
next
  case (Some sp)
  then obtain m where m: "machine s = Some m" using assms(1) by (auto simp: ksim_def)
  let ?m = "AddrSpace_RestoreState (spaces s sp) (m\<lparr>registers := (\<lambda>i. if i < NumTotalRegs then userRegisters (current s) i else registers m i)\<rparr>)"
  have "restore_user s = Inr (s\<lparr>machine := Some ?m\<rparr>)"
    using Some m by (simp add: restore_user_def Thread_RestoreUserState_def)
  moreover have "load_pending_ok ?m"
    using assms(2) [of "currentThread s"] by (simp add: load_pending_ok_def AddrSpace_RestoreState_def thread_ok_def)
  ultimately show ?thesis using assms(1) m by (intro that [of "Some ?m"]) (auto simp: ksim_def ints_ok_def user_load_ok_def)
qed


lemma Run_rest_ok:
  assumes "kernel_ok s" "th_stack (current s) = RunRestK # r"
  shows "\<exists>s'. Run_rest (pop s) = Inr s' \<and> kernel_ok s'"
proof -
  let ?c = "currentThread s"
  note run = running [OF assms, simplified]
  have lv: "lev_ok (level s) r" using run(2) by auto
  define s0 where "s0 = pop s"
  have k0: "kernel_ok s0"
    by (rule kernel_ok_stack [OF assms, of "level s" r _ "int_status s"])
      (use lv kernel_okD(4) [OF assms(1)] in \<open>simp_all add: s0_def pop_def assms(2) ksim_def\<close>)
  have st0: "th_status (current s0) = RUNNING" using run(1) by (simp add: s0_def pop_def sts_def)
  obtain s1 where s1: "(case threadToBeDestroyed s0 of None \<Rightarrow> Inr s0
      | Some t \<Rightarrow> rbind (Thread_destroy t s0) (\<lambda>s1. Inr (s1\<lparr>threadToBeDestroyed := None\<rparr>))) = Inr s1" "kernel_ok s1"
  proof (cases "threadToBeDestroyed s0")
    case None
    then show ?thesis using k0 that by simp
  next
    case (Some t)
    have K0: "K (sts s0) (sks s0) (lcs s0) (currentThread s0) (items (readyList s0)) (queue_of s0) (Some t) (val_of s0)"
      using kernel_okD(1) [OF k0] Some by simp
    have "kok (sts s0) (sks s0) (lcs s0) (currentThread s0) (items (readyList s0)) (queue_of s0) (Some t)" using K0 by (simp add: K_def)
    from kokD(4) [OF this] have "sts s0 t = BLOCKED" by (simp add: k_fin_def)
    then have tc: "t \<noteq> currentThread s0" using st0 by (auto simp: sts_def)
    let ?s = "(set_thread t ((threads s0 t)\<lparr>th_status := DELETED, th_stack := [], th_fencepost := None\<rparr>) s0)\<lparr>threadToBeDestroyed := None\<rparr>"
    have "kernel_ok ?s"
    proof (rule kernel_okI)
      show "KS ?s" using K_destroy [OF K0 tc] by simp
      show "thread_ok (threads ?s x)" for x using kernel_okD(2) [OF k0] by (simp add: thread_ok_def)
      show "0 \<le> sem_value (semaphores ?s x)" for x using kernel_okD(3) [OF k0] by simp
      show "ksim ?s" by (rule ksim_cong [OF kernel_okD(4) [OF k0]]) simp_all
      show "th_status (current ?s) = RUNNING" "lev_ok (level ?s) (th_stack (current ?s))"
        using st0 k0 tc by (auto simp: kernel_ok_def)
    qed
    then show ?thesis using Some tc by (intro that [of ?s]) (simp_all add: Thread_destroy_def)
  qed
  obtain m where m: "restore_user s1 = Inr (s1\<lparr>machine := m\<rparr>)" "ksim (s1\<lparr>machine := m\<rparr>)"
    using restore_user_ok [OF kernel_okD(4,2) [OF s1(2)]] by blast
  have "kcore (s1\<lparr>machine := m\<rparr>) \<longleftrightarrow> kcore s1" by (rule kcore_cong) simp_all
  then have "kernel_ok (s1\<lparr>machine := m\<rparr>)" using s1(2) m(2) by (simp add: kernel_ok_def)
  moreover have "Run_rest s0 = Inr (s1\<lparr>machine := m\<rparr>)" unfolding Run_rest_def s1(1) using m(1) by simp
  ultimately show ?thesis by (auto simp: s0_def)
qed

text \<open>Going to sleep.\<close>

lemma Sleep_ok:
  assumes "kernel_ok s" "th_stack (current s) = k # r" "k \<noteq> SleepLoopK" "\<not> wake_pending (k # r)" "level s = IntOff"
    "wait_point w = Some q" "q \<noteq> FinQ" "val_of s q = 0" "\<And>q'. retests (k # r) = Some q' \<Longrightarrow> val_of s q' = 0" "lev_ok IntOff (w # r')"
    "threads s' = (threads s)(currentThread s := (current s)\<lparr>th_stack := w # r'\<rparr>)" "queue_of s' = (queue_of s)(q := queue_of s q @ [currentThread s])"
    "val_of s' = val_of s" "semaphores s' = (semaphores s)(x := (semaphores s x)\<lparr>sem_queue := ql\<rparr>)"
    "currentThread s' = currentThread s" "readyList s' = readyList s" "threadToBeDestroyed s' = threadToBeDestroyed s" "level s' = level s"
    "pending s' = pending s" "machine s' = machine s" "inHandler s' = inHandler s" "int_status s' = int_status s" "halted s' = halted s"
  shows "\<exists>s2. Thread_Sleep s' = Inr s2 \<and> kernel_ok s2"
proof -
  let ?c = "currentThread s"
  note run = running [OF assms(1-3)]
  let ?s = "set_thread ?c ((current s)\<lparr>th_status := BLOCKED, th_stack := SleepLoopK # w # r'\<rparr>) s'"
  have "Thread_Sleep s' = Inr ?s"
    using assms(5,11,15,18) by (simp add: Thread_Sleep_def kops set_thread_def)
  moreover have "kernel_ok ?s"
  proof (rule kernel_ok_sleepI)
    have lc: "lcs s ?c = None" using run(3) assms(4) by blast
    have "K ((sts s)(?c := BLOCKED)) ((sks s)(?c := SleepLoopK # w # r')) (lcs s) ?c (items (readyList s)) ((queue_of s)(q := queue_of s q @ [?c]))
        (threadToBeDestroyed s) (val_of s)"
      by (rule K_block [OF kernel_okD(1) [OF assms(1)] run(1) lc refl])
        (use assms(2,6-9) in \<open>auto simp: sks_def\<close>)
    then show "KS ?s" using views_upd [OF assms(11)] assms(12-17) by (simp add: assms(11))
    show "thread_ok (threads ?s t)" for t using kernel_okD(2) [OF assms(1)] assms(11) by simp
    show "0 \<le> sem_value (semaphores ?s x)" for x using kernel_okD(3) [OF assms(1)] assms(14) by simp
    show "ksim ?s" by (rule ksim_cong [OF kernel_okD(4) [OF assms(1)]]) (simp_all add: assms(11,19-23))
    show "level ?s = IntOff" using assms(5,18) by simp
    show "lev_top IntOff (th_stack (current ?s))" using assms(10,15) by (simp add: lev_top_def)
    show "th_status (current ?s) \<noteq> RUNNING" using assms(15) by simp
  qed
  ultimately show ?thesis by blast
qed


lemma P_loop_ok:
  assumes "kernel_ok s" "th_stack (current s) = P_loopK x # r"
  shows "\<exists>s'. P_loop x (pop s) = Inr s' \<and> kernel_ok s'"
proof (cases "sem_value (semaphores s x) = 0")
  case True
  note run = running [OF assms, simplified]
  have "\<exists>s2. Thread_Sleep (push [P_loopK x] (set_sem x ((semaphores s x)\<lparr>sem_queue := List_Append (currentThread s) (sem_queue (semaphores s x))\<rparr>) (pop s))) = Inr s2 \<and> kernel_ok s2"
    by (rule Sleep_ok [OF assms, where w = "P_loopK x" and r' = r and q = "SemQ x" and x = x and ql = "List_Append (currentThread s) (sem_queue (semaphores s x))"])
      (use True run assms(2) in \<open>simp_all add: kops fun_upd_idem\<close>)
  then show ?thesis using True by (simp add: P_loop_def pop_def Let_def)
next
  case False
  note run = running [OF assms, simplified]
  let ?c = "currentThread s"
  let ?s = "set_sem x ((semaphores s x)\<lparr>sem_value := sem_value (semaphores s x) - 1\<rparr>) (pop s)"
  have "kernel_ok ?s"
  proof (rule kernel_okI)
    have w: "waits_for r \<noteq> Some FinQ" using run(2) lev_ok_not_finished by auto
    have lc: "lcs s ?c = None" using run(3) by (cases "lcs s ?c") auto
    have "K (sts s) ((sks s)(?c := r)) (lcs s) ?c (items (readyList s)) (queue_of s) (threadToBeDestroyed s) ((val_of s)(SemQ x := sem_value (semaphores s x) - 1))"
      by (rule K_stack [OF kernel_okD(1) [OF assms(1)] run(1) w]) (use lc assms(2) in \<open>auto simp: sks_def split: if_splits\<close>)
    then show "KS ?s" using assms(2) by (simp add: pop_def)
    show "thread_ok (threads ?s t)" for t using kernel_okD(2) [OF assms(1)] by (simp add: pop_def)
    show "0 \<le> sem_value (semaphores ?s y)" for y using kernel_okD(3) [OF assms(1)] False by (simp add: pop_def order_less_le)
    show "ksim ?s" by (rule ksim_cong [OF kernel_okD(4) [OF assms(1)]]) (simp_all add: pop_def)
    show "lev_ok (level ?s) (th_stack (current ?s))" "th_status (current ?s) = RUNNING" using run assms(2) by (simp_all add: pop_def sts_def)
  qed
  then show ?thesis using False by (simp add: P_loop_def pop_def Let_def)
qed

lemma Acquire_loop_ok:
  assumes "kernel_ok s" "th_stack (current s) = Acquire_loopK x # r"
  shows "\<exists>s'. Acquire_loop x (pop s) = Inr s' \<and> kernel_ok s'"
proof (cases "lock_free (locks s x)")
  case False
  note run = running [OF assms, simplified]
  have "\<exists>s2. Thread_Sleep (push [Acquire_loopK x] (set_lock x ((locks s x)\<lparr>lock_queue := List_Append (currentThread s) (lock_queue (locks s x))\<rparr>) (pop s))) = Inr s2 \<and> kernel_ok s2"
    by (rule Sleep_ok [OF assms, where w = "Acquire_loopK x" and r' = r and q = "LockQ x" and x = x and ql = "sem_queue (semaphores s x)"])
      (use False run assms(2) in \<open>simp_all add: kops fun_upd_idem\<close>)
  then show ?thesis using False by (simp add: Acquire_loop_def pop_def Let_def)
next
  case True
  note run = running [OF assms, simplified]
  let ?c = "currentThread s"
  let ?s = "set_lock x ((locks s x)\<lparr>lock_free := False, activeThread := Some ?c\<rparr>) (pop s)"
  have "kernel_ok ?s"
  proof (rule kernel_okI)
    have w: "waits_for r \<noteq> Some FinQ" using run(2) lev_ok_not_finished by auto
    have lc: "lcs s ?c = None" using run(3) by (cases "lcs s ?c") auto
    have "K (sts s) ((sks s)(?c := r)) (lcs s) ?c (items (readyList s)) (queue_of s) (threadToBeDestroyed s) ((val_of s)(LockQ x := 0))"
      by (rule K_stack [OF kernel_okD(1) [OF assms(1)] run(1) w]) (use lc assms(2) True in \<open>auto simp: sks_def split: if_splits\<close>)
    then show "KS ?s" using assms(2) by (simp add: pop_def)
    show "thread_ok (threads ?s t)" for t using kernel_okD(2) [OF assms(1)] by (simp add: pop_def)
    show "0 \<le> sem_value (semaphores ?s y)" for y using kernel_okD(3) [OF assms(1)] by (simp add: pop_def)
    show "ksim ?s" by (rule ksim_cong [OF kernel_okD(4) [OF assms(1)]]) (simp_all add: pop_def)
    show "lev_ok (level ?s) (th_stack (current ?s))" "th_status (current ?s) = RUNNING" using run assms(2) by (simp_all add: pop_def sts_def)
  qed
  then show ?thesis using True by (simp add: Acquire_loop_def pop_def Let_def)
qed

lemma Finish_ok:
  assumes "kernel_ok s" "th_stack (current s) = FinishK # r"
  shows "\<exists>s'. Thread_Finish (pop s) = Inr s' \<and> kernel_ok s'"
proof -
  note run = running [OF assms, simplified]
  let ?c = "currentThread s"
  let ?s = "set_thread ?c ((current s)\<lparr>th_status := BLOCKED, th_stack := SleepLoopK # FinishedK # r\<rparr>) (s\<lparr>level := IntOff, threadToBeDestroyed := Some ?c\<rparr>)"
  have "Thread_Finish (pop s) = Inr ?s" using assms(2) by (simp add: Thread_Finish_def Thread_Sleep_def kops set_thread_def)
  moreover have "kernel_ok ?s"
  proof (rule kernel_ok_sleepI)
    have lc: "lcs s ?c = None" using run(3) by (cases "lcs s ?c") auto
    have "K ((sts s)(?c := BLOCKED)) ((sks s)(?c := SleepLoopK # FinishedK # r)) (lcs s) ?c (items (readyList s)) (queue_of s) (Some ?c) (val_of s)"
      by (rule K_finish [OF kernel_okD(1) [OF assms(1)] run(1) lc refl]) (use assms(2) in \<open>simp add: sks_def\<close>)
    then show "KS ?s" by simp
    show "thread_ok (threads ?s t)" for t using kernel_okD(2) [OF assms(1)] by simp
    show "0 \<le> sem_value (semaphores ?s y)" for y using kernel_okD(3) [OF assms(1)] by simp
    show "ksim ?s" by (rule ksim_cong [OF kernel_okD(4) [OF assms(1)]]) simp_all
    show "level ?s = IntOff" "lev_top IntOff (th_stack (current ?s))" "th_status (current ?s) \<noteq> RUNNING" by (simp_all add: lev_top_def)
  qed
  ultimately show ?thesis by blast
qed

text \<open>Calls: the running thread's stack grows.\<close>

lemma kernel_ok_push:
  assumes "kernel_ok s" "th_stack (current s) = k # r" "k \<noteq> SleepLoopK" "k \<noteq> RunRestK" "wait_point k = None"
    "lev_ok l (ks @ k # r)" "wake_pending (k # r) \<Longrightarrow> wake_pending (ks @ k # r)"
  shows "kernel_ok (push ks (s\<lparr>level := l\<rparr>))"
  by (rule kernel_ok_stack [OF assms(1-3), of l "ks @ k # r" _ "int_status s"])
    (use assms kernel_okD(4) [OF assms(1)] in \<open>simp_all add: push_def ksim_def\<close>)

lemma kernel_ok_push_same:
  assumes "kernel_ok s" "th_stack (current s) = k # r" "k \<noteq> SleepLoopK" "k \<noteq> RunRestK" "wait_point k = None"
    "lev_ok (level s) (ks @ k # r)" "wake_pending (k # r) \<Longrightarrow> wake_pending (ks @ k # r)"
  shows "kernel_ok (push ks s)"
  using kernel_ok_push [OF assms] by simp

lemma kernel_ok_pop:
  assumes "kernel_ok s" "th_stack (current s) = k # r" "k \<noteq> SleepLoopK" "wait_point k = None \<or> (\<exists>c. wait_point k = Some (CondQ c))"
    "lev_ok (level s) r" "th_local (current s) \<noteq> None \<Longrightarrow> wake_pending (k # r) \<Longrightarrow> wake_pending r"
  shows "kernel_ok (pop s)"
  by (rule kernel_ok_stack [OF assms(1-3), of "level s" r _ "int_status s"])
    (use assms kernel_okD(4) [OF assms(1)] in \<open>simp_all add: pop_def ksim_def\<close>)

lemma kernel_ok_result:
  assumes "kernel_ok s"
  shows "kernel_ok (set_result v s)"
proof -
  have "kcore (set_result v s)" using assms by (auto simp: kernel_ok_def kcore_def set_result_def)
  moreover have "ksim (set_result v s)" by (rule ksim_cong [OF kernel_okD(4) [OF assms]]) (simp_all add: set_result_def)
  ultimately show ?thesis using assms by (simp add: kernel_ok_def) (simp add: set_result_def)
qed

text \<open>What interrupt handlers and \<open>V\<close> do.\<close>

lemma kernel_ok_kept:
  assumes "kernel_ok s" "kcore s'" "kept s s'" "ksim s'" "level s' = level s"
  shows "kernel_ok s'"
proof -
  let ?c = "currentThread s"
  have c: "currentThread s' = ?c" using assms(3) by (simp add: kept_def)
  have th: "threads s' ?c = current s \<or> threads s' ?c = (current s)\<lparr>th_status := READY\<rparr>" using assms(3) by (simp add: kept_def)
  then have sk: "th_stack (threads s' ?c) = th_stack (current s)" by auto
  show ?thesis
  proof (cases "th_status (current s) = RUNNING")
    case True
    then have lv: "lev_ok (level s) (th_stack (current s))" using assms(1) by (simp add: kernel_ok_def)
    then have "th_stack (current s) \<noteq> SleepLoopK # r" for r by auto
    moreover have "kok (sts s') (sks s') (lcs s') ?c (items (readyList s')) (queue_of s') (threadToBeDestroyed s')"
      using assms(2) c by (simp add: kcore_def K_def)
    ultimately have "th_status (threads s' ?c) = RUNNING" using kokD(1) sk by (fastforce simp: k_run_def sts_def sks_def)
    then show ?thesis using assms lv sk c by (simp add: kernel_ok_def)
  next
    case False
    then have "level s = IntOff" "lev_top IntOff (th_stack (current s))" using assms(1) by (simp_all add: kernel_ok_def)
    moreover have "th_status (threads s' ?c) \<noteq> RUNNING" using th False by auto
    ultimately show ?thesis using assms sk c by (simp add: kernel_ok_def)
  qed
qed

lemma ksim_V_body:
  assumes "ksim s"
  shows "ksim (V_body x s)"
proof (rule ksim_cong [OF assms])
  have k: "kept s (V_body x s)" by (rule kept_V_body)
  then show "halted (V_body x s) = halted s" by (simp add: kept_def)
  show "th_space (threads (V_body x s) t) = th_space (threads s t)" for t
  proof -
    have "threads (V_body x s) t = threads s t \<or> threads (V_body x s) t = (threads s t)\<lparr>th_status := READY\<rparr>" using k by (simp add: kept_def)
    then show ?thesis by auto
  qed
qed simp_all

lemma kernel_ok_V_body:
  assumes "kernel_ok s"
  shows "kernel_ok (V_body x s)"
proof (rule kernel_ok_kept [OF assms])
  show "kcore (V_body x s)" using assms by (simp add: kernel_ok_def kcore_V_body)
  show "kept s (V_body x s)" by (rule kept_V_body)
  show "ksim (V_body x s)" using ksim_V_body [OF kernel_okD(4) [OF assms]] .
qed simp

lemma kernel_ok_Release_body:
  assumes "kernel_ok s" "th_status (current s) = RUNNING"
  shows "kernel_ok (Release_body l b s)"
proof (cases "Lock_isHeldByCurrentThread l s")
  case held: True
  define lk where "lk rest = (locks s l)\<lparr>lock_free := True, lock_queue := rest, activeThread := (if b then None else activeThread (locks s l))\<rparr>" for rest
  have lv: "lev_ok (level s) (th_stack (current s))" using assms by (simp add: kernel_ok_def)
  show ?thesis
  proof (cases "lock_queue (locks s l)")
    case Nil
    let ?s = "set_lock l (lk []) s"
    have "kernel_ok ?s"
    proof (rule kernel_okI)
      have "kwake (sts s) (sks s) (currentThread s) (items (readyList s)) (queue_of s) ((val_of s)(LockQ l := 1))"
        using kernel_okD(1) [OF assms(1)] Nil by (auto simp: K_def kwake_def)
      moreover have "(queue_of s)(LockQ l := []) = queue_of s" using Nil by (simp add: fun_upd_idem)
      ultimately show "KS ?s" using kernel_okD(1) [OF assms(1)] by (simp add: K_def lk_def)
      show "ksim ?s" by (rule ksim_cong [OF kernel_okD(4) [OF assms(1)]]) simp_all
    qed (use kernel_okD(2,3) [OF assms(1)] lv assms(2) in simp_all)
    then show ?thesis using Nil held by (simp add: Release_body_def lk_def)
  next
    case (Cons e rest)
    let ?t = "snd e"
    let ?s = "(set_thread ?t ((threads s ?t)\<lparr>th_status := READY\<rparr>) (set_lock l (lk rest) s))\<lparr>readyList := List_Append ?t (readyList s)\<rparr>"
    have q: "queue_of s (LockQ l) = ?t # items rest" using Cons by simp
    have "kok (sts s) (sks s) (lcs s) (currentThread s) (items (readyList s)) (queue_of s) (threadToBeDestroyed s)"
      using kernel_okD(1) [OF assms(1)] by (simp add: K_def)
    from queueD(1) [OF kokD(6) [OF this], of ?t "LockQ l"] have tc: "?t \<noteq> currentThread s"
      using q assms(2) by (auto simp: sts_def)
    have "kernel_ok ?s"
    proof (rule kernel_okI)
      show "KS ?s" using K_wake_queue [OF kernel_okD(1) [OF assms(1)] q, where V' = "(val_of s)(LockQ l := 1)"] by (simp add: lk_def)
      show "ksim ?s" by (rule ksim_cong [OF kernel_okD(4) [OF assms(1)]]) simp_all
    qed (use kernel_okD(2,3) [OF assms(1)] lv assms(2) tc in simp_all)
    then show ?thesis using Cons held by (simp add: Release_body_def lk_def kops)
  qed
qed (use assms in \<open>simp add: Release_body_def\<close>)

lemma Release_body_fields [simp]:
  "currentThread (Release_body l b s) = currentThread s" "conditions (Release_body l b s) = conditions s" "level (Release_body l b s) = level s"
  "pending (Release_body l b s) = pending s" "machine (Release_body l b s) = machine s" "halted (Release_body l b s) = halted s"
  "Release_body l b (set_cond c x s) = set_cond c x (Release_body l b s)"
  by (auto simp: Release_body_def Lock_isHeldByCurrentThread_def kops set_cond_def set_thread_def set_lock_def split: option.splits prod.splits)


lemma Release_body_stack: "th_stack (threads (Release_body l b s) t) = th_stack (threads s t)"
  by (auto simp: Release_body_def kops split: option.splits prod.splits)

lemma RUNNING_pushed: "th_status (current (push ks s)) = th_status (current s)" "th_stack (current (push ks s)) = ks @ th_stack (current s)"
  by (simp_all add: push_def)

text \<open>Condition variables.\<close>

lemma Wait_enqueue_ok:
  assumes "kernel_ok s" "th_stack (current s) = Wait_enqueueK c # r"
  shows "\<exists>s'. Wait_enqueue c (pop s) = Inr s' \<and> kernel_ok s'"
proof -
  note run = running [OF assms, simplified]
  obtain l r' where r: "r = Wait_reacquireK c l # r'" "level s = IntOff" "lev_ok IntOff r'"
    using run(2) by (auto elim!: wait_point.elims)
  let ?ql = "queueLock (conditions s c)" and ?c = "currentThread s"
  define s1 where "s1 = Release_body ?ql True (pop s)"
  have k: "kernel_ok (pop s)" by (rule kernel_ok_pop [OF assms]) (use r in auto)
  have st: "th_status (current (pop s)) = RUNNING" "th_stack (current (pop s)) = r" using run(1) assms(2) by (simp_all add: pop_def sts_def)
  have k1: "kernel_ok s1" unfolding s1_def by (rule kernel_ok_Release_body [OF k st(1)])
  have cur: "current s1 = current (pop s)"
  proof -
    have "kok (sts (pop s)) (sks (pop s)) (lcs (pop s)) (currentThread (pop s)) (items (readyList (pop s))) (queue_of (pop s)) (threadToBeDestroyed (pop s))"
      using kernel_okD(1) [OF k] by (simp add: K_def)
    from queueD(1) [OF kokD(6) [OF this], where q = "LockQ ?ql" and t = "currentThread (pop s)"]
    have "currentThread (pop s) \<notin> set (items (lock_queue (locks (pop s) ?ql)))" using st(1) by (auto simp: sts_def)
    then have "currentThread s \<notin> set (items (lock_queue (locks s ?ql)))" by (simp add: pop_def)
    then show ?thesis
      by (cases "lock_queue (locks (pop s) ?ql)") (auto simp: s1_def Release_body_def kops)
  qed
  have c1: "currentThread s1 = ?c" "conditions s1 = conditions s" "level s1 = IntOff" using r(2) by (simp_all add: s1_def pop_def)
  have sk1: "th_stack (current s1) = Wait_reacquireK c l # r'" using cur st(2) r(1) by simp
  let ?q = "List_Append ?c (cond_queue (conditions s c))"
  have "\<exists>s2. Thread_Sleep (set_cond c ((conditions s c)\<lparr>cond_queue := ?q\<rparr>) s1) = Inr s2 \<and> kernel_ok s2"
    by (rule Sleep_ok [OF k1 sk1, where w = "Wait_reacquireK c l" and r' = r' and q = "CondQ c" and x = 0 and ql = "sem_queue (semaphores s1 0)"])
      (use r c1 sk1 in \<open>simp_all add: fun_upd_idem\<close>)
  moreover have "Wait_enqueue c (pop s) = Thread_Sleep (set_cond c ((conditions s c)\<lparr>cond_queue := ?q\<rparr>) s1)"
    by (simp add: Wait_enqueue_def Let_def s1_def) (simp add: pop_def)
  ultimately show ?thesis by simp
qed

lemma dequeue_ok:
  assumes "kernel_ok s" "th_stack (current s) = k # r" "k \<in> {Signal_dequeueK c, Broadcast_dequeueK c i}" "w \<in> {WakeK, Broadcast_testK c i}"
  shows "kernel_ok (push [ReleaseK l True, w] (cond_dequeue c (pop s)))"
proof -
  have k: "k \<noteq> SleepLoopK" "k \<noteq> RunRestK" "wait_point k = None" "\<not> wake_pending (k # r)" "lev_ok (level s) (k # r) \<Longrightarrow> lev_ok (level s) r" using assms(3) by auto
  note run = running [OF assms(1,2) k(1)]
  let ?c = "currentThread s" and ?ks = "ReleaseK l True # w # r"
  have lc: "lcs s ?c = None" using run(3) k(4) by blast
  have lv: "lev_ok (level s) ?ks" using run(2) k(5) assms(4) by auto
  have wf: "waits_for ?ks \<noteq> Some FinQ" using assms(4) by auto
  show ?thesis
  proof (cases "cond_queue (conditions s c)")
    case Nil
    have "(conditions s c)\<lparr>cond_queue := []\<rparr> = conditions s c" using Nil by (cases "conditions s c") simp
    then have "set_cond c ((conditions s c)\<lparr>cond_queue := []\<rparr>) (pop s) = pop s" by (simp add: set_cond_def pop_def set_thread_def)
    then have d: "cond_dequeue c (pop s) = set_local None (pop s)" using Nil by (simp add: cond_dequeue_def) (simp add: pop_def)
    have e: "(current s)\<lparr>th_local := None, th_stack := ?ks\<rparr> = (current s)\<lparr>th_stack := ?ks\<rparr>"
      using lc by (cases "current s") (simp add: lcs_def)
    have "push [ReleaseK l True, w] (set_local None (pop s)) = set_thread ?c ((current s)\<lparr>th_local := None, th_stack := ?ks\<rparr>) s"
      using assms(2) by (simp add: kops set_thread_def)
    then have "push [ReleaseK l True, w] (cond_dequeue c (pop s)) = set_thread ?c ((current s)\<lparr>th_stack := ?ks\<rparr>) s"
      unfolding d e .
    moreover have "kernel_ok (set_thread ?c ((current s)\<lparr>th_stack := ?ks\<rparr>) s)"
      by (rule kernel_ok_stack [OF assms(1,2) k(1), of "level s" ?ks _ "int_status s"])
        (use k lv kernel_okD(4) [OF assms(1)] in \<open>simp_all add: ksim_def\<close>)
    ultimately show ?thesis by simp
  next
    case (Cons e rest)
    let ?s = "set_thread ?c ((current s)\<lparr>th_local := Some (snd e), th_stack := ?ks\<rparr>) (set_cond c ((conditions s c)\<lparr>cond_queue := rest\<rparr>) s)"
    have "push [ReleaseK l True, w] (cond_dequeue c (pop s)) = ?s"
      using Cons assms(2) by (auto simp: cond_dequeue_def kops set_thread_def set_cond_def)
    moreover have "kernel_ok ?s"
    proof (rule kernel_okI)
      have q: "queue_of s (CondQ c) = snd e # items rest" using Cons by simp
      have "K (sts s) ((sks s)(?c := ?ks)) ((lcs s)(?c := Some (snd e))) ?c (items (readyList s)) ((queue_of s)(CondQ c := items rest)) (threadToBeDestroyed s) (val_of s)"
        by (rule K_dequeue [OF kernel_okD(1) [OF assms(1)] run(1) lc q])
          (use assms(2-4) k wf in \<open>auto simp: sks_def\<close>)
      then show "KS ?s" by simp
      show "ksim ?s" by (rule ksim_cong [OF kernel_okD(4) [OF assms(1)]]) simp_all
    qed (use kernel_okD(2,3) [OF assms(1)] lv run(1) in \<open>simp_all add: sts_def\<close>)
    ultimately show ?thesis by simp
  qed
qed

lemma wake_local_ok:
  assumes "kernel_ok s" "th_stack (current s) = k # r" "k \<in> {WakeK, Broadcast_testK c i}" "th_local (current s) = Some t"
    "lev_ok (level s) (ks @ r)"
  shows "kernel_ok (push ks (set_local None (Scheduler_ReadyToRun t (pop s))))"
proof -
  have k: "k \<noteq> SleepLoopK" using assms(3) by auto
  note run = running [OF assms(1,2) k]
  let ?c = "currentThread s"
  have lc: "lcs s ?c = Some t" using assms(4) by (simp add: lcs_def)
  have "kok (sts s) (sks s) (lcs s) ?c (items (readyList s)) (queue_of s) (threadToBeDestroyed s)"
    using kernel_okD(1) [OF assms(1)] by (simp add: K_def)
  from localD(2) [OF kokD(7) [OF this] lc] have tc: "t \<noteq> ?c" using run(1) by auto
  let ?s = "push ks (set_local None (Scheduler_ReadyToRun t (pop s)))"
  show ?thesis
  proof (rule kernel_okI)
    have "K ((sts s)(t := READY)) ((sks s)(?c := ks @ r)) ((lcs s)(?c := None)) ?c (items (readyList s) @ [t]) (queue_of s) (threadToBeDestroyed s) (val_of s)"
      by (rule K_wake_local [OF kernel_okD(1) [OF assms(1)] run(1) lc lev_ok_not_finished [OF assms(5)]])
        (use assms(2,3) in \<open>auto simp: sks_def\<close>)
    moreover have "(lcs s)(?c := None, t := th_local (threads s t)) = (lcs s)(?c := None)" "(sks s)(?c := ks @ r, t := th_stack (threads s t)) = (sks s)(?c := ks @ r)"
        "(sts s)(t := READY, ?c := th_status (current s)) = (sts s)(t := READY)"
      using tc by (auto simp: lcs_def sks_def sts_def)
    ultimately show "KS ?s" using assms(2) tc by (simp add: kops fun_upd_twist)
    show "ksim ?s" by (rule ksim_cong [OF kernel_okD(4) [OF assms(1)]]) (simp_all add: kops)
    show "thread_ok (threads ?s x)" for x using kernel_okD(2) [OF assms(1)] by (simp add: kops)
    show "0 \<le> sem_value (semaphores ?s x)" for x using kernel_okD(3) [OF assms(1)] by (simp add: kops)
    show "lev_ok (level ?s) (th_stack (current ?s))" "th_status (current ?s) = RUNNING" using assms(5) run(1) assms(2) tc by (simp_all add: kops sts_def)
  qed
qed


text \<open>Calls.\<close>

lemma with_ints_off_ok:
  assumes "kernel_ok s" "th_stack (current s) = k # r" "k \<noteq> SleepLoopK" "k \<noteq> RunRestK" "wait_point k = None"
  shows "kernel_ok (push [SetLevelK (level s)] (s\<lparr>level := IntOff\<rparr>))"
    "th_status (current (push [SetLevelK (level s)] (s\<lparr>level := IntOff\<rparr>))) = RUNNING"
    "th_stack (current (push [SetLevelK (level s)] (s\<lparr>level := IntOff\<rparr>))) = SetLevelK (level s) # k # r"
    "level (push [SetLevelK (level s)] (s\<lparr>level := IntOff\<rparr>)) = IntOff"
proof -
  note run = running [OF assms(1-3)]
  show "kernel_ok (push [SetLevelK (level s)] (s\<lparr>level := IntOff\<rparr>))"
    by (rule kernel_ok_push [OF assms]) (use run in simp_all)
qed (use running(1) [OF assms(1-3)] assms(2) in \<open>simp_all add: push_def sts_def\<close>)

lemma enter_ok:
  assumes "kernel_ok s" "th_stack (current s) = k # r" "k \<noteq> SleepLoopK" "k \<noteq> RunRestK" "wait_point k = None \<or> (\<exists>c. wait_point k = Some (CondQ c))"
    "\<not> wake_pending (k # r)" "lev_ok (level s) r'" "p \<in> {P_loopK x, Acquire_loopK x}"
    "s' = set_thread (currentThread s) ((current s)\<lparr>th_stack := p # SetLevelK (level s) # r'\<rparr>) (s\<lparr>level := IntOff\<rparr>)"
  shows "kernel_ok s'"
  by (rule kernel_ok_stack [OF assms(1-3,5), of IntOff "p # SetLevelK (level s) # r'" _ "int_status s"])
    (use assms kernel_okD(4) [OF assms(1)] in \<open>auto simp: ksim_def\<close>)

lemma new_ok:
  assumes "kernel_ok s" "th_status (threads s t) = DELETED"
  shows "kernel_ok (set_thread t Thread_Thread s)"
proof -
  let ?s = "set_thread t Thread_Thread s"
  have "sts s t = DELETED" using assms(2) by (simp add: sts_def)
  then have K: "KS ?s" using K_new [OF kernel_okD(1) [OF assms(1)], of t] by (simp add: Thread_Thread_def)
  have "kok (sts s) (sks s) (lcs s) (currentThread s) (items (readyList s)) (queue_of s) (threadToBeDestroyed s)"
    using kernel_okD(1) [OF assms(1)] by (simp add: K_def)
  from kokD(1) [OF this] assms(2) have tc: "t \<noteq> currentThread s" by (auto simp: k_run_def sts_def)
  have "thread_ok Thread_Thread" by (simp add: thread_ok_def Thread_Thread_def)
  then have "kcore ?s" using K kernel_okD(2,3) [OF assms(1)] by (simp add: kcore_def)
  moreover have "ksim ?s" using kernel_okD(4) [OF assms(1)] by (auto simp: ksim_def ints_ok_def user_load_ok_def Thread_Thread_def)
  ultimately show ?thesis using assms(1) tc by (simp add: kernel_ok_def)
qed

lemma fork_ok:
  assumes "kernel_ok s" "th_stack (current s) = BodyK g # r" "th_status (threads s t) = JUST_CREATED"
  shows "kernel_ok (Thread_Fork t f s)"
proof -
  let ?c = "currentThread s"
  note run = running [OF assms(1,2), simplified]
  have tc: "t \<noteq> ?c" using run(1) assms(3) by (auto simp: sts_def)
  define s1 where "s1 = push [SetLevelK (level s)] (s\<lparr>level := IntOff\<rparr>)"
  note w = with_ints_off_ok [OF assms(1,2), simplified, folded s1_def]
  let ?s = "Thread_Fork t f s"
  have s1: "threads s1 t = threads s t" "currentThread s1 = ?c" using tc by (simp_all add: s1_def push_def)
  have "Thread_Fork t f s = (set_thread t ((threads s1 t)\<lparr>th_stack := [SetLevelK IntOn, BodyK f, FinishK], th_fencepost := Some STACK_FENCEPOST, th_status := READY\<rparr>) s1)\<lparr>readyList := List_Append t (readyList s1)\<rparr>"
    using tc by (auto simp: Thread_Fork_def Thread_StackAllocate_def kops s1_def set_thread_def fun_upd_twist)
  moreover have "kernel_ok \<dots>" (is "kernel_ok ?t")
  proof (rule kernel_okI)
    have "sts s1 t = JUST_CREATED" using assms(3) s1(1) by (simp add: sts_def)
    then show "KS ?t" using K_fork [OF kernel_okD(1) [OF w(1)], of t _ f] by simp
    show "thread_ok (threads ?t u)" for u using kernel_okD(2) [OF w(1)] by (simp add: thread_ok_def)
    show "0 \<le> sem_value (semaphores ?t x)" for x using kernel_okD(3) [OF w(1)] by simp
    show "ksim ?t" by (rule ksim_cong [OF kernel_okD(4) [OF w(1)]]) simp_all
    show "lev_ok (level ?t) (th_stack (current ?t))" "th_status (current ?t) = RUNNING" using w run(2) tc s1(2) by simp_all
  qed
  ultimately show ?thesis by simp
qed

lemma kcall_ok:
  assumes "kernel_ok s" "th_stack (current s) = BodyK f # r" "call_ok c s"
  shows "\<exists>s'. kcall_enter c s = Inr s' \<and> kernel_ok s'"
proof -
  note run = running [OF assms(1,2), simplified] and w = with_ints_off_ok [OF assms(1,2), simplified]
  have lv: "lev_ok l (BodyK f # r)" for l using run(2) by simp
  note P = kernel_ok_push_same [OF assms(1,2)]
  show ?thesis
  proof (cases c)
    case (CallP x)
    have "kernel_ok (Semaphore_P x s)"
      by (rule enter_ok [OF assms(1,2), of "BodyK f # r" "P_loopK x" x]) (use lv assms(2) in \<open>simp_all add: Semaphore_P_def kops set_thread_def\<close>)
    then show ?thesis using CallP by simp
  next
    case (CallAcquire x)
    have "kernel_ok (Lock_Acquire x s)"
      by (rule enter_ok [OF assms(1,2), of "BodyK f # r" "Acquire_loopK x" x]) (use lv assms(2) in \<open>simp_all add: Lock_Acquire_def kops set_thread_def\<close>)
    then show ?thesis using CallAcquire by simp
  next
    case (CallV x)
    then show ?thesis using kernel_ok_V_body [OF w(1)] by (simp add: Semaphore_V_def with_ints_off_def Interrupt_ChangeLevel_def)
  next
    case (CallRelease l b)
    then show ?thesis using kernel_ok_Release_body [OF w(1,2)] by (simp add: Lock_Release_def with_ints_off_def Interrupt_ChangeLevel_def)
  next
    case (CallNew t)
    then show ?thesis using new_ok [OF assms(1)] assms(3) by simp
  next
    case (CallFork t g)
    then show ?thesis using fork_ok [OF assms(1,2)] assms(3) by simp
  next
    case (CallSignal x l)
    then show ?thesis using assms(3) P [of "[AcquireK (queueLock (conditions s x)), Signal_dequeueK x]"] lv by (simp add: Condition_Signal_def)
  next
    case (CallBroadcast x l)
    then show ?thesis using assms(3) P [of "[AcquireK (queueLock (conditions s x)), Broadcast_dequeueK x 0]"] lv by (simp add: Condition_Broadcast_def)
  next
    case CallYield
    then show ?thesis using P [of "[YieldK]"] lv by simp
  next
    case (CallSetLevel l)
    then show ?thesis using P [of "[SetLevelK l]"] lv by simp
  next
    case CallTick
    then show ?thesis using P [of "[TickK]"] lv assms(3) by simp
  next
    case (CallSetStatus m)
    have "kcore (s\<lparr>int_status := m\<rparr>) \<longleftrightarrow> kcore s" by (rule kcore_cong) simp_all
    then show ?thesis using CallSetStatus assms(1,3) by (auto simp: kernel_ok_def ksim_def ints_ok_def user_load_ok_def)
  next
    case (CallMachine m sps)
    have "kcore (s\<lparr>machine := Some m, spaces := sps\<rparr>) \<longleftrightarrow> kcore s" by (rule kcore_cong) simp_all
    then show ?thesis using CallMachine assms(1,3) by (auto simp: kernel_ok_def ksim_def ints_ok_def user_load_ok_def)
  next
    case (CallSetSpace t sp)
    have "kcore (set_thread t ((threads s t)\<lparr>th_space := sp\<rparr>) s)"
      using kernel_okD(1-3) [OF assms(1)] by (simp add: kcore_def thread_ok_def)
    then show ?thesis using CallSetSpace assms(1,3) by (auto simp: kernel_ok_def ksim_def ints_ok_def user_load_ok_def)
  next
    case CallReturn
    then show ?thesis using kernel_ok_pop [OF assms(1,2)] run by simp
  next
    case (CallWait x l)
    let ?s = "Release_body l True (push [SetLevelK (level s)] (s\<lparr>level := IntOff\<rparr>))"
    have k: "kernel_ok ?s" using kernel_ok_Release_body [OF w(1,2)] .
    have sk: "th_stack (current ?s) = SetLevelK (level s) # BodyK f # r"
      using w(3) Release_body_stack [of l True "push [SetLevelK (level s)] (s\<lparr>level := IntOff\<rparr>)"] by simp
    have "kernel_ok (push [AcquireK (queueLock (conditions s x)), Wait_enqueueK x, Wait_reacquireK x l] ?s)"
      by (rule kernel_ok_push_same [OF k sk]) (use w(4) lv in simp_all)
    then show ?thesis using CallWait assms(3) by (simp add: Condition_Wait_def with_ints_off_def Interrupt_ChangeLevel_def)
  qed
qed

subsection \<open>Every step keeps the invariant\<close>

lemma lev_on_retests: "lev_ok IntOn r \<Longrightarrow> retests r = None \<or> (\<exists>c. retests r = Some (CondQ c))"
  by (cases r; cases "hd r") auto

lemma after_tick_ok:
  assumes "kernel_ok s" "th_status (current s) = RUNNING" "level s = IntOn" "\<And>old. r = Some old \<Longrightarrow> old \<noteq> IdleMode"
  shows "kernel_ok (after_tick (r, s))"
proof (cases r)
  case None
  then show ?thesis using assms(1) by (simp add: after_tick_def)
next
  case (Some old)
  let ?c = "currentThread s" and ?ks = "[YieldK, TickRestK old] @ th_stack (current s)"
  have lv: "lev_ok IntOn (th_stack (current s))" using assms(1-3) by (simp add: kernel_ok_def)
  have run: "sts s ?c = RUNNING" using assms(2) by (simp add: sts_def)
  have K: "kok (sts s) (sks s) (lcs s) ?c (items (readyList s)) (queue_of s) (threadToBeDestroyed s)"
    using kernel_okD(1) [OF assms(1)] by (simp add: K_def)
  have rt: "val_of s q = 0" if "retests (sks s ?c) = Some q" for q
    using lev_on_retests [OF lv] that by (auto simp: sks_def)
  have wp: "wake_pending (th_stack (current s))" if "lcs s ?c \<noteq> None"
    using kokD(7) [OF K] that unfolding k_local_def by (metis sks_def)
  let ?s = "push [YieldK, TickRestK old] s"
  have "kernel_ok ?s"
  proof (rule kernel_okI)
    have "K (sts s) ((sks s)(?c := ?ks)) (lcs s) ?c (items (readyList s)) (queue_of s) (threadToBeDestroyed s) (val_of s)"
      by (rule K_stack [OF kernel_okD(1) [OF assms(1)] run]) (use rt wp in fastforce)+
    then show "KS ?s" by (simp add: push_def)
    show "thread_ok (threads ?s t)" for t using kernel_okD(2) [OF assms(1)] by (simp add: push_def)
    show "0 \<le> sem_value (semaphores ?s x)" for x using kernel_okD(3) [OF assms(1)] by (simp add: push_def)
    show "ksim ?s" by (rule ksim_cong [OF kernel_okD(4) [OF assms(1)]]) (simp_all add: push_def)
    show "lev_ok (level ?s) (th_stack (current ?s))" "th_status (current ?s) = RUNNING"
      using lv assms(2-4) Some by (simp_all add: push_def)
  qed
  then show ?thesis using Some by (simp add: after_tick_def)
qed

lemma ops_more [simp]:
  "kernel.more (push ks s) = kernel.more s" "kernel.more (pop s) = kernel.more s" "kernel.more (Interrupt_ChangeLevel lv s) = kernel.more s"
  "kernel.more (Thread_setStatus t st s) = kernel.more s" "kernel.more (Scheduler_ReadyToRun t s) = kernel.more s"
  "kernel.more (set_local y s) = kernel.more s" "kernel.more (set_result v s) = kernel.more s" "kernel.more (V_body x s) = kernel.more s"
  "kernel.more (Release_body l b s) = kernel.more s" "kernel.more (cond_dequeue c s) = kernel.more s"
  "kernel.more (Thread_StackAllocate t f s) = kernel.more s"
  by (auto simp: kops V_body_def Release_body_def cond_dequeue_def Thread_StackAllocate_def split: option.splits prod.splits)

lemma Run_more:
  assumes "Scheduler_Run n s = Inr s'"
  shows "kernel.more s' = kernel.more s"
  using assms by (auto simp: Scheduler_Run_def save_user_def Thread_SaveUserState_def Thread_CheckOverflow_def Let_def ASSERT_def
    split: option.splits if_splits)

lemma Run_rest_more:
  assumes "Run_rest s = Inr s'"
  shows "kernel.more s' = kernel.more s"
  using assms by (auto simp: Run_rest_def Thread_destroy_def restore_user_def Thread_RestoreUserState_def ASSERT_def split: option.splits if_splits)

lemma Sleep_more: "Thread_Sleep s = Inr s' \<Longrightarrow> kernel.more s' = kernel.more s"
  by (auto simp: Thread_Sleep_def ASSERT_def split: if_splits)

lemma Yield_more: "Thread_Yield s = Inr s' \<Longrightarrow> kernel.more s' = kernel.more s"
  by (auto simp: Thread_Yield_def Scheduler_FindNextToRun_def Let_def split: option.splits prod.splits dest!: Run_more)

lemma kexec_more:
  assumes "kexec h k s = Some (Inr s')" "k \<noteq> SleepLoopK" "k \<noteq> TickK" "\<And>l. k \<noteq> SetLevelK l"
  shows "kernel.more s' = kernel.more s"
  using assms
  by (cases k) (auto simp: Thread_Finish_def P_loop_def Acquire_loop_def Wait_enqueue_def Lock_Acquire_def Lock_Release_def with_ints_off_def
      Signal_dequeue_def Signal_wake_def Broadcast_dequeue_def Broadcast_test_def Let_def
    split: if_splits option.splits dest!: Sleep_more Yield_more Run_rest_more)

lemma kcall_more:
  assumes "kcall_enter c s = Inr s'"
  shows "kernel.more s' = kernel.more s"
  using assms by (cases c) (auto simp: Semaphore_P_def Semaphore_V_def Lock_Acquire_def Lock_Release_def Condition_Wait_def Condition_Signal_def
      Condition_Broadcast_def Thread_Fork_def with_ints_off_def Let_def ASSERT_def split: if_splits)


lemma kept_with_sim [simp]: "kept (with_sim (sim.more s)) (with_sim (sim.more s')) \<longleftrightarrow> kept s s'"
  by (simp add: kept_def)

lemma kcore_with_sim [simp]: "kcore (with_sim (sim.more s)) \<longleftrightarrow> kcore s"
  by (rule kcore_cong) simp_all

lemma kept_ksim:
  assumes "kept s s'" "ksim s" "ints_ok s'" "\<not> inHandler s'" "int_status s' \<noteq> IdleMode" "same_memory (machine s) (machine s')"
  shows "ksim s'"
proof -
  have "th_space (threads s' t) = th_space (threads s t)" for t
  proof -
    have "threads s' t = threads s t \<or> threads s' t = (threads s t)\<lparr>th_status := READY\<rparr>" using assms(1) by (simp add: kept_def)
    then show ?thesis by auto
  qed
  moreover have "halted s' = halted s" using assms(1) by (simp add: kept_def)
  ultimately show ?thesis using assms(2-) by (simp add: ksim_def same_memory_None [OF assms(6)])
qed

context kernel_devices
begin

definition kernel_inv :: "'a kernel_scheme \<Rightarrow> bool" where
  "kernel_inv s \<longleftrightarrow> kernel_ok s \<and> dinv (kernel.more s)"

lemma tick_ok:
  assumes "kernel_inv s" "level s = IntOn" "th_status (current s) = RUNNING"
  shows "\<exists>s'. run_bind (Interrupt_OneTick callHandler s) (\<lambda>r. Some (Inr (after_tick r))) = Some (Inr s') \<and> kernel_inv s'"
proof -
  have k: "kernel_ok s" "kcore s" "ksim s" using assms(1) by (simp_all add: kernel_inv_def kernel_ok_def)
  obtain r s' where t: "Interrupt_OneTick callHandler s = Some (Inr (r, s'))" "kcore s'" "dinv (kernel.more s')" "ints_ok s'" "level s' = IntOn"
      "\<not> inHandler s'" "kept s s'" "same_memory (machine s) (machine s')"
      "int_status s' = (case r of None \<Rightarrow> int_status s | Some old \<Rightarrow> SystemMode)" "\<forall>old. r = Some old \<longrightarrow> old = int_status s"
    using OneTick_ok [of s] k assms(1) by (auto simp: ksim_def kernel_inv_def)
  have "ksim s'" by (rule kept_ksim [OF t(7) k(3) t(4,6) _ t(8)]) (use t(9) k(3) in \<open>auto simp: ksim_def split: option.splits\<close>)
  then have k': "kernel_ok s'" using kernel_ok_kept [OF k(1) t(2,7)] t(5) assms(2) by simp
  have th: "th_status (current s') = RUNNING"
  proof -
    have "th_stack (current s') = th_stack (current s)"
    proof -
      have "threads s' (currentThread s) = current s \<or> threads s' (currentThread s) = (current s)\<lparr>th_status := READY\<rparr>" "currentThread s' = currentThread s"
        using t(7) by (simp_all add: kept_def)
      then show ?thesis by auto
    qed
    then show ?thesis using k' t(5) by (auto simp: kernel_ok_def split: if_splits)
  qed
  have "kernel_ok (after_tick (r, s'))"
    by (rule after_tick_ok [OF k' th t(5)]) (use t(10) k(3) in \<open>auto simp: ksim_def\<close>)
  moreover have "kernel.more (after_tick (r, s')) = kernel.more s'" by (cases r) (simp_all add: after_tick_def)
  ultimately show ?thesis using t(1,3) by (simp add: kernel_inv_def)
qed

lemma SetLevel_inv:
  assumes "kernel_inv s" "th_stack (current s) = SetLevelK l # r"
  shows "kernel_inv ((pop s)\<lparr>level := l\<rparr>)"
proof -
  have k: "kernel_ok s" using assms(1) by (simp add: kernel_inv_def)
  note run = running [OF k assms(2), simplified]
  let ?s = "(pop s)\<lparr>level := l\<rparr>"
  have "?s = set_thread (currentThread s) ((current s)\<lparr>th_stack := r\<rparr>) (s\<lparr>level := l, int_status := int_status s\<rparr>)"
    using assms(2) by (simp add: pop_def set_thread_def)
  from kernel_ok_stack [OF k assms(2) _ _ _ _ _ this] have "kernel_ok ?s"
    using run(2) kernel_okD(4) [OF k] by (simp add: ksim_def)
  then show ?thesis using assms(1) by (simp add: kernel_inv_def)
qed

lemma SetLevel_ok:
  assumes "kernel_inv s" "th_stack (current s) = SetLevelK l # r"
  shows "\<exists>s'. kexec callHandler (SetLevelK l) (pop s) = Some (Inr s') \<and> kernel_inv s'"
proof -
  have k: "kernel_ok s" using assms(1) by (simp add: kernel_inv_def)
  note run = running [OF k assms(2), simplified]
  let ?s = "(pop s)\<lparr>level := l\<rparr>"
  have inv: "kernel_inv ?s" by (rule SetLevel_inv [OF assms])
  have nh: "\<not> inHandler (pop s)" using kernel_okD(4) [OF k] by (simp add: pop_def ksim_def)
  show ?thesis
  proof (cases "l = IntOn \<and> level s = IntOff")
    case True
    have "th_status (current ?s) = RUNNING" using run(1) by (simp add: pop_def sts_def)
    from tick_ok [OF inv _ this] show ?thesis
      using True nh by (simp add: Interrupt_SetLevel_def Interrupt_ChangeLevel_def Let_def) (simp add: pop_def)
  next
    case False
    then have "Interrupt_SetLevel callHandler l (pop s) = Some (Inr (None, ?s))"
      using nh by (cases l) (auto simp: Interrupt_SetLevel_def Interrupt_ChangeLevel_def Let_def pop_def)
    then show ?thesis using inv by (simp add: after_tick_def)
  qed
qed

lemma Sleep_idle:
  assumes "kernel_inv s" "th_stack (current s) = SleepLoopK # r" "readyList s = []"
  obtains g s1 where "Sleep_loop callHandler (pop s) = Some (Inr (if g then s1 else s1\<lparr>halted := True\<rparr>))"
    "kept s s1" "quiescent s1" "same_memory (machine s) (machine s1)" "g \<longrightarrow> int_status s1 = SystemMode"
proof -
  have k: "kernel_ok s" "kcore s" "ksim s" using assms(1) by (simp_all add: kernel_inv_def kernel_ok_def)
  note sl = sleeping [OF k(1) assms(2)]
  have "quiescent s" using assms(1) k sl(2) by (simp add: quiescent_def kernel_inv_def ksim_def)
  then obtain g s1 where i: "Interrupt_Idle callHandler s = Some (Inr (g, s1))" "quiescent s1" "kept s s1"
      "same_memory (machine s) (machine s1)" "g \<longrightarrow> int_status s1 = SystemMode"
    using Idle_ok [of s] by auto
  have "push [SleepLoopK] ((pop s)\<lparr>readyList := []\<rparr>) = s"
  proof -
    have "(current s)\<lparr>th_stack := SleepLoopK # r\<rparr> = current s" using assms(2) by (cases "current s") simp
    then show ?thesis using assms(2,3) by (cases s) (simp add: push_def pop_def set_thread_def fun_upd_idem)
  qed
  then have S: "Sleep_loop callHandler (pop s) = Some (Inr (if g then s1 else s1\<lparr>halted := True\<rparr>))"
    using assms(3) i(1) by (simp add: Sleep_loop_def Scheduler_FindNextToRun_def) (simp add: pop_def)
  show ?thesis using that [OF S i(3,2,4,5)] .
qed

lemma Sleep_loop_ok:
  assumes "kernel_inv s" "th_stack (current s) = SleepLoopK # r"
  shows "\<exists>s'. Sleep_loop callHandler (pop s) = Some (Inr s') \<and> (halted s' \<or> kernel_inv s')"
proof (cases "readyList s")
  case (Cons e rest)
  have k: "kernel_ok s" using assms(1) by (simp add: kernel_inv_def)
  obtain s' where s': "Sleep_loop callHandler (pop s) = Some (Inr s')" "kernel_ok s'" using Sleep_run_ok [OF k assms(2) Cons] by blast
  then have "kernel.more s' = kernel.more s"
    using Cons by (auto simp: Sleep_loop_def Scheduler_FindNextToRun_def pop_def dest!: Run_more)
  then show ?thesis using s' assms(1) by (simp add: kernel_inv_def)
next
  case Nil
  have k: "kernel_ok s" "ksim s" using assms(1) by (simp_all add: kernel_inv_def kernel_ok_def)
  note sl = sleeping [OF k(1) assms(2)]
  obtain g s1 where i: "Sleep_loop callHandler (pop s) = Some (Inr (if g then s1 else s1\<lparr>halted := True\<rparr>))"
      "kept s s1" "quiescent s1" "same_memory (machine s) (machine s1)" "g \<longrightarrow> int_status s1 = SystemMode"
    using Sleep_idle [OF assms Nil] .
  show ?thesis
  proof (cases g)
    case True
    note q = i(3) [unfolded quiescent_def]
    have "ksim s1" by (rule kept_ksim [OF i(2) k(2)]) (use q i(4,5) True in auto)
    then have "kernel_ok s1" using kernel_ok_kept [OF k(1) _ i(2)] q sl(2) by simp
    then show ?thesis using i(1) True q by (simp add: kernel_inv_def)
  next
    case False
    then show ?thesis using i(1) by simp
  qed
qed

end

lemma push_Nil [simp]: "push [] s = s"
  by (simp add: push_def set_thread_def)

lemma kexec_pure_ok:
  assumes "kernel_ok s" "th_stack (current s) = k # r" "k \<noteq> SleepLoopK" "k \<noteq> TickK" "\<And>l. k \<noteq> SetLevelK l" "\<And>f. k \<noteq> BodyK f"
  shows "\<exists>s'. kexec h k (pop s) = Some (Inr s') \<and> kernel_ok s'"
proof -
  note run = running [OF assms(1-3)]
  show ?thesis
  proof (cases k)
    case FinishK
    then show ?thesis using Finish_ok [OF assms(1)] assms(2) by simp
  next
    case FinishedK
    then show ?thesis using run(2) by simp
  next
    case (TickRestK m)
    have "kernel_ok ((pop s)\<lparr>int_status := m\<rparr>)"
      by (rule kernel_ok_stack [OF assms(1-3), of "level s" r _ m])
        (use TickRestK run(2) assms(2) in \<open>simp_all add: pop_def set_thread_def\<close>)
    then show ?thesis using TickRestK by simp
  next
    case YieldK
    then show ?thesis using Yield_ok [OF assms(1)] assms(2) by simp
  next
    case RunRestK
    then show ?thesis using Run_rest_ok [OF assms(1)] assms(2) by simp
  next
    case (P_loopK x)
    then show ?thesis using P_loop_ok [OF assms(1)] assms(2) by simp
  next
    case (AcquireK l)
    have "kernel_ok (Lock_Acquire l (pop s))"
      by (rule enter_ok [OF assms(1-3), of r "Acquire_loopK l" l])
        (use AcquireK run(2) assms(2) in \<open>simp_all add: Lock_Acquire_def kops set_thread_def\<close>)
    then show ?thesis using AcquireK by simp
  next
    case (Acquire_loopK l)
    then show ?thesis using Acquire_loop_ok [OF assms(1)] assms(2) by simp
  next
    case (ReleaseK l b)
    have w: "kernel_ok (push [SetLevelK (level s)] ((pop s)\<lparr>level := IntOff\<rparr>))"
      by (rule kernel_ok_stack [OF assms(1-3), of IntOff "SetLevelK (level s) # r" _ "int_status s"])
        (use ReleaseK run(2) assms(2) kernel_okD(4) [OF assms(1)] in \<open>simp_all add: kops set_thread_def ksim_def\<close>)
    have "th_status (current (push [SetLevelK (level s)] ((pop s)\<lparr>level := IntOff\<rparr>))) = RUNNING"
      using run(1) by (simp add: kops sts_def)
    from kernel_ok_Release_body [OF w this] show ?thesis
      using ReleaseK by (simp add: Lock_Release_def with_ints_off_def Interrupt_ChangeLevel_def) (simp add: pop_def)
  next
    case (Wait_enqueueK c)
    then show ?thesis using Wait_enqueue_ok [OF assms(1)] assms(2) by simp
  next
    case (Wait_reacquireK c l)
    have "kernel_ok (Lock_Acquire l (pop s))"
      by (rule enter_ok [OF assms(1-3), of r "Acquire_loopK l" l])
        (use Wait_reacquireK run(2) assms(2) in \<open>simp_all add: Lock_Acquire_def kops set_thread_def\<close>)
    then show ?thesis using Wait_reacquireK by simp
  next
    case (Signal_dequeueK c)
    then show ?thesis using dequeue_ok [OF assms(1,2), of c 0 WakeK] by (simp add: Signal_dequeue_def)
  next
    case (Broadcast_dequeueK c i)
    then show ?thesis using dequeue_ok [OF assms(1,2), of c i "Broadcast_testK c i"] by (simp add: Broadcast_dequeue_def)
  next
    case WakeK
    show ?thesis
    proof (cases "th_local (current s)")
      case None
      have "kernel_ok (pop s)" by (rule kernel_ok_pop [OF assms(1-3)]) (use WakeK run(2) None in simp_all)
      then show ?thesis using WakeK None kernel_ok_result by (simp add: Signal_wake_def) (simp add: pop_def)
    next
      case (Some t)
      have k: "kernel_ok (push [] (set_local None (Scheduler_ReadyToRun t (pop s))))"
        by (rule wake_local_ok [OF assms(1,2) _ Some]) (use WakeK run(2) in simp_all)
      then show ?thesis using WakeK Some kernel_ok_result [OF k, of "int t"] by (simp add: Signal_wake_def) (simp add: pop_def)
    qed
  next
    case (Broadcast_testK c i)
    show ?thesis
    proof (cases "th_local (current s)")
      case None
      have "kernel_ok (pop s)" by (rule kernel_ok_pop [OF assms(1-3)]) (use Broadcast_testK run(2) None in simp_all)
      then show ?thesis using Broadcast_testK None kernel_ok_result by (simp add: Broadcast_test_def) (simp add: pop_def)
    next
      case (Some t)
      have "kernel_ok (push [AcquireK (queueLock (conditions s c)), Broadcast_dequeueK c (i + 1)] (set_local None (Scheduler_ReadyToRun t (pop s))))"
        by (rule wake_local_ok [OF assms(1,2) _ Some]) (use Broadcast_testK run(2) in simp_all)
      then show ?thesis using Broadcast_testK Some by (simp add: Broadcast_test_def) (simp add: pop_def)
    qed
  qed (use assms in auto)
qed


context kernel_devices
begin

lemma kexec_ok:
  assumes "kernel_inv s" "th_stack (current s) = k # r" "\<And>f. k \<noteq> BodyK f"
  shows "\<exists>s'. kexec callHandler k (pop s) = Some (Inr s') \<and> (halted s' \<or> kernel_inv s')"
proof -
  have k: "kernel_ok s" "dinv (kernel.more s)" using assms(1) by (simp_all add: kernel_inv_def)
  consider (sleep) "k = SleepLoopK" | (tick) "k = TickK" | (level) l where "k = SetLevelK l"
    | (pure) "k \<noteq> SleepLoopK" "k \<noteq> TickK" "\<And>l. k \<noteq> SetLevelK l" by blast
  then show ?thesis
  proof cases
    case sleep
    then show ?thesis using Sleep_loop_ok [OF assms(1)] assms(2) by simp
  next
    case tick
    have lv: "level s = IntOn" "lev_ok IntOn r" "sts s (currentThread s) = RUNNING" using running [OF k(1) assms(2)] tick by auto
    have "kernel_ok (pop s)" by (rule kernel_ok_pop [OF k(1) assms(2)]) (use tick lv in simp_all)
    then have "kernel_inv (pop s)" using k(2) by (simp add: kernel_inv_def)
    from tick_ok [OF this] show ?thesis using tick lv by (auto simp: pop_def sts_def)
  next
    case level
    then show ?thesis using SetLevel_ok [OF assms(1)] assms(2) by blast
  next
    case pure
    obtain s' where s': "kexec callHandler k (pop s) = Some (Inr s')" "kernel_ok s'"
      using kexec_pure_ok [OF k(1) assms(2) pure assms(3)] by blast
    then show ?thesis using kexec_more [OF s'(1) pure] k(2) by (simp add: kernel_inv_def)
  qed
qed

lemma kstep_inv:
  assumes "kernel_inv s" "kstep callHandler s s'"
  shows "halted s' \<or> kernel_inv s'"
  using assms(2,1)
proof cases
  case (exec k r)
  show ?thesis
  proof (cases "\<exists>f. k = BodyK f")
    case True
    then show ?thesis using exec by auto
  next
    case False
    then show ?thesis using kexec_ok [OF assms(1) exec(2)] exec(3) by auto
  qed
next
  case (call f r c)
  have "kernel_ok s" using assms(1) by (simp add: kernel_inv_def)
  from kcall_ok [OF this call(2,3)] call(4) have "kernel_ok s'" by auto
  then show ?thesis using kcall_more [OF call(4)] assms(1) by (simp add: kernel_inv_def)
qed

lemma kstep_progress:
  assumes "kernel_inv s"
  shows "\<exists>s'. kstep callHandler s s'"
proof -
  have nh: "\<not> halted s" "th_stack (current s) \<noteq> []"
    using assms by (auto simp: kernel_inv_def kernel_ok_def ksim_def lev_top_def split: if_splits)
  then obtain k r where Cons: "th_stack (current s) = k # r" by (cases "th_stack (current s)") auto
  show ?thesis
  proof (cases "\<exists>f. k = BodyK f")
    case True
    then obtain f where k: "k = BodyK f" ..
    have "kstep callHandler s (pop s)" by (rule kstep.call [OF nh(1), of f r CallReturn]) (use Cons k in simp_all)
    then show ?thesis by blast
  next
    case False
    then obtain s' where "kexec callHandler k (pop s) = Some (Inr s')" using kexec_ok [OF assms Cons] by blast
    then show ?thesis using kstep.exec [OF nh(1) Cons] by blast
  qed
qed

lemma steps_inv:
  assumes "(kstep callHandler)\<^sup>*\<^sup>* s s'" "kernel_inv s"
  shows "halted s' \<or> kernel_inv s'"
  using assms
proof (induction rule: rtranclp_induct)
  case (step s1 s2)
  then have "\<not> halted s1" by (auto elim: kstep.cases)
  then show ?case using step kstep_inv by blast
qed simp

end

subsection \<open>Scheduling is first come, first served; locks belong to their owner\<close>

text \<open>A step leaves the processor to the current thread or gives it to the first thread of the ready list; threads join at the end of the list.\<close>

definition dispatches :: "'a kernel_scheme \<Rightarrow> 'a kernel_scheme \<Rightarrow> bool" where
  "dispatches s s' \<longleftrightarrow> (\<exists>e rest new. readyList s = e # rest \<and> readyList s' = rest @ new \<and> currentThread s' = snd e)"

definition stays :: "'a kernel_scheme \<Rightarrow> 'a kernel_scheme \<Rightarrow> bool" where
  "stays s s' \<longleftrightarrow> (\<exists>new. readyList s' = readyList s @ new) \<and> currentThread s' = currentThread s"

definition lock_kept :: "'a kernel_scheme \<Rightarrow> 'a kernel_scheme \<Rightarrow> bool" where
  "lock_kept s s' \<longleftrightarrow> (\<forall>l t. \<not> lock_free (locks s l) \<longrightarrow> activeThread (locks s l) = Some t \<longrightarrow> t \<noteq> currentThread s
     \<longrightarrow> \<not> lock_free (locks s' l) \<and> activeThread (locks s' l) = Some t)"

lemma stays_trans: "stays s s1 \<Longrightarrow> stays s1 s2 \<Longrightarrow> stays s s2"
  by (auto simp: stays_def)

lemma stays_dispatches: "stays s s1 \<Longrightarrow> readyList s1 = readyList s \<Longrightarrow> dispatches s1 s2 \<Longrightarrow> dispatches s s2"
  by (auto simp: stays_def dispatches_def)

lemma lock_kept_same: "locks s' = locks s \<Longrightarrow> lock_kept s s'"
  by (simp add: lock_kept_def)

lemma kept_stays: "kept s s' \<Longrightarrow> stays s s'" "kept s s' \<Longrightarrow> lock_kept s s'"
  by (simp_all add: kept_def stays_def lock_kept_def)

lemma Run_fields:
  assumes "Scheduler_Run n s = Inr s'"
  shows "currentThread s' = n \<and> readyList s' = readyList s \<and> locks s' = locks s"
  using assms by (auto simp: Scheduler_Run_def save_user_def Thread_SaveUserState_def Thread_CheckOverflow_def kops ASSERT_def
    split: option.splits if_splits)

lemma Run_rest_fields:
  assumes "Run_rest s = Inr s'"
  shows "currentThread s' = currentThread s \<and> readyList s' = readyList s \<and> locks s' = locks s"
  using assms by (auto simp: Run_rest_def Thread_destroy_def restore_user_def Thread_RestoreUserState_def ASSERT_def split: option.splits if_splits)

lemma Sleep_fields:
  assumes "Thread_Sleep s = Inr s'"
  shows "currentThread s' = currentThread s \<and> readyList s' = readyList s \<and> locks s' = locks s"
  using assms by (auto simp: Thread_Sleep_def ASSERT_def kops split: if_splits)

lemma Yield_sched:
  assumes "Thread_Yield s = Inr s'"
  shows "stays s s' \<or> dispatches s s'" "locks s' = locks s"
proof -
  show "stays s s' \<or> dispatches s s'" using assms
    by (cases "readyList s") (auto simp: Thread_Yield_def Scheduler_FindNextToRun_def stays_def dispatches_def kops List_Append_def dest!: Run_fields)
  show "locks s' = locks s" using assms
    by (cases "readyList s") (auto simp: Thread_Yield_def Scheduler_FindNextToRun_def kops dest!: Run_fields)
qed

lemma Release_body_sched: "\<exists>new. readyList (Release_body l b s) = readyList s @ new" "lock_kept s (Release_body l b s)"
  by (auto simp: Release_body_def Lock_isHeldByCurrentThread_def kops List_Append_def lock_kept_def split: option.splits prod.splits)

lemma Release_stays: "readyList s1 = readyList s \<Longrightarrow> \<exists>new. readyList (Release_body l b s1) = readyList s @ new"
  using Release_body_sched(1) [of l b s1] by simp

lemma Release_lock_kept:
  assumes "locks s1 = locks s" "currentThread s1 = currentThread s" "locks s' = locks (Release_body l b s1)"
  shows "lock_kept s s'"
  using Release_body_sched(2) [of s1 l b] assms by (simp add: lock_kept_def)

lemma kexec_sched:
  assumes "kexec h k s = Some (Inr s')" "k \<noteq> SleepLoopK" "k \<noteq> TickK" "\<And>l. k \<noteq> SetLevelK l"
  shows "stays s s' \<or> dispatches s s'" "lock_kept s s'"
proof -
  note defs = Thread_Finish_def P_loop_def Acquire_loop_def Wait_enqueue_def Lock_Acquire_def Lock_Release_def
      Signal_dequeue_def Signal_wake_def Broadcast_dequeue_def Broadcast_test_def cond_dequeue_def kops List_Append_def
  show "stays s s' \<or> dispatches s s'"
  proof (cases "k = YieldK")
    case True
    then show ?thesis using Yield_sched(1) assms(1) by simp
  next
    case False
    then have "stays s s'" using assms
      by (cases k) (auto simp: stays_def defs intro: Release_stays split: if_splits option.splits prod.splits dest!: Sleep_fields Run_rest_fields)
    then show ?thesis ..
  qed
  show "lock_kept s s'"
  proof (cases k)
    case (Acquire_loopK l)
    then show ?thesis using assms(1) by (auto simp: lock_kept_def defs dest!: Sleep_fields split: if_splits)
  next
    case (ReleaseK l b)
    then show ?thesis using assms(1)
      by (auto simp: Lock_Release_def with_ints_off_def intro: Release_lock_kept [of "push [SetLevelK (level s)] (Interrupt_ChangeLevel IntOff s)"] simp: kops)
  qed (use assms in \<open>auto intro: lock_kept_same Release_lock_kept dest!: Sleep_fields Run_rest_fields Yield_sched(2) simp: defs split: if_splits option.splits prod.splits\<close>)
qed

lemma pop_sched [simp]: "stays (pop s) s' \<longleftrightarrow> stays s s'" "dispatches (pop s) s' \<longleftrightarrow> dispatches s s'" "lock_kept (pop s) s' \<longleftrightarrow> lock_kept s s'"
  by (simp_all add: stays_def dispatches_def lock_kept_def pop_def)

lemma after_tick_sched [simp]: "stays s (after_tick (r, s1)) \<longleftrightarrow> stays s s1" "lock_kept s (after_tick (r, s1)) \<longleftrightarrow> lock_kept s s1"
  by (simp_all add: stays_def lock_kept_def after_tick_def push_def split: option.split)

lemma kcall_sched:
  assumes "kcall_enter c s = Inr s'"
  shows "stays s s'" "lock_kept s s'"
proof -
  note defs = Semaphore_P_def Semaphore_V_def Lock_Acquire_def Lock_Release_def Condition_Wait_def Condition_Signal_def
      Condition_Broadcast_def Thread_Fork_def Thread_StackAllocate_def kops ASSERT_def List_Append_def
  have V: "stays s (V_body x s1)" "lock_kept s (V_body x s1)" if "readyList s1 = readyList s" "currentThread s1 = currentThread s" "locks s1 = locks s" for x s1
    using kept_stays [OF kept_V_body [of s1 x]] that by (auto simp: stays_def lock_kept_def)
  have R: "stays s (Release_body l b s1)" if "readyList s1 = readyList s" "currentThread s1 = currentThread s" for l b s1
    using Release_stays [OF that(1)] that(2) by (simp add: stays_def)
  have P: "stays s (push ks s1) \<longleftrightarrow> stays s s1" for ks s1 by (simp add: stays_def push_def)
  show "stays s s'"
  proof (cases c)
    case (CallV x)
    then show ?thesis using assms by (auto simp: Semaphore_V_def with_ints_off_def Interrupt_ChangeLevel_def push_def intro!: V)
  next
    case (CallRelease l b)
    then show ?thesis using assms by (auto simp: Lock_Release_def with_ints_off_def Interrupt_ChangeLevel_def push_def intro!: R)
  next
    case (CallWait x l)
    have "stays s (Release_body l True (push [SetLevelK (level s)] (s\<lparr>level := IntOff\<rparr>)))" by (rule R) (simp_all add: push_def)
    then show ?thesis using assms CallWait
      by (auto simp: Condition_Wait_def ASSERT_def with_ints_off_def Interrupt_ChangeLevel_def P split: if_splits)
  qed (use assms in \<open>auto simp: defs stays_def split: if_splits\<close>)
  have RL: "lock_kept s (Release_body l b (push [SetLevelK (level s)] (s\<lparr>level := IntOff\<rparr>)))" for l b
    by (rule Release_lock_kept [of "push [SetLevelK (level s)] (s\<lparr>level := IntOff\<rparr>)" _ _ l b]) (simp_all add: push_def)
  have PL: "lock_kept s (push ks s1) \<longleftrightarrow> lock_kept s s1" for ks s1 by (simp add: lock_kept_def push_def)
  show "lock_kept s s'"
  proof (cases c)
    case (CallRelease l b)
    then show ?thesis using assms RL by (auto simp: Lock_Release_def with_ints_off_def Interrupt_ChangeLevel_def)
  next
    case (CallWait x l)
    then show ?thesis using assms RL by (auto simp: Condition_Wait_def ASSERT_def with_ints_off_def Interrupt_ChangeLevel_def PL split: if_splits)
  qed (use assms in \<open>auto simp: defs V intro: lock_kept_same split: if_splits\<close>)
qed

context kernel_devices
begin

lemma tick_sched:
  assumes "kernel_inv s" "run_bind (Interrupt_OneTick callHandler s) (\<lambda>r. Some (Inr (after_tick r))) = Some (Inr s')"
  shows "stays s s' \<and> lock_kept s s'"
proof -
  have k: "kernel_ok s" "kcore s" "ksim s" using assms(1) by (simp_all add: kernel_inv_def kernel_ok_def)
  obtain r s1 where t: "Interrupt_OneTick callHandler s = Some (Inr (r, s1))" "kept s s1"
    using OneTick_ok [of s] k assms(1) by (auto simp: ksim_def kernel_inv_def)
  then show ?thesis using assms(2) kept_stays [OF t(2)] by auto
qed

lemma kexec_sched_all:
  assumes "kernel_inv s" "th_stack (current s) = k # r" "kexec callHandler k (pop s) = Some (Inr s')"
  shows "(stays s s' \<or> dispatches s s') \<and> lock_kept s s'"
proof -
  have k: "kernel_ok s" "kcore s" "ksim s" "dinv (kernel.more s)" using assms(1) by (simp_all add: kernel_inv_def kernel_ok_def)
  consider (sleep) "k = SleepLoopK" | (tick) "k = TickK" | (level) l where "k = SetLevelK l"
    | (pure) "k \<noteq> SleepLoopK" "k \<noteq> TickK" "\<And>l. k \<noteq> SetLevelK l" by blast
  then show ?thesis
  proof cases
    case pure
    then show ?thesis using kexec_sched [OF assms(3) pure] by simp
  next
    case tick
    have lv: "level s = IntOn" "lev_ok IntOn r" using running [OF k(1) assms(2)] tick by auto
    have "kernel_ok (pop s)" by (rule kernel_ok_pop [OF k(1) assms(2)]) (use tick lv in simp_all)
    then have "kernel_inv (pop s)" using k(4) by (simp add: kernel_inv_def)
    from tick_sched [OF this] show ?thesis using tick assms(3) by simp
  next
    case level
    let ?s = "(pop s)\<lparr>level := l\<rparr>"
    have f: "stays ?s s' \<longleftrightarrow> stays s s'" "lock_kept ?s s' \<longleftrightarrow> lock_kept s s'" by (simp_all add: stays_def lock_kept_def pop_def)
    have sk: "th_stack (current s) = SetLevelK l # r" using assms(2) level by simp
    have inv: "kernel_inv ?s" using SetLevel_inv [OF assms(1) sk] .
    show ?thesis
    proof (cases "Interrupt_SetLevel callHandler l (pop s) = Interrupt_OneTick callHandler ?s")
      case True
      then show ?thesis using tick_sched [OF inv] assms(3) level f by simp
    next
      case False
      then have "s' = ?s" using assms(3) level
        by (auto simp: Interrupt_SetLevel_def Interrupt_ChangeLevel_def Let_def after_tick_def split: if_splits)
      then show ?thesis by (simp add: stays_def lock_kept_def pop_def)
    qed
  next
    case sleep
    show ?thesis
    proof (cases "readyList s")
      case Nil
      obtain g s1 where "Sleep_loop callHandler (pop s) = Some (Inr (if g then s1 else s1\<lparr>halted := True\<rparr>))" "kept s s1"
        using Sleep_idle [OF assms(1) _ Nil] assms(2) sleep by blast
      then show ?thesis using assms(3) sleep kept_stays [of s s1] by (auto simp: stays_def lock_kept_def split: if_splits)
    next
      case (Cons e rest)
      then have "Scheduler_Run (snd e) ((pop s)\<lparr>readyList := rest\<rparr>) = Inr s'"
        using assms(3) sleep by (simp add: Sleep_loop_def Scheduler_FindNextToRun_def pop_def)
      from Run_fields [OF this] show ?thesis using Cons by (auto simp: dispatches_def pop_def intro: lock_kept_same)
    qed
  qed
qed

lemma kstep_sched:
  assumes "kernel_inv s" "kstep callHandler s s'"
  shows "(stays s s' \<or> dispatches s s') \<and> lock_kept s s'"
  using assms(2)
proof cases
  case (exec k r)
  then show ?thesis using kexec_sched_all [OF assms(1)] by simp
next
  case (call f r c)
  then show ?thesis using kcall_sched by blast
qed

end

end
