(* ===== verification/Nachos_Devices.thy ===== *)
theory Nachos_Devices
  imports Complex_Main Nachos_Steps Nachos_Disk
begin

text \<open>
  The device simulators \<^verbatim>\<open>machine/console.cc\<close>, \<^verbatim>\<open>machine/network.cc\<close>, the interrupt side of \<^verbatim>\<open>machine/disk.cc\<close>, \<^verbatim>\<open>machine/timer.cc\<close>
  and \<^verbatim>\<open>filesys/synchdisk.cc\<close>, and the start of the kernel in \<^verbatim>\<open>threads/system.cc\<close>. They are the handlers that the interrupt
  simulation calls: each one is shown to meet the contract of \<open>kernel_devices\<close>, so that the results about the thread system hold for the
  kernel with these devices.

  The world outside is part of the state: the results of polling the keyboard, one per poll; the packets that arrive on
  the socket; the pseudo-random numbers. What is written to the display and to the network is recorded.
  The devices know the semaphores that their upcalls signal: \<^verbatim>\<open>ReadAvail\<close> and \<^verbatim>\<open>WriteDone\<close> of \<^verbatim>\<open>progtest.cc\<close> for the console,
  \<^verbatim>\<open>IncomingPacket\<close> and \<^verbatim>\<open>PacketSent\<close> of \<^verbatim>\<open>post.cc\<close> for the network, \<^verbatim>\<open>RequestDone\<close> of \<^verbatim>\<open>synchdisk.cc\<close> for the disk.
\<close>

section \<open>State\<close>

definition EOF :: byte where "EOF = 0xff"

record Console =
  putBusy :: bool
  incoming :: byte
  con_readAvail :: nat
  con_writeDone :: nat
  keyboard :: "byte option list"
  display :: "byte list"

record PacketHeader =
  pkt_to :: int
  pkt_from :: int
  pkt_length :: nat

definition MaxWireSize :: nat where "MaxWireSize = 64"
definition sizeof_PacketHeader :: nat where "sizeof_PacketHeader = 12"
definition MaxPacketSize :: nat where "MaxPacketSize = MaxWireSize - sizeof_PacketHeader"

text \<open>A packet on the wire is its header and its data, which \<open>Send\<close> pads.\<close>

record Network =
  net_ident :: int
  chanceToWork :: rat
  sendBusy :: bool
  inHdr :: PacketHeader
  inbox :: "byte list"
  net_readAvail :: nat
  net_writeDone :: nat
  net_in :: "(PacketHeader \<times> byte list) list"
  net_out :: "(PacketHeader \<times> byte list) list"

record Devices =
  dev_timer :: Timer
  dev_disk :: Disk
  disk_semaphore :: nat
  dev_console :: Console
  dev_network :: Network
  randoms :: "nat \<Rightarrow> nat"
  random_count :: nat

type_synonym nachos = "Devices kernel_scheme"

abbreviation dev :: "nachos \<Rightarrow> Devices" where "dev s \<equiv> kernel.more s"

definition set_dev :: "Devices \<Rightarrow> nachos \<Rightarrow> nachos" where
  "set_dev d s = kernel.more_update (\<lambda>_. d) s"

definition Random :: "Devices \<Rightarrow> nat \<times> Devices" where
  "Random d = (randoms d (random_count d), d\<lparr>random_count := random_count d + 1\<rparr>)"

section \<open>The console\<close>

definition Console_Console :: "int \<Rightarrow> nat \<Rightarrow> nat \<Rightarrow> byte option list \<Rightarrow> nachos \<Rightarrow> nachos result" where
  "Console_Console this readAvail writeDone keys s =
     (let c = \<lparr>putBusy = False, incoming = EOF, con_readAvail = readAvail, con_writeDone = writeDone, keyboard = keys, display = []\<rparr> in
      Interrupt_Schedule ConsoleReadPoll this ConsoleTime ConsoleReadInt (set_dev ((dev s)\<lparr>dev_console := c\<rparr>) s))"

text \<open>\<open>PollFile\<close> consumes one element of \<open>keyboard\<close>: a character that \<open>Read\<close> delivers, or nothing yet.\<close>

definition poll_keyboard :: "Console \<Rightarrow> byte option \<times> Console" where
  "poll_keyboard c = (case keyboard c of [] \<Rightarrow> (None, c) | k # ks \<Rightarrow> (k, c\<lparr>keyboard := ks\<rparr>))"

definition Console_CheckCharAvail :: "int \<Rightarrow> nachos \<Rightarrow> nachos result" where
  "Console_CheckCharAvail this s =
     rbind (Interrupt_Schedule ConsoleReadPoll this ConsoleTime ConsoleReadInt s) (\<lambda>s1.
       let c = dev_console (dev s1) in
       if incoming c \<noteq> EOF then Inr s1
       else case poll_keyboard c of
           (None, c1) \<Rightarrow> Inr (set_dev ((dev s1)\<lparr>dev_console := c1\<rparr>) s1)
         | (Some ch, c1) \<Rightarrow>
             let s2 = set_dev ((dev s1)\<lparr>dev_console := c1\<lparr>incoming := ch\<rparr>\<rparr>) s1;
                 s3 = s2\<lparr>stats := (stats s2)\<lparr>numConsoleCharsRead := numConsoleCharsRead (stats s2) + 1\<rparr>\<rparr>
             in Inr (V_body (con_readAvail c1) s3))"

definition Console_WriteDone :: "nachos \<Rightarrow> nachos" where
  "Console_WriteDone s =
     (let s1 = set_dev ((dev s)\<lparr>dev_console := (dev_console (dev s))\<lparr>putBusy := False\<rparr>\<rparr>) s;
          s2 = s1\<lparr>stats := (stats s1)\<lparr>numConsoleCharsWritten := numConsoleCharsWritten (stats s1) + 1\<rparr>\<rparr>
      in V_body (con_writeDone (dev_console (dev s2))) s2)"

definition Console_GetChar :: "nachos \<Rightarrow> byte \<times> nachos" where
  "Console_GetChar s = (let c = dev_console (dev s) in (incoming c, set_dev ((dev s)\<lparr>dev_console := c\<lparr>incoming := EOF\<rparr>\<rparr>) s))"

definition Console_PutChar :: "int \<Rightarrow> byte \<Rightarrow> nachos \<Rightarrow> nachos result" where
  "Console_PutChar this ch s = (let c = dev_console (dev s) in ASSERT (putBusy c = False)
     (let s1 = set_dev ((dev s)\<lparr>dev_console := c\<lparr>display := display c @ [ch], putBusy := True\<rparr>\<rparr>) s
      in Interrupt_Schedule ConsoleWriteDone this ConsoleTime ConsoleWriteInt s1))"

section \<open>The network\<close>

definition Network_Network :: "int \<Rightarrow> int \<Rightarrow> rat \<Rightarrow> nat \<Rightarrow> nat \<Rightarrow> (PacketHeader \<times> byte list) list \<Rightarrow> nachos \<Rightarrow> nachos result" where
  "Network_Network this addr reliability readAvail writeDone packets s =
     (let n = \<lparr>net_ident = addr, chanceToWork = (if reliability < 0 then 0 else if reliability > 1 then 1 else reliability),
            sendBusy = False, inHdr = \<lparr>pkt_to = 0, pkt_from = 0, pkt_length = 0\<rparr>, inbox = [],
            net_readAvail = readAvail, net_writeDone = writeDone, net_in = packets, net_out = []\<rparr> in
      Interrupt_Schedule NetworkReadPoll this NetworkTime NetworkRecvInt (set_dev ((dev s)\<lparr>dev_network := n\<rparr>) s))"

definition Network_CheckPktAvail :: "int \<Rightarrow> nachos \<Rightarrow> nachos result" where
  "Network_CheckPktAvail this s =
     rbind (Interrupt_Schedule NetworkReadPoll this NetworkTime NetworkRecvInt s) (\<lambda>s1.
       let n = dev_network (dev s1) in
       if pkt_length (inHdr n) \<noteq> 0 then Inr s1
       else case net_in n of [] \<Rightarrow> Inr s1
         | (hdr, buffer) # rest \<Rightarrow> ASSERT (pkt_to hdr = net_ident n \<and> pkt_length hdr \<le> MaxPacketSize)
             (let s2 = set_dev ((dev s1)\<lparr>dev_network := n\<lparr>inHdr := hdr, inbox := take (pkt_length hdr) buffer, net_in := rest\<rparr>\<rparr>) s1;
                  s3 = s2\<lparr>stats := (stats s2)\<lparr>numPacketsRecvd := numPacketsRecvd (stats s2) + 1\<rparr>\<rparr>
              in Inr (V_body (net_readAvail n) s3)))"

definition Network_SendDone :: "nachos \<Rightarrow> nachos" where
  "Network_SendDone s =
     (let n = dev_network (dev s);
          s1 = set_dev ((dev s)\<lparr>dev_network := n\<lparr>sendBusy := False\<rparr>\<rparr>) s;
          s2 = s1\<lparr>stats := (stats s1)\<lparr>numPacketsSent := numPacketsSent (stats s1) + 1\<rparr>\<rparr>
      in V_body (net_writeDone n) s2)"

text \<open>\<open>Send\<close> never sets \<open>sendBusy\<close>, as in the source. The data is padded to the size of the largest packet.\<close>

definition Network_Send :: "int \<Rightarrow> PacketHeader \<Rightarrow> byte list \<Rightarrow> nachos \<Rightarrow> nachos result" where
  "Network_Send this hdr data s = (let n = dev_network (dev s) in
     ASSERT (sendBusy n = False \<and> pkt_length hdr > 0 \<and> pkt_length hdr \<le> MaxPacketSize \<and> pkt_from hdr = net_ident n)
       (rbind (Interrupt_Schedule NetworkSendDone this NetworkTime NetworkSendInt s) (\<lambda>s1.
          case Random (dev s1) of (r, d) \<Rightarrow>
          if of_nat (r mod 100) \<ge> chanceToWork n * 100 then Inr (set_dev d s1)
          else Inr (set_dev (d\<lparr>dev_network := n\<lparr>net_out := net_out n @ [(hdr, take (pkt_length hdr) data)]\<rparr>\<rparr>) s1))))"

definition Network_Receive :: "nachos \<Rightarrow> (PacketHeader \<times> byte list) \<times> nachos" where
  "Network_Receive s = (let n = dev_network (dev s); hdr = inHdr n in
     ((hdr, if pkt_length hdr \<noteq> 0 then take (pkt_length hdr) (inbox n) else []),
      set_dev ((dev s)\<lparr>dev_network := n\<lparr>inHdr := (inHdr n)\<lparr>pkt_length := 0\<rparr>\<rparr>\<rparr>) s))"

section \<open>The handlers\<close>

definition timer_expired :: "int \<Rightarrow> nachos \<Rightarrow> nachos result" where
  "timer_expired this s =
     (let t = dev_timer (dev s); (r, d) = (if randomize t then Random (dev s) else (0, dev s))
      in Timer_TimerExpired this t r (set_dev d s))"

definition SynchDisk_RequestDone :: "nachos \<Rightarrow> nachos" where
  "SynchDisk_RequestDone s = V_body (disk_semaphore (dev s)) s"

definition disk_done :: "nachos \<Rightarrow> nachos result" where
  "disk_done s = rbind (Disk_HandleInterrupt (\<lambda>s. Inr (SynchDisk_RequestDone s)) (dev_disk (dev s)) s)
     (\<lambda>(d, s1). Inr (set_dev ((dev s1)\<lparr>dev_disk := d\<rparr>) s1))"

fun callHandler :: "VoidFunctionPtr \<Rightarrow> int \<Rightarrow> nachos \<Rightarrow> nachos result" where
  "callHandler TimerHandler a s = timer_expired a s"
| "callHandler DiskDone a s = disk_done s"
| "callHandler ConsoleReadPoll a s = Console_CheckCharAvail a s"
| "callHandler ConsoleWriteDone a s = Inr (Console_WriteDone s)"
| "callHandler NetworkReadPoll a s = Network_CheckPktAvail a s"
| "callHandler NetworkSendDone a s = Inr (Network_SendDone s)"

text \<open>The packets on the socket are addressed to this machine and short enough: \<open>Send\<close> of the other machines sees to it.\<close>

definition dev_ok :: "Devices \<Rightarrow> bool" where
  "dev_ok d \<longleftrightarrow> (\<forall>(hdr, data) \<in> set (net_in (dev_network d)). pkt_to hdr = net_ident (dev_network d) \<and> pkt_length hdr \<le> MaxPacketSize)"

lemma V_body_more: "V_body x (kernel.more_update (\<lambda>_. d) s) = kernel.more_update (\<lambda>_. d) (V_body x s)"
  by (cases s) (auto simp: V_body_def Scheduler_ReadyToRun_def Thread_setStatus_def set_thread_def set_sem_def Let_def split: option.splits prod.splits)

lemma V_body_stats: "V_body x (s\<lparr>stats := st\<rparr>) = (V_body x s)\<lparr>stats := st\<rparr>"
  by (auto simp: V_body_def Scheduler_ReadyToRun_def Thread_setStatus_def set_thread_def set_sem_def Let_def split: option.splits prod.splits)

lemma V_body_pending: "V_body x (s\<lparr>pending := p\<rparr>) = (V_body x s)\<lparr>pending := p\<rparr>"
  by (auto simp: V_body_def Scheduler_ReadyToRun_def Thread_setStatus_def set_thread_def set_sem_def Let_def split: option.splits prod.splits)


lemma V_body_yield [simp]: "yieldOnReturn (V_body x s) = yieldOnReturn s"
  by (auto simp: V_body_def Scheduler_ReadyToRun_def Thread_setStatus_def set_thread_def set_sem_def Let_def split: option.splits prod.splits)

lemmas V_body_commutes = V_body_more V_body_stats V_body_pending

text \<open>The effects that the contract of the devices allows.\<close>

definition device_effect :: "nachos \<Rightarrow> nachos \<Rightarrow> bool" where
  "device_effect s s' \<longleftrightarrow> (\<exists>xs st new y m. s' = kernel.more_update (\<lambda>_. m) ((fold V_body xs s)\<lparr>stats := st,
        pending := sorted_inserts new (pending s), yieldOnReturn := y\<rparr>)
      \<and> totalTicks st = now s \<and> (\<forall>e \<in> set new. now s < fst e) \<and> dev_ok m)"

lemma device_effectI:
  assumes "s' = set_dev m ((fold V_body xs s)\<lparr>stats := st, pending := sorted_inserts new (pending s), yieldOnReturn := y\<rparr>)"
    "totalTicks st = now s" "\<forall>e \<in> set new. now s < fst e" "dev_ok m"
  shows "device_effect s s'"
  using assms unfolding set_dev_def device_effect_def by blast

lemma schedule_soon:
  assumes "0 < t"
  shows "Interrupt_Schedule h a t k s
    = Inr (s\<lparr>pending := sorted_inserts [(now s + t, PendingInterrupt_PendingInterrupt h a (now s + t) k)] (pending s)\<rparr>)"
  using assms by (simp add: Interrupt_Schedule_def Let_def)

lemma timer_effect:
  assumes "dev_ok (dev s)" "inHandler s" "int_status s = SystemMode"
  shows "\<exists>s'. timer_expired a s = Inr s' \<and> device_effect s s'"
proof -
  obtain r d where rd: "(if randomize (dev_timer (dev s)) then Random (dev s) else (0, dev s)) = (r, d)" by force
  then have d: "dev_ok d" using assms(1) by (auto simp: Random_def dev_ok_def split: if_splits)
  let ?t = "Timer_TimeOfNextInterrupt (dev_timer (dev s)) r"
  have t: "0 < ?t" by (auto simp: Timer_TimeOfNextInterrupt_def TimerTicks_def intro: add_pos_nonneg)
  let ?p = "(now s + ?t, PendingInterrupt_PendingInterrupt TimerHandler a (now s + ?t) TimerInt)"
  let ?s = "set_dev d (s\<lparr>stats := stats s, pending := sorted_inserts [?p] (pending s), yieldOnReturn := True\<rparr>)"
  have "timer_expired a s = Inr ?s"
    using assms(2,3) rd t by (simp add: timer_expired_def Let_def Timer_TimerExpired_def schedule_soon TimerInterruptHandler_def
        Interrupt_YieldOnReturn_def set_dev_def) (cases s, simp)
  moreover have "device_effect s ?s" by (rule device_effectI [where xs = "[]" and new = "[?p]"]) (use d t in simp_all)
  ultimately show ?thesis by blast
qed

lemma disk_effect:
  assumes "dev_ok (dev s)"
  shows "\<exists>s'. disk_done s = Inr s' \<and> device_effect s s'"
proof -
  let ?s = "set_dev ((dev s)\<lparr>dev_disk := (dev_disk (dev s))\<lparr>active := False\<rparr>\<rparr>) (V_body (disk_semaphore (dev s)) s)"
  have "disk_done s = Inr ?s" by (simp add: disk_done_def Disk_HandleInterrupt_def SynchDisk_RequestDone_def)
  moreover have "device_effect s ?s"
    by (rule device_effectI [where xs = "[disk_semaphore (dev s)]" and st = "stats s" and new = "[]" and y = "yieldOnReturn s"
        and m = "(dev s)\<lparr>dev_disk := (dev_disk (dev s))\<lparr>active := False\<rparr>\<rparr>"])
      (use assms in \<open>auto simp: dev_ok_def set_dev_def intro: kernel.equality\<close>)
  ultimately show ?thesis by blast
qed

lemma console_read_effect:
  assumes "dev_ok (dev s)"
  shows "\<exists>s'. Console_CheckCharAvail a s = Inr s' \<and> device_effect s s'"
proof -
  let ?p = "(now s + ConsoleTime, PendingInterrupt_PendingInterrupt ConsoleReadPoll a (now s + ConsoleTime) ConsoleReadInt)"
  let ?c = "dev_console (dev s)"
  have t: "0 < ConsoleTime" by (simp add: ConsoleTime_def)
  obtain k c1 where k: "poll_keyboard ?c = (k, c1)" by force
  have d: "dev_ok ((dev s)\<lparr>dev_console := c\<rparr>)" for c using assms by (simp add: dev_ok_def)
  show ?thesis
  proof (cases "incoming ?c \<noteq> EOF")
    case True
    let ?s = "s\<lparr>pending := sorted_inserts [?p] (pending s)\<rparr>"
    have "Console_CheckCharAvail a s = Inr ?s" using True t by (simp add: Console_CheckCharAvail_def schedule_soon Let_def)
    moreover have "device_effect s ?s"
      by (rule device_effectI [where xs = "[]" and st = "stats s" and new = "[?p]" and y = "yieldOnReturn s" and m = "dev s"])
        (use assms t in \<open>auto simp: set_dev_def intro: kernel.equality\<close>)
    ultimately show ?thesis by blast
  next
    case F: False
    show ?thesis
    proof (cases k)
      case None
      let ?s = "set_dev ((dev s)\<lparr>dev_console := c1\<rparr>) (s\<lparr>pending := sorted_inserts [?p] (pending s)\<rparr>)"
      have "Console_CheckCharAvail a s = Inr ?s" using F k None t by (simp add: Console_CheckCharAvail_def schedule_soon Let_def)
      moreover have "device_effect s ?s"
        by (rule device_effectI [where xs = "[]" and st = "stats s" and new = "[?p]" and y = "yieldOnReturn s"])
          (use d t in \<open>auto simp: set_dev_def intro: kernel.equality\<close>)
      ultimately show ?thesis by blast
    next
      case (Some ch)
      let ?d = "(dev s)\<lparr>dev_console := c1\<lparr>incoming := ch\<rparr>\<rparr>" and ?st = "(stats s)\<lparr>numConsoleCharsRead := numConsoleCharsRead (stats s) + 1\<rparr>"
      let ?s = "V_body (con_readAvail c1) ((set_dev ?d (s\<lparr>pending := sorted_inserts [?p] (pending s)\<rparr>))\<lparr>stats := ?st\<rparr>)"
      have "Console_CheckCharAvail a s = Inr ?s"
        using F k Some t by (simp add: Console_CheckCharAvail_def schedule_soon Let_def set_dev_def)
      moreover have "device_effect s ?s"
        by (rule device_effectI [where xs = "[con_readAvail c1]" and st = ?st and new = "[?p]" and y = "yieldOnReturn s" and m = ?d])
          (use d t in \<open>auto simp: V_body_commutes set_dev_def intro: kernel.equality\<close>)
      ultimately show ?thesis by blast
    qed
  qed
qed


lemma console_write_effect:
  assumes "dev_ok (dev s)"
  shows "device_effect s (Console_WriteDone s)"
  by (rule device_effectI [where xs = "[con_writeDone (dev_console (dev s))]" and new = "[]" and y = "yieldOnReturn s"
      and st = "(stats s)\<lparr>numConsoleCharsWritten := numConsoleCharsWritten (stats s) + 1\<rparr>"
      and m = "(dev s)\<lparr>dev_console := (dev_console (dev s))\<lparr>putBusy := False\<rparr>\<rparr>"])
    (use assms in \<open>auto simp: Console_WriteDone_def Let_def V_body_commutes set_dev_def dev_ok_def intro: kernel.equality\<close>)

lemma network_sent_effect:
  assumes "dev_ok (dev s)"
  shows "device_effect s (Network_SendDone s)"
  by (rule device_effectI [where xs = "[net_writeDone (dev_network (dev s))]" and new = "[]" and y = "yieldOnReturn s"
      and st = "(stats s)\<lparr>numPacketsSent := numPacketsSent (stats s) + 1\<rparr>"
      and m = "(dev s)\<lparr>dev_network := (dev_network (dev s))\<lparr>sendBusy := False\<rparr>\<rparr>"])
    (use assms in \<open>auto simp: Network_SendDone_def Let_def V_body_commutes set_dev_def dev_ok_def intro: kernel.equality\<close>)

lemma network_read_effect:
  assumes "dev_ok (dev s)"
  shows "\<exists>s'. Network_CheckPktAvail a s = Inr s' \<and> device_effect s s'"
proof -
  let ?p = "(now s + NetworkTime, PendingInterrupt_PendingInterrupt NetworkReadPoll a (now s + NetworkTime) NetworkRecvInt)"
  let ?n = "dev_network (dev s)"
  have t: "0 < NetworkTime" by (simp add: NetworkTime_def)
  show ?thesis
  proof (cases "pkt_length (inHdr ?n) \<noteq> 0 \<or> net_in ?n = []")
    case True
    let ?s = "s\<lparr>pending := sorted_inserts [?p] (pending s)\<rparr>"
    have "Network_CheckPktAvail a s = Inr ?s" using True t by (auto simp: Network_CheckPktAvail_def schedule_soon Let_def)
    moreover have "device_effect s ?s"
      by (rule device_effectI [where xs = "[]" and st = "stats s" and new = "[?p]" and y = "yieldOnReturn s" and m = "dev s"])
        (use assms t in \<open>auto simp: set_dev_def intro: kernel.equality\<close>)
    ultimately show ?thesis by blast
  next
    case False
    then obtain hdr buffer rest where n: "net_in ?n = (hdr, buffer) # rest" "pkt_length (inHdr ?n) = 0" by (cases "net_in ?n") auto
    then have ok: "pkt_to hdr = net_ident ?n" "pkt_length hdr \<le> MaxPacketSize" using assms by (auto simp: dev_ok_def)
    let ?d = "(dev s)\<lparr>dev_network := ?n\<lparr>inHdr := hdr, inbox := take (pkt_length hdr) buffer, net_in := rest\<rparr>\<rparr>"
      and ?st = "(stats s)\<lparr>numPacketsRecvd := numPacketsRecvd (stats s) + 1\<rparr>"
    let ?s = "V_body (net_readAvail ?n) ((set_dev ?d (s\<lparr>pending := sorted_inserts [?p] (pending s)\<rparr>))\<lparr>stats := ?st\<rparr>)"
    have "Network_CheckPktAvail a s = Inr ?s"
      using n ok t by (simp add: Network_CheckPktAvail_def schedule_soon Let_def set_dev_def)
    moreover have "device_effect s ?s"
      by (rule device_effectI [where xs = "[net_readAvail ?n]" and st = ?st and new = "[?p]" and y = "yieldOnReturn s" and m = ?d])
        (use assms n t in \<open>auto simp: V_body_commutes set_dev_def dev_ok_def intro: kernel.equality\<close>)
    ultimately show ?thesis by blast
  qed
qed

lemma handler_effect:
  assumes "dev_ok (dev s)" "inHandler s" "int_status s = SystemMode"
  shows "\<exists>s'. callHandler h a s = Inr s' \<and> device_effect s s'"
  using assms timer_effect disk_effect console_read_effect network_read_effect console_write_effect network_sent_effect
  by (cases h) auto

interpretation nachos: kernel_devices callHandler dev_ok
proof
  fix s :: nachos and h a
  assume "dev_ok (dev s)" "level s = IntOff" "inHandler s" "int_status s = SystemMode"
  then show "\<exists>xs st new y m. callHandler h a s = Inr (kernel.more_update (\<lambda>_. m) ((fold V_body xs s)\<lparr>stats := st,
        pending := sorted_inserts new (pending s), yieldOnReturn := y\<rparr>))
      \<and> totalTicks st = now s \<and> (\<forall>e \<in> set new. now s < fst e) \<and> dev_ok m"
    using handler_effect unfolding device_effect_def by blast
qed

section \<open>The start of the kernel\<close>

text \<open>
  \<open>Initialize\<close> up to \<^verbatim>\<open>interrupt->Enable()\<close>, which is the first thing on the stack of the main thread; then \<^verbatim>\<open>main\<close> goes on and
  calls \<open>Finish\<close> in the end. The synchronization objects that the program will create are there from the start, in their initial
  state: \<open>v\<close>, \<open>free\<close> and \<open>ql\<close> give the arguments of their constructors.
\<close>

definition Initialize :: "bool \<Rightarrow> (nat \<Rightarrow> nat) \<Rightarrow> (nat \<Rightarrow> bool) \<Rightarrow> (nat \<Rightarrow> nat) \<Rightarrow> (nat \<Rightarrow> AddrSpace) \<Rightarrow> Devices \<Rightarrow> nachos result" where
  "Initialize randomYield v free ql sps d =
     (let none = Thread_Thread\<lparr>th_status := DELETED\<rparr>;
          main = Thread_Thread\<lparr>th_status := RUNNING, th_stack := [SetLevelK IntOn, BodyK 0, FinishK]\<rparr>;
          s = Interrupt_Interrupt \<lparr>stats = Statistics_Statistics, level = IntOff, pending = List_empty, inHandler = False, yieldOnReturn = False,
            int_status = SystemMode, machine = None, currentThread = 0, threads = (\<lambda>_. none)(0 := main), readyList = List_empty,
            threadToBeDestroyed = None, semaphores = (\<lambda>x. Semaphore_Semaphore (int (v x))), locks = (\<lambda>l. Lock_Lock (free l)),
            conditions = (\<lambda>c. Condition_Condition (ql c)), spaces = sps, halted = False, \<dots> = d\<rparr>
      in if randomYield then
           case Random (dev s) of (r, d1) \<Rightarrow> Timer_Timer 0 \<lparr>randomize = True\<rparr> r (set_dev (d1\<lparr>dev_timer := \<lparr>randomize = True\<rparr>\<rparr>) s)
         else Inr s)"

end
