(* ===== verification/Nachos_Concurrency.thy ===== *)
theory Nachos_Concurrency
  imports Nachos_Devices
begin

text \<open>
  What the thread system of Nachos guarantees, for the kernel of \<open>Nachos_Threads\<close> with the devices of \<open>Nachos_Devices\<close>, in every
  state that it can reach from its start.
\<close>

section \<open>Device requests\<close>

text \<open>
  What the code of a thread asks of the devices: the routines of \<^verbatim>\<open>console.cc\<close>, \<^verbatim>\<open>network.cc\<close> and \<^verbatim>\<open>disk.cc\<close> that it calls between
  its calls of the kernel. \<open>this\<close> is the address of the device object.
\<close>

datatype dcall = NewConsole int nat nat "byte option list" | GetChar | PutChar int byte
  | NewNetwork int int rat nat nat "(PacketHeader \<times> byte list) list" | Send int PacketHeader "byte list" | Receive
  | ReadRequest int int | WriteRequest int int "byte list"

fun dcall_enter :: "dcall \<Rightarrow> nachos \<Rightarrow> nachos result" where
  "dcall_enter (NewConsole this readAvail writeDone keys) s = Console_Console this readAvail writeDone keys s"
| "dcall_enter GetChar s = Inr (snd (Console_GetChar s))"
| "dcall_enter (PutChar this ch) s = Console_PutChar this ch s"
| "dcall_enter (NewNetwork this addr reliability readAvail writeDone packets) s = Network_Network this addr reliability readAvail writeDone packets s"
| "dcall_enter (Send this hdr data) s = Network_Send this hdr data s"
| "dcall_enter Receive s = Inr (snd (Network_Receive s))"
| "dcall_enter (ReadRequest this sn) s = rbind (Disk_ReadRequest this (dev_disk (dev s)) sn s)
     (\<lambda>(data, d, s1). Inr (set_dev ((dev s1)\<lparr>dev_disk := d\<rparr>) s1))"
| "dcall_enter (WriteRequest this sn data) s = rbind (Disk_WriteRequest this (dev_disk (dev s)) sn data s)
     (\<lambda>(d, s1). Inr (set_dev ((dev s1)\<lparr>dev_disk := d\<rparr>) s1))"

fun dcall_ok :: "dcall \<Rightarrow> bool" where
  "dcall_ok (NewNetwork this addr reliability readAvail writeDone packets) \<longleftrightarrow>
     (\<forall>(hdr, data) \<in> set packets. pkt_to hdr = addr \<and> pkt_length hdr \<le> MaxPacketSize)"
| "dcall_ok _ \<longleftrightarrow> True"

definition request_effect :: "nachos \<Rightarrow> nachos \<Rightarrow> bool" where
  "request_effect s s' \<longleftrightarrow> (\<exists>st new m. s' = set_dev m (s\<lparr>stats := st, pending := sorted_inserts new (pending s)\<rparr>) \<and> dev_ok m)"

lemma request_effectI:
  "s' = set_dev m (s\<lparr>stats := st, pending := sorted_inserts new (pending s)\<rparr>) \<Longrightarrow> dev_ok m \<Longrightarrow> request_effect s s'"
  unfolding request_effect_def by blast

lemma request_schedule:
  assumes "Interrupt_Schedule h a t k (set_dev m (s\<lparr>stats := st\<rparr>)) = Inr s'" "dev_ok m"
  shows "request_effect s s'"
proof -
  let ?p = "(totalTicks st + t, PendingInterrupt_PendingInterrupt h a (totalTicks st + t) k)"
  have "s' = set_dev m (s\<lparr>stats := st, pending := sorted_inserts [?p] (pending s)\<rparr>)"
    using assms by (cases s) (auto simp: Interrupt_Schedule_def Let_def set_dev_def ASSERT_def split: if_splits)
  then show ?thesis using assms(2) by (rule request_effectI)
qed

lemma dcall_effect:
  assumes "dcall_enter c s = Inr s'" "dcall_ok c" "dev_ok (dev s)"
  shows "request_effect s s'"
proof (cases c)
  case (NewConsole this ra wd keys)
  let ?m = "(dev s)\<lparr>dev_console := \<lparr>putBusy = False, incoming = EOF, con_readAvail = ra, con_writeDone = wd, keyboard = keys, display = []\<rparr>\<rparr>"
  have "set_dev ?m s = set_dev ?m (s\<lparr>stats := stats s\<rparr>)" by simp
  then show ?thesis using assms NewConsole request_schedule [where m = ?m and s = s and st = "stats s" and s' = s'] by (simp add: Console_Console_def Let_def dev_ok_def)
next
  case GetChar
  then show ?thesis using assms
    by (intro request_effectI [where m = "dev s'" and st = "stats s" and new = "[]"]) (auto simp: Console_GetChar_def Let_def set_dev_def dev_ok_def)
next
  case (PutChar this ch)
  let ?m = "(dev s)\<lparr>dev_console := (dev_console (dev s))\<lparr>display := display (dev_console (dev s)) @ [ch], putBusy := True\<rparr>\<rparr>"
  have "set_dev ?m s = set_dev ?m (s\<lparr>stats := stats s\<rparr>)" by simp
  then show ?thesis using assms PutChar request_schedule [where m = ?m and s = s and st = "stats s" and s' = s']
    by (simp add: Console_PutChar_def Let_def dev_ok_def ASSERT_def split: if_splits)
next
  case (NewNetwork this addr rel ra wd packets)
  let ?n = "\<lparr>net_ident = addr, chanceToWork = (if rel < 0 then 0 else if rel > 1 then 1 else rel),
            sendBusy = False, inHdr = \<lparr>pkt_to = 0, pkt_from = 0, pkt_length = 0\<rparr>, inbox = [],
            net_readAvail = ra, net_writeDone = wd, net_in = packets, net_out = []\<rparr>"
  let ?m = "(dev s)\<lparr>dev_network := ?n\<rparr>"
  have e: "set_dev ?m s = set_dev ?m (s\<lparr>stats := stats s\<rparr>)" by simp
  have "Interrupt_Schedule NetworkReadPoll this NetworkTime NetworkRecvInt (set_dev ?m s) = Inr s'"
    using assms(1) unfolding NewNetwork dcall_enter.simps Network_Network_def Let_def .
  moreover have "dev_ok ?m" using assms(2) NewNetwork by (simp add: dev_ok_def)
  ultimately show ?thesis unfolding e by (rule request_schedule)
next
  case (Send this hdr data)
  obtain r d where R: "Random (dev s) = (r, d)" by force
  then have d: "dev_network d = dev_network (dev s)" "dev_ok d" using assms(3) by (auto simp: Random_def dev_ok_def)
  then have d': "dev_ok (d\<lparr>dev_network := (dev_network (dev s))\<lparr>net_out := x\<rparr>\<rparr>)" for x by (simp add: dev_ok_def)
  let ?p = "(now s + NetworkTime, PendingInterrupt_PendingInterrupt NetworkSendDone this (now s + NetworkTime) NetworkSendInt)"
  obtain m where "s' = set_dev m (s\<lparr>stats := stats s, pending := sorted_inserts [?p] (pending s)\<rparr>)" "dev_ok m"
    using assms(1) Send R d d' schedule_soon [of NetworkTime NetworkSendDone this NetworkSendInt s]
    by (auto simp: Network_Send_def Let_def ASSERT_def NetworkTime_def set_dev_def split: if_splits)
  then show ?thesis by (rule request_effectI)
next
  case Receive
  then show ?thesis using assms
    by (intro request_effectI [where m = "dev s'" and st = "stats s" and new = "[]"]) (auto simp: Network_Receive_def Let_def set_dev_def dev_ok_def)
next
  case (ReadRequest this sn)
  then obtain data d s1 where r: "Disk_ReadRequest this (dev_disk (dev s)) sn s = Inr (data, d, s1)" "s' = set_dev ((dev s1)\<lparr>dev_disk := d\<rparr>) s1"
    using assms(1) by (auto simp: result_inv)
  show ?thesis using r assms(3)
    by (intro request_effectI [where m = "dev s'" and st = "(stats s)\<lparr>numDiskReads := numDiskReads (stats s) + 1\<rparr>" and new = "[(_, _)]"])
      (auto simp: Disk_ReadRequest_def Interrupt_Schedule_def Let_def ASSERT_def set_dev_def dev_ok_def simp: result_inv split: if_splits)
next
  case (WriteRequest this sn data)
  then obtain d s1 where r: "Disk_WriteRequest this (dev_disk (dev s)) sn data s = Inr (d, s1)" "s' = set_dev ((dev s1)\<lparr>dev_disk := d\<rparr>) s1"
    using assms(1) by (auto simp: result_inv)
  show ?thesis using r assms(3)
    by (intro request_effectI [where m = "dev s'" and st = "(stats s)\<lparr>numDiskWrites := numDiskWrites (stats s) + 1\<rparr>" and new = "[(_, _)]"])
      (auto simp: Disk_WriteRequest_def Interrupt_Schedule_def Let_def ASSERT_def set_dev_def dev_ok_def simp: result_inv split: if_splits)
qed

lemma request_kept: "request_effect s s' \<Longrightarrow> kept s s'"
  by (auto simp: request_effect_def kept_def set_dev_def)

lemma request_inv:
  assumes "nachos.kernel_inv s" "request_effect s s'"
  shows "nachos.kernel_inv s'"
proof -
  have k: "kernel_ok s" "kcore s" "ksim s" using assms(1) by (simp_all add: nachos.kernel_inv_def kernel_ok_def)
  obtain st new m where s': "s' = set_dev m (s\<lparr>stats := st, pending := sorted_inserts new (pending s)\<rparr>)" "dev_ok m"
    using assms(2) by (auto simp: request_effect_def)
  have "ksim s'" using k(3) by (auto simp: ksim_def s' set_dev_def ints_ok_def user_load_ok_def sorted_inserts_sorted)
  moreover have "kcore s' \<longleftrightarrow> kcore s" by (rule kcore_cong) (simp_all add: s' set_dev_def)
  ultimately have "kernel_ok s'" using kernel_ok_kept [OF k(1) _ request_kept [OF assms(2)]] k(2) by (simp add: s' set_dev_def)
  then show ?thesis using s' by (simp add: nachos.kernel_inv_def set_dev_def)
qed

section \<open>Reachable states\<close>

text \<open>A step of the machine: a step of the kernel, or a request to a device by the code of a thread.\<close>

inductive nstep :: "nachos \<Rightarrow> nachos \<Rightarrow> bool" where
  kernel: "kstep callHandler s s' \<Longrightarrow> nstep s s'"
| device: "\<not> halted s \<Longrightarrow> th_stack (current s) = BodyK f # r \<Longrightarrow> dcall_ok c \<Longrightarrow> dcall_enter c s = Inr s' \<Longrightarrow> nstep s s'"

definition reachable :: "nachos \<Rightarrow> bool" where
  "reachable s \<longleftrightarrow> (\<exists>randomYield v free ql sps d s0. dev_ok d \<and> Initialize randomYield v free ql sps d = Inr s0 \<and> nstep\<^sup>*\<^sup>* s0 s)"

lemma nstep_cases:
  assumes "nstep s s'" "nachos.kernel_inv s"
  obtains (kernel) "kstep callHandler s s'" | (device) "request_effect s s'"
  using assms by (cases rule: nstep.cases) (auto simp: nachos.kernel_inv_def intro: dcall_effect)

lemma nstep_inv: "nachos.kernel_inv s \<Longrightarrow> nstep s s' \<Longrightarrow> halted s' \<or> nachos.kernel_inv s'"
  by (erule nstep_cases) (auto intro: request_inv dest: nachos.kstep_inv)

lemma nsteps_inv:
  assumes "nstep\<^sup>*\<^sup>* s s'" "nachos.kernel_inv s"
  shows "halted s' \<or> nachos.kernel_inv s'"
  using assms
proof (induction rule: rtranclp_induct)
  case (step s1 s2)
  then have "\<not> halted s1" by (auto elim: nstep.cases kstep.cases)
  then show ?case using step nstep_inv by blast
qed simp

text \<open>The scheduler serves in the order of arrival, and only its owner frees a lock.\<close>

lemma nstep_sched:
  assumes "nachos.kernel_inv s" "nstep s s'"
  shows "(stays s s' \<or> dispatches s s') \<and> lock_kept s s'"
  using assms(2,1)
proof (cases rule: nstep_cases)
  case kernel
  then show ?thesis using nachos.kstep_sched [OF assms(1)] by simp
next
  case device
  then show ?thesis using kept_stays [OF request_kept] by blast
qed

lemma queue_of_empty:
  assumes "\<And>x. sem_queue (semaphores s x) = []" "\<And>l. lock_queue (locks s l) = []" "\<And>c. cond_queue (conditions s c) = []"
  shows "queue_of s q = []"
  using assms by (cases q) simp_all

lemma boot_kcore:
  assumes "threads s = (\<lambda>_. Thread_Thread\<lparr>th_status := DELETED\<rparr>)(0 := Thread_Thread\<lparr>th_status := RUNNING, th_stack := ks\<rparr>)"
    "currentThread s = 0" "readyList s = []" "threadToBeDestroyed s = None" "waits_for ks \<noteq> Some FinQ"
    "\<And>x. sem_queue (semaphores s x) = []" "\<And>l. lock_queue (locks s l) = []" "\<And>c. cond_queue (conditions s c) = []"
    "\<And>x. 0 \<le> sem_value (semaphores s x)"
  shows "kcore s"
proof -
  have st: "sts s = (\<lambda>_. DELETED)(0 := RUNNING)" "sks s = (\<lambda>_. [])(0 := ks)" "lcs s = (\<lambda>_. None)"
    using assms(1) by (auto simp: sts_def sks_def lcs_def Thread_Thread_def)
  have q: "queue_of s = (\<lambda>_. [])" using queue_of_empty [of s] assms(6-8) by auto
  have "KS s" unfolding K_def kok_def st q assms(2-4)
    by (auto simp: k_run_def k_off_def k_dead_def k_fin_def k_ready_def k_queues_def k_local_def k_blocked_def kwake_def assms(5))
  moreover have "thread_ok (threads s t)" for t by (simp add: assms(1) thread_ok_def Thread_Thread_def)
  ultimately show ?thesis using assms(9) by (simp add: kcore_def)
qed

lemma Initialize_ok:
  assumes "dev_ok d"
  shows "\<exists>s. Initialize randomYield v free ql sps d = Inr s \<and> kernel_ok s \<and> dev_ok (dev s)"
proof -
  let ?ks = "[SetLevelK IntOn, BodyK 0, FinishK]"
  define s where "s = (Interrupt_Interrupt \<lparr>stats = Statistics_Statistics, level = IntOff, pending = List_empty, inHandler = False, yieldOnReturn = False,
            int_status = SystemMode, machine = None, currentThread = 0,
            threads = (\<lambda>_. Thread_Thread\<lparr>th_status := DELETED\<rparr>)(0 := Thread_Thread\<lparr>th_status := RUNNING, th_stack := ?ks\<rparr>), readyList = List_empty,
            threadToBeDestroyed = None, semaphores = (\<lambda>x. Semaphore_Semaphore (int (v x))), locks = (\<lambda>l. Lock_Lock (free l)),
            conditions = (\<lambda>c. Condition_Condition (ql c)), spaces = sps, halted = False, \<dots> = d\<rparr>)"
  obtain r d1 where r: "Random d = (r, d1)" "dev_ok (d1\<lparr>dev_timer := t\<rparr>)" for t using assms by (force simp: Random_def dev_ok_def)
  define s' where "s' = (if randomYield then (set_dev (d1\<lparr>dev_timer := \<lparr>randomize = True\<rparr>\<rparr>) s)\<lparr>pending :=
      [(1 + int r mod 200, PendingInterrupt_PendingInterrupt TimerHandler 0 (1 + int r mod 200) TimerInt)]\<rparr> else s)"
  have pos: "0 < 1 + int r mod 200" by (intro add_pos_nonneg) simp_all
  have "Initialize randomYield v free ql sps d = Inr s'"
    using r(1) pos by (cases randomYield) (auto simp: Initialize_def s'_def s_def Interrupt_Interrupt_def Let_def set_dev_def Timer_Timer_def Timer_TimeOfNextInterrupt_def
        TimerTicks_def schedule_soon List_SortedInsert_def Statistics_Statistics_def List_empty_def)
  moreover have "kernel_ok s'"
  proof -
    have "kcore s'" by (rule boot_kcore [of _ ?ks])
        (simp_all add: s'_def s_def Interrupt_Interrupt_def set_dev_def List_empty_def Semaphore_Semaphore_def Lock_Lock_def Condition_Condition_def)
    moreover have "ksim s'" by (auto simp: ksim_def s'_def s_def Interrupt_Interrupt_def set_dev_def ints_ok_def user_load_ok_def Thread_Thread_def List_empty_def)
    ultimately show ?thesis by (simp add: kernel_ok_def) (simp add: s'_def s_def set_dev_def Interrupt_Interrupt_def)
  qed
  moreover have "dev_ok (dev s')" using r(2) assms by (simp add: s'_def s_def Interrupt_Interrupt_def set_dev_def)
  ultimately show ?thesis by blast
qed

lemma reachable_ok:
  assumes "reachable s" "\<not> halted s"
  shows "kernel_ok s" "dev_ok (dev s)"
proof -
  obtain ry v free ql sps d s0 where s0: "dev_ok d" "Initialize ry v free ql sps d = Inr s0" "nstep\<^sup>*\<^sup>* s0 s"
    using assms(1) by (auto simp: reachable_def)
  then have "nachos.kernel_inv s0" using Initialize_ok [OF s0(1), of ry v free ql sps] by (auto simp: nachos.kernel_inv_def)
  from nsteps_inv [OF s0(3) this] assms(2) show "kernel_ok s" "dev_ok (dev s)" by (auto simp: nachos.kernel_inv_def)
qed


section \<open>Concrete runs\<close>

text \<open>\<open>nscript n cs s\<close> runs at most \<open>n\<close> steps from \<open>s\<close>; the threads make the calls \<open>cs\<close>, in this order.\<close>

fun at_body :: "kcode list \<Rightarrow> bool" where
  "at_body (BodyK f # r) = True"
| "at_body _ = False"

datatype ncall = KCall kcall | DCall dcall

fun ncall_enter :: "ncall \<Rightarrow> nachos \<Rightarrow> nachos option" where
  "ncall_enter (KCall c) s = (if call_ok c s then (case kcall_enter c s of Inr s' \<Rightarrow> Some s' | Inl e \<Rightarrow> None) else None)"
| "ncall_enter (DCall c) s = (if dcall_ok c then (case dcall_enter c s of Inr s' \<Rightarrow> Some s' | Inl e \<Rightarrow> None) else None)"

fun nscript :: "nat \<Rightarrow> ncall list \<Rightarrow> nachos \<Rightarrow> nachos option" where
  "nscript 0 cs s = Some s"
| "nscript (Suc n) cs s =
     (if halted s then Some s
      else if at_body (th_stack (current s))
      then case cs of [] \<Rightarrow> Some s
        | c # cs' \<Rightarrow> (case ncall_enter c s of None \<Rightarrow> None | Some s' \<Rightarrow> nscript n cs' s')
      else case th_stack (current s) of [] \<Rightarrow> None
        | k # r \<Rightarrow> (case kexec callHandler k (pop s) of None \<Rightarrow> None | Some (Inl e) \<Rightarrow> None | Some (Inr s') \<Rightarrow> nscript n cs s'))"

definition no_devices :: Devices where
  "no_devices = \<lparr>dev_timer = \<lparr>randomize = False\<rparr>, dev_disk = \<lparr>disk_file = [], active = False, lastSector = 0, bufferInit = 0\<rparr>, disk_semaphore = 0,
     dev_console = \<lparr>putBusy = False, incoming = EOF, con_readAvail = 1, con_writeDone = 2, keyboard = [], display = []\<rparr>,
     dev_network = \<lparr>net_ident = 0, chanceToWork = 1, sendBusy = False, inHdr = \<lparr>pkt_to = 0, pkt_from = 0, pkt_length = 0\<rparr>, inbox = [],
       net_readAvail = 3, net_writeDone = 4, net_in = [], net_out = []\<rparr>, randoms = (\<lambda>_. 0), random_count = 0\<rparr>"

definition boot :: nachos where
  "boot = projr (Initialize False (\<lambda>_. 0) (\<lambda>_. True) (\<lambda>c. c) (\<lambda>_. \<lparr>as_pageTable = None, as_numPages = 0, as_valid = False, as_pcb = 0\<rparr>) no_devices)"


lemma ncall_step:
  assumes "ncall_enter c s = Some s'" "\<not> halted s" "th_stack (current s) = BodyK f # r"
  shows "nstep s s'"
  using assms by (cases c) (auto intro: nstep.device nstep.kernel kstep.call split: if_splits sum.splits)

lemma nscript_steps:
  assumes "nscript n cs s = Some s'"
  shows "nstep\<^sup>*\<^sup>* s s'"
  using assms
proof (induction n arbitrary: cs s)
  case (Suc n)
  consider (stop) "s' = s" | (call) f r c cs' s1 where "\<not> halted s" "th_stack (current s) = BodyK f # r" "ncall_enter c s = Some s1" "nscript n cs' s1 = Some s'"
    | (exec) k r s1 where "\<not> halted s" "th_stack (current s) = k # r" "kexec callHandler k (pop s) = Some (Inr s1)" "nscript n cs s1 = Some s'"
    using Suc.prems by (auto elim!: at_body.elims split: if_splits list.splits option.splits sum.splits)
  then show ?case
  proof cases
    case call
    then show ?thesis using ncall_step [OF call(3,1,2)] Suc.IH by (blast intro: converse_rtranclp_into_rtranclp)
  next
    case exec
    then show ?thesis using nstep.kernel [OF kstep.exec [OF exec(1-3)]] Suc.IH by (blast intro: converse_rtranclp_into_rtranclp)
  qed simp
qed simp

lemma boot_reachable: "reachable boot"
proof -
  have "dev_ok no_devices" by (simp add: dev_ok_def no_devices_def)
  moreover have "Initialize False (\<lambda>_. 0) (\<lambda>_. True) (\<lambda>c. c) (\<lambda>_. \<lparr>as_pageTable = None, as_numPages = 0, as_valid = False, as_pcb = 0\<rparr>) no_devices = Inr boot"
    by (simp add: boot_def Initialize_def Let_def)
  ultimately show ?thesis unfolding reachable_def by blast
qed

lemma reachable_nscript:
  assumes "reachable s" "nscript n cs s = Some s'"
  shows "reachable s'"
  using assms nscript_steps [OF assms(2)] unfolding reachable_def by (blast intro: rtranclp_trans)





section \<open>Properties\<close>







text \<open>
  C7. Locks give mutual exclusion: no step of any other thread, of an interrupt handler or of a device frees a lock that a thread
  holds, or gives it to another thread.
\<close>

theorem lock_ownership:
  assumes "reachable s" "nstep s s'" "\<not> lock_free (locks s l)" "activeThread (locks s l) = Some t" "currentThread s \<noteq> t"
  shows "\<not> lock_free (locks s' l) \<and> activeThread (locks s' l) = Some t"
proof -
  have "\<not> halted s" using assms(2) by (auto elim: nstep.cases kstep.cases)
  then have "lock_kept s s'" using nstep_sched assms(2) reachable_ok [OF assms(1)] by (simp add: nachos.kernel_inv_def)
  then show ?thesis using assms(3-5) by (auto simp: lock_kept_def)
qed

definition lock_holder :: nachos where
  "lock_holder = the (nscript 16 (map KCall [CallNew 1, CallFork 1 1, CallAcquire 3, CallYield]) boot)"

lemma lock_holder_eval:
  "case nscript 16 (map KCall [CallNew 1, CallFork 1 1, CallAcquire 3, CallYield]) boot of None \<Rightarrow> False
    | Some s \<Rightarrow> \<not> halted s \<and> currentThread s = 1 \<and> \<not> lock_free (locks s 3) \<and> activeThread (locks s 3) = Some 0 \<and> items (readyList s) = [0]
        \<and> at_body (th_stack (current s))"
  by code_simp

lemma lock_holder_run: "nscript 16 (map KCall [CallNew 1, CallFork 1 1, CallAcquire 3, CallYield]) boot = Some lock_holder"
  using lock_holder_eval by (auto simp: lock_holder_def simp del: nscript.simps split: option.splits)

lemma lock_holder_state:
  "\<not> halted lock_holder" "currentThread lock_holder = 1" "\<not> lock_free (locks lock_holder 3)" "activeThread (locks lock_holder 3) = Some 0"
  "items (readyList lock_holder) = [0]" "at_body (th_stack (current lock_holder))" "reachable lock_holder"
  using lock_holder_eval reachable_nscript [OF boot_reachable lock_holder_run] unfolding lock_holder_run option.case by blast+

lemma lock_holder_step: "nstep lock_holder (Lock_Release 3 True lock_holder)"
proof -
  obtain f r where "th_stack (current lock_holder) = BodyK f # r" using lock_holder_state(6) by (auto elim: at_body.elims)
  then show ?thesis using lock_holder_state(1) by (auto intro!: nstep.kernel kstep.call [where c = "CallRelease 3 True"])
qed

theorem lock_ownership_witness: "\<not> lock_free (locks (Lock_Release 3 True lock_holder) 3)"
  using lock_ownership [OF lock_holder_state(7) lock_holder_step lock_holder_state(3,4)] lock_holder_state(2) by simp










end
