(* ===== verification/Nachos_Process.thy ===== *)
theory Nachos_Process
  imports Nachos_Concurrency Nachos_MIPS
begin

text \<open>
  Processes: \<^verbatim>\<open>userprog/pcb.cc\<close>, \<^verbatim>\<open>userprog/pcbmanager.cc\<close>, \<^verbatim>\<open>userprog/exception.cc\<close>, the start of a program in
  \<^verbatim>\<open>userprog/progtest.cc\<close>, the constructor of \<^verbatim>\<open>userprog/addrspace.cc\<close> that makes a new process, and the main loop of
  \<^verbatim>\<open>machine/mipssim.cc\<close>. The state \<open>sys\<close> is the kernel of \<open>Nachos_Concurrency\<close>, as one field, with what the user
  programs need: physical memory, the table of processes, and the files of the host, on which the stub of the file system works.

  Objects are named by numbers, for their addresses. The addresses of new objects are arguments of the operations that allocate. The
  code reads objects that it has deleted, for example the address space of an exited thread in \<open>Scheduler::Run\<close>; such a read
  sees what the object held last, as long as its memory is not used again. A second \<^verbatim>\<open>delete\<close>, or setting the status of a deleted
  thread, is the error \<open>UseAfterFree\<close>.

  The locks \<^verbatim>\<open>mmLock\<close> and \<^verbatim>\<open>pcbManagerLock\<close> guard code that does not give up the processor; such code is one
  operation here. The messages that the system calls print are left out. A thread that calls \<open>Yield\<close> or \<open>Fork\<close> inside a system
  call has its point of return in \<open>resumes\<close>. \<open>Finish\<close> is modelled by the return from the thread's body, whose next routine it is.
\<close>

section \<open>State\<close>

record PCB =
  pcb_pid :: int
  parent :: "nat option"
  pcb_thread :: "nat option"
  exitStatus :: int
  children :: "nat nlist"

record PCBManager =
  pm_bitmap :: BitMap
  pcbs :: "nat option list"
  pm_count :: nat

datatype resume = ChildStart | ForkDone int | JoinLoop nat | YieldDone

record sys =
  kern :: nachos
  sys_mm :: MemoryManager
  pcbManager :: PCBManager
  pcb_heap :: "nat \<Rightarrow> PCB"
  pcb_live :: "nat \<Rightarrow> bool"
  space_live :: "nat \<Rightarrow> bool"
  host_files :: "byte list \<Rightarrow> byte list option"
  host_writable :: "byte list \<Rightarrow> bool"
  resumes :: "nat \<Rightarrow> resume option"

abbreviation self :: "sys \<Rightarrow> nat" where "self y \<equiv> currentThread (kern y)"
abbreviation thread_of :: "nat \<Rightarrow> sys \<Rightarrow> Thread" where "thread_of t y \<equiv> threads (kern y) t"
abbreviation space_of :: "nat \<Rightarrow> sys \<Rightarrow> AddrSpace" where "space_of sp y \<equiv> spaces (kern y) sp"

definition set_kern :: "nachos \<Rightarrow> sys \<Rightarrow> sys" where
  "set_kern s y = y\<lparr>kern := s\<rparr>"

definition set_space :: "nat \<Rightarrow> AddrSpace \<Rightarrow> sys \<Rightarrow> sys" where
  "set_space sp x y = set_kern ((kern y)\<lparr>spaces := (spaces (kern y))(sp := x)\<rparr>) y"

definition set_thread_space :: "nat \<Rightarrow> nat option \<Rightarrow> sys \<Rightarrow> sys" where
  "set_thread_space t sp y = set_kern (set_thread t ((thread_of t y)\<lparr>th_space := sp\<rparr>) (kern y)) y"

definition set_pcb :: "nat \<Rightarrow> PCB \<Rightarrow> sys \<Rightarrow> sys" where
  "set_pcb p x y = y\<lparr>pcb_heap := (pcb_heap y)(p := x)\<rparr>"

definition set_machine :: "Machine \<Rightarrow> sys \<Rightarrow> sys" where
  "set_machine m y = set_kern ((kern y)\<lparr>machine := Some m\<rparr>) y"

definition with_machine :: "(Machine \<Rightarrow> 'b result) \<Rightarrow> sys \<Rightarrow> 'b result" where
  "with_machine f y = (case machine (kern y) of None \<Rightarrow> Inl OutOfBounds | Some m \<Rightarrow> f m)"

definition set_resume :: "resume option \<Rightarrow> sys \<Rightarrow> sys" where
  "set_resume r y = y\<lparr>resumes := (resumes y)(self y := r)\<rparr>"

text \<open>\<open>currentThread->space\<close>, which the system calls use without a test for NULL.\<close>

definition with_space :: "(nat \<Rightarrow> 'b result) \<Rightarrow> sys \<Rightarrow> 'b result" where
  "with_space f y = (case th_space (current (kern y)) of None \<Rightarrow> Inl OutOfBounds | Some sp \<Rightarrow> f sp)"

section \<open>Process control blocks\<close>

definition PCB_PCB :: "int \<Rightarrow> PCB" where
  "PCB_PCB i = \<lparr>pcb_pid = i, parent = None, pcb_thread = None, exitStatus = -9999, children = List_empty\<rparr>"

definition PCB_HasExited :: "PCB \<Rightarrow> bool" where
  "PCB_HasExited x \<longleftrightarrow> \<not> exitStatus x = -9999"

definition PCB_AddChild :: "nat \<Rightarrow> nat \<Rightarrow> sys \<Rightarrow> sys" where
  "PCB_AddChild p c y = set_pcb p ((pcb_heap y p)\<lparr>children := List_Append c (children (pcb_heap y p))\<rparr>) y"

definition PCB_RemoveChild :: "nat \<Rightarrow> nat \<Rightarrow> sys \<Rightarrow> int \<times> sys" where
  "PCB_RemoveChild p c y = (case List_RemoveItem c (children (pcb_heap y p)) of (r, rest) \<Rightarrow>
     (r, set_pcb p ((pcb_heap y p)\<lparr>children := rest\<rparr>) y))"

definition delete_space :: "nat \<Rightarrow> sys \<Rightarrow> sys result" where
  "delete_space sp y = (if \<not> space_live y sp then Inl UseAfterFree
     else rbind (AddrSpace_destroy (space_of sp y) (sys_mm y)) (\<lambda>(x, mm).
       Inr (set_space sp x (y\<lparr>sys_mm := mm, space_live := (space_live y)(sp := False)\<rparr>))))"

definition remove_thread :: "nat option \<Rightarrow> sys \<Rightarrow> sys" where
  "remove_thread t y = (case t of None \<Rightarrow> y | Some t \<Rightarrow> set_kern (snd (Scheduler_RemoveThread t (kern y))) y)"

definition PCB_destroy :: "nat \<Rightarrow> sys \<Rightarrow> sys result" where
  "PCB_destroy p y = (if \<not> pcb_live y p then Inl UseAfterFree else
     let y = set_pcb p ((pcb_heap y p)\<lparr>children := List_empty\<rparr>) (y\<lparr>pcb_live := (pcb_live y)(p := False)\<rparr>) in
     case pcb_thread (pcb_heap y p) of None \<Rightarrow> Inr y
     | Some t \<Rightarrow> if t = self y then Inr y else
         rbind (case th_space (thread_of t y) of None \<Rightarrow> Inr y
           | Some sp \<Rightarrow> rbind (if AddrSpace_GetPageTable (space_of sp y) \<noteq> None then delete_space sp y else Inr y)
               (\<lambda>y1. Inr (set_thread_space t None y1)))
         (\<lambda>y2. let y3 = remove_thread (Some t) y2 in Inr (set_pcb p ((pcb_heap y3 p)\<lparr>pcb_thread := None\<rparr>) y3)))"

section \<open>The table of processes\<close>

definition PCBManager_PCBManager :: "32 word list \<Rightarrow> nat \<Rightarrow> PCBManager result" where
  "PCBManager_PCBManager fresh maxProcesses = rbind (BitMap_BitMap fresh maxProcesses) (\<lambda>bm.
     Inr \<lparr>pm_bitmap = bm, pcbs = replicate maxProcesses None, pm_count = maxProcesses\<rparr>)"

text \<open>\<open>p\<close> is the address of the new block.\<close>

definition PCBManager_AllocatePCB :: "nat \<Rightarrow> sys \<Rightarrow> (int \<times> sys) result" where
  "PCBManager_AllocatePCB p y = rbind (BitMap_Find (pm_bitmap (pcbManager y))) (\<lambda>(pid, bm). ASSERT (pid \<noteq> -1)
     (Inr (pid, set_pcb p (PCB_PCB pid) (y\<lparr>pcb_live := (pcb_live y)(p := True),
        pcbManager := (pcbManager y)\<lparr>pm_bitmap := bm, pcbs := (pcbs (pcbManager y))[nat pid := Some p]\<rparr>\<rparr>))))"

definition PCBManager_DeallocatePCB :: "nat \<Rightarrow> sys \<Rightarrow> (int \<times> sys) result" where
  "PCBManager_DeallocatePCB p y = (let pid = pcb_pid (pcb_heap y p) in
     if pid < 0 \<or> pid > int (BitMap_NumItems (pm_bitmap (pcbManager y))) then Inr (-1, y)
     else rbind (BitMap_Clear (pm_bitmap (pcbManager y)) pid) (\<lambda>bm.
       rbind (PCB_destroy p (y\<lparr>pcbManager := (pcbManager y)\<lparr>pm_bitmap := bm\<rparr>\<rparr>)) (\<lambda>y1.
       Inr (0, y1\<lparr>pcbManager := (pcbManager y1)\<lparr>pcbs := (pcbs (pcbManager y1))[nat pid := None]\<rparr>\<rparr>))))"

definition PCBManager_GetPCB :: "int \<Rightarrow> sys \<Rightarrow> (nat option) result" where
  "PCBManager_GetPCB pid y = (if pid < 0 \<or> pid \<ge> int (length (pcbs (pcbManager y))) then Inl OutOfBounds
     else Inr (pcbs (pcbManager y) ! nat pid))"

definition PCBManager_GetLastPCB :: "sys \<Rightarrow> nat option" where
  "PCBManager_GetLastPCB y = foldl (\<lambda>last x. if x \<noteq> None then x else last) None (take (pm_count (pcbManager y)) (pcbs (pcbManager y)))"

definition decspn :: "nat \<Rightarrow> sys \<Rightarrow> sys result" where
  "decspn p y = (if PCB_HasExited (pcb_heap y p) then rbind (PCBManager_DeallocatePCB p y) (\<lambda>(r, y1). Inr y1)
     else Inr (set_pcb p ((pcb_heap y p)\<lparr>parent := None\<rparr>) y))"

text \<open>\<open>Mapcar\<close> with \<open>decspn\<close>, which does not change the list.\<close>

fun Mapcar_decspn :: "nat list \<Rightarrow> sys \<Rightarrow> sys result" where
  "Mapcar_decspn [] y = Inr y"
| "Mapcar_decspn (c # cs) y = rbind (decspn c y) (Mapcar_decspn cs)"

definition PCB_DeleteExitedChildrenSetParentNull :: "nat \<Rightarrow> sys \<Rightarrow> sys result" where
  "PCB_DeleteExitedChildrenSetParentNull p y = Mapcar_decspn (items (children (pcb_heap y p))) y"

section \<open>Files of the host\<close>

text \<open>The stub versions of \<^verbatim>\<open>OpenFile::ReadAt\<close>, \<^verbatim>\<open>FileSystem::Create\<close> and \<^verbatim>\<open>FileSystem::Open\<close>. Whether the host lets a file be created is its own matter.\<close>

definition stub_ReadAt :: "byte list \<Rightarrow> reader" where
  "stub_ReadAt f n position = ASSERT (position \<ge> 0) (Inr (take (nat n) (drop (nat position) f)))"

definition stub_Create :: "byte list \<Rightarrow> sys \<Rightarrow> sys result" where
  "stub_Create name y = ASSERT (host_writable y name) (Inr (y\<lparr>host_files := (host_files y)(name := Some [])\<rparr>))"

definition stub_Open :: "byte list \<Rightarrow> sys \<Rightarrow> byte list option" where
  "stub_Open name y = host_files y name"

section \<open>Address spaces of processes\<close>

text \<open>
  What the allocator hands out for the objects of one system call: addresses for a thread, an address space and a process control block,
  and the old contents of the memory.
\<close>

record alloc =
  new_thread :: nat
  new_space :: nat
  new_pcb :: nat
  old_space :: AddrSpace
  old_header :: "byte list"

definition new_AddrSpace :: "nat \<Rightarrow> AddrSpace \<Rightarrow> MemoryManager \<Rightarrow> Machine \<Rightarrow> sys \<Rightarrow> sys" where
  "new_AddrSpace sp x mm m y = set_machine m (set_space sp x (y\<lparr>sys_mm := mm, space_live := (space_live y)(sp := True)\<rparr>))"

text \<open>\<^verbatim>\<open>AddrSpace(OpenFile*)\<close>: the constructor that makes the process as well.\<close>

definition AddrSpace_AddrSpace :: "alloc \<Rightarrow> byte list \<Rightarrow> sys \<Rightarrow> sys result" where
  "AddrSpace_AddrSpace a f y = with_machine (\<lambda>m.
     rbind (load_check (hostBigEndian m) (old_header a) (stub_ReadAt f) (sys_mm y) (old_space a)) (\<lambda>(x, h). case h of
       None \<Rightarrow> Inr (new_AddrSpace (new_space a) x (sys_mm y) m y)
     | Some noffH \<Rightarrow> rbind (PCBManager_AllocatePCB (new_pcb a) y) (\<lambda>(pid, y1).
         let y2 = set_pcb (new_pcb a) ((pcb_heap y1 (new_pcb a))\<lparr>pcb_thread := Some (self y1)\<rparr>) y1 in
         rbind (load_space (stub_ReadAt f) noffH (x\<lparr>as_pcb := new_pcb a\<rparr>) (sys_mm y2) (mainMemory m)) (\<lambda>(x', mm, mem).
           Inr (new_AddrSpace (new_space a) x' mm (m\<lparr>mainMemory := mem\<rparr>) y2))))) y"

definition restore_space :: "nat \<Rightarrow> sys \<Rightarrow> sys result" where
  "restore_space sp y = with_machine (\<lambda>m. Inr (set_machine (AddrSpace_RestoreState (space_of sp y) m) y)) y"

definition init_registers :: "nat \<Rightarrow> sys \<Rightarrow> sys result" where
  "init_registers sp y = with_machine (\<lambda>m. rbind (AddrSpace_InitRegisters (space_of sp y) m) (\<lambda>m1. Inr (set_machine m1 y))) y"

text \<open>\<open>Machine::Run\<close> starts to execute user instructions.\<close>

definition Machine_Run :: "sys \<Rightarrow> sys" where
  "Machine_Run y = set_kern ((kern y)\<lparr>int_status := UserMode\<rparr>) y"

text \<open>\<open>StartProcess\<close> runs the program, or returns when there is no such file. It does not look at \<open>valid\<close>.\<close>

definition StartProcess :: "alloc \<Rightarrow> byte list \<Rightarrow> sys \<Rightarrow> sys result" where
  "StartProcess a filename y = (case stub_Open filename y of None \<Rightarrow> Inr y
     | Some f \<Rightarrow> rbind (AddrSpace_AddrSpace a f y) (\<lambda>y1.
         let y2 = set_thread_space (self y1) (Some (new_space a)) y1 in
         rbind (init_registers (new_space a) y2) (\<lambda>y3. rbind (restore_space (new_space a) y3) (\<lambda>y4. Inr (Machine_Run y4)))))"

section \<open>System calls\<close>

definition SC_Halt :: "32 word" where "SC_Halt = 0"
definition SC_Exit :: "32 word" where "SC_Exit = 1"
definition SC_Exec :: "32 word" where "SC_Exec = 2"
definition SC_Join :: "32 word" where "SC_Join = 3"
definition SC_Create :: "32 word" where "SC_Create = 4"
definition SC_Fork :: "32 word" where "SC_Fork = 9"
definition SC_Yield :: "32 word" where "SC_Yield = 10"
definition SC_Kill :: "32 word" where "SC_Kill = 11"

definition incrementPC :: "sys \<Rightarrow> sys result" where
  "incrementPC y = with_machine (\<lambda>m.
     rbind (Machine_ReadRegister m (int PCReg)) (\<lambda>oldPCReg.
     rbind (Machine_WriteRegister m (int PrevPCReg) oldPCReg) (\<lambda>m.
     rbind (Machine_WriteRegister m (int PCReg) (oldPCReg + 4)) (\<lambda>m.
     rbind (Machine_WriteRegister m (int NextPCReg) (oldPCReg + 8)) (\<lambda>m. Inr (set_machine m y)))))) y"

definition write_result :: "int \<Rightarrow> sys \<Rightarrow> sys result" where
  "write_result r y = with_machine (\<lambda>m. rbind (Machine_WriteRegister m 2 (of_int r)) (\<lambda>m. Inr (set_machine m y))) y"

text \<open>The return of a call that has a result.\<close>

definition return_value :: "int \<times> sys \<Rightarrow> sys result" where
  "return_value r = rbind (write_result (fst r) (snd r)) incrementPC"

text \<open>\<open>doExit\<close> does not return, except when the space is gone already.\<close>

definition doExit :: "int \<Rightarrow> sys \<Rightarrow> (bool \<times> sys) result" where
  "doExit status y = with_space (\<lambda>sp.
     if AddrSpace_GetPageTable (space_of sp y) = None then Inr (True, y) else
     let p = as_pcb (space_of sp y);
         y1 = set_pcb p ((pcb_heap y p)\<lparr>exitStatus := status\<rparr>) y;
         y2 = remove_thread (pcb_thread (pcb_heap y1 p)) y1
     in rbind (PCB_DeleteExitedChildrenSetParentNull p y2) (\<lambda>y3.
        rbind (if parent (pcb_heap y3 p) = None then rbind (PCBManager_DeallocatePCB p y3) (\<lambda>(r, y4). Inr y4) else Inr y3) (\<lambda>y4.
        rbind (delete_space sp y4) (\<lambda>y5.
          Inr (False, set_kern (pop (kern y5)) y5))))) y"

definition childFunction :: "sys \<Rightarrow> sys result" where
  "childFunction y = rbind (Thread_RestoreUserState (self y) (kern y)) (\<lambda>s.
     let y1 = set_kern s y in with_space (\<lambda>sp. rbind (restore_space sp y1) (\<lambda>y2. Inr (Machine_Run y2))) y1)"

text \<open>The registers with which the child starts.\<close>

definition child_registers :: "32 word \<Rightarrow> Machine \<Rightarrow> Machine result" where
  "child_registers functionAddr m =
     rbind (Machine_WriteRegister m (int PCReg) functionAddr) (\<lambda>m.
     rbind (Machine_WriteRegister m (int PrevPCReg) (functionAddr - 4)) (\<lambda>m.
       Machine_WriteRegister m (int NextPCReg) (functionAddr + 4)))"

definition doFork :: "alloc \<Rightarrow> 32 word \<Rightarrow> sys \<Rightarrow> (int \<times> sys) result" where
  "doFork a functionAddr y = with_space (\<lambda>sp.
     rbind (MemoryManager_GetFreePageCount (sys_mm y)) (\<lambda>free.
     if int (AddrSpace_GetNumPages (space_of sp y)) > free then Inr (-1, y) else
     rbind (PCBManager_AllocatePCB (new_pcb a) y) (\<lambda>(pid, y1).
     rbind (Thread_SaveUserState (self y1) (kern y1)) (\<lambda>s2. let y2 = set_kern s2 y1 in
     with_machine (\<lambda>m.
       rbind (AddrSpace_AddrSpace_copy (space_of sp y2) (old_space a) (sys_mm y2) m) (\<lambda>(x, mm, m1).
       let y3 = new_AddrSpace (new_space a) x mm m1 y2 in
       if \<not> as_valid x then Inr (-1, y3) else
       let t = new_thread a;
           p = as_pcb (space_of sp y3);
           y4 = set_kern (set_thread t (Thread_Thread\<lparr>th_space := Some (new_space a)\<rparr>) (kern y3)) y3;
           y5 = set_pcb (new_pcb a) ((pcb_heap y4 (new_pcb a))\<lparr>pcb_thread := Some t\<rparr>) y4;
           y6 = set_space (new_space a) ((space_of (new_space a) y5)\<lparr>as_pcb := new_pcb a\<rparr>) y5;
           y7 = set_pcb (new_pcb a) ((pcb_heap y6 (new_pcb a))\<lparr>parent := Some p\<rparr>) y6;
           y8 = PCB_AddChild p (new_pcb a) y7
       in rbind (child_registers functionAddr m1) (\<lambda>m2.
          rbind (Thread_SaveUserState t (kern (set_machine m2 y8))) (\<lambda>s9.
          rbind (Thread_RestoreUserState (self y8) s9) (\<lambda>s10.
            let y11 = set_kern (Thread_Fork t pid s10) y8
            in Inr (pid, y11\<lparr>resumes := (resumes y11)(t := Some ChildStart)\<rparr>)))))) y2)))) y"

definition doExec :: "alloc \<Rightarrow> byte list \<Rightarrow> sys \<Rightarrow> (int \<times> sys) result" where
  "doExec a filename y = (case stub_Open filename y of None \<Rightarrow> Inr (-1, y)
   | Some f \<Rightarrow> (case th_space (current (kern y)) of None \<Rightarrow> Inr (-1, y)
     | Some sp \<Rightarrow> let p = as_pcb (space_of sp y) in
         rbind (delete_space sp y) (\<lambda>y1. let y2 = set_thread_space (self y1) None y1 in
         with_machine (\<lambda>m.
           rbind (AddrSpace_AddrSpace_pcb (old_header a) (stub_ReadAt f) p (old_space a) (sys_mm y2) m) (\<lambda>(x, mm, m1).
           let y3 = new_AddrSpace (new_space a) x mm m1 y2 in
           if \<not> as_valid x then Inr (-1, y3) else
           let y4 = set_thread_space (self y3) (Some (new_space a)) y3 in
           rbind (init_registers (new_space a) y4) (\<lambda>y5.
           rbind (restore_space (new_space a) y5) (\<lambda>y6. Inr (pcb_pid (pcb_heap y6 p), y6))))) y2)))"

text \<open>\<open>doJoin\<close> up to its loop is a result or the block of the child; then one round of the loop.\<close>

definition doJoin :: "int \<Rightarrow> sys \<Rightarrow> (int + nat) result" where
  "doJoin pid y = rbind (PCBManager_GetPCB pid y) (\<lambda>joinPCB. with_space (\<lambda>sp. case joinPCB of None \<Rightarrow> Inr (Inl (-1))
     | Some j \<Rightarrow> if Some (as_pcb (space_of sp y)) \<noteq> parent (pcb_heap y j) then Inr (Inl (-1)) else Inr (Inr j)) y)"

definition yield_call :: "resume \<Rightarrow> sys \<Rightarrow> sys" where
  "yield_call r y = set_resume (Some r) (set_kern (push [YieldK] (kern y)) y)"

definition doJoin_loop :: "nat \<Rightarrow> sys \<Rightarrow> (int option \<times> sys) result" where
  "doJoin_loop j y = (if \<not> PCB_HasExited (pcb_heap y j) then Inr (None, yield_call (JoinLoop j) y)
     else let status = exitStatus (pcb_heap y j) in rbind (PCB_destroy j y) (\<lambda>y1. Inr (Some status, y1)))"

definition doKill :: "int \<Rightarrow> sys \<Rightarrow> (int option \<times> sys) result" where
  "doKill pid y = rbind (PCBManager_GetPCB pid y) (\<lambda>pcb. case pcb of None \<Rightarrow> Inr (Some (-1), y)
     | Some p \<Rightarrow> with_space (\<lambda>sp.
       if p = as_pcb (space_of sp y) then rbind (doExit 0 y) (\<lambda>(returned, y1). ASSERT (\<not> returned) (Inr (None, y1))) else
       let y1 = remove_thread (pcb_thread (pcb_heap y p)) y;
           y2 = (case parent (pcb_heap y1 p) of None \<Rightarrow> y1 | Some pp \<Rightarrow> snd (PCB_RemoveChild pp p y1))
       in rbind (PCB_DeleteExitedChildrenSetParentNull p y2) (\<lambda>y3.
          case pcb_thread (pcb_heap y3 p) of None \<Rightarrow> Inl OutOfBounds
          | Some t \<Rightarrow> if th_status (thread_of t y3) = DELETED then Inl UseAfterFree
              else Inr (Some 0, set_kern (Thread_setStatus t BLOCKED (kern y3)) y3))) y)"

text \<open>The characters up to the terminating zero, 255 at most; \<open>k\<close> is the room left in the buffer.\<close>

definition user_char :: "32 word \<Rightarrow> sys \<Rightarrow> byte result" where
  "user_char va y = with_space (\<lambda>sp. with_machine (\<lambda>m. case as_pageTable (space_of sp y) of None \<Rightarrow> Inl OutOfBounds
     | Some pt \<Rightarrow> rbind (AddrSpace_Translate pt va) (\<lambda>pa.
         if unat pa < MemorySize then Inr (mainMemory m (unat pa)) else Inl OutOfBounds)) y) y"

fun readString_from :: "nat \<Rightarrow> 32 word \<Rightarrow> sys \<Rightarrow> (byte list) result" where
  "readString_from 0 va y = rbind (user_char va y) (\<lambda>c. Inr [])"
| "readString_from (Suc k) va y = rbind (user_char va y) (\<lambda>c.
     if c = 0 then Inr [] else rbind (readString_from k (va + 1) y) (\<lambda>cs. Inr (c # cs)))"

definition readString :: "32 word \<Rightarrow> sys \<Rightarrow> (byte list) result" where
  "readString virtualAddr y = readString_from 255 virtualAddr y"

text \<open>The thread goes on with user instructions after \<open>OneTick\<close>.\<close>

definition back_to_user :: "sys \<Rightarrow> sys" where
  "back_to_user y = set_kern (push [TickK] ((kern y)\<lparr>int_status := UserMode\<rparr>)) y"

definition finish_call :: "sys result \<Rightarrow> sys result" where
  "finish_call r = rbind r (\<lambda>y. Inr (back_to_user y))"

definition join_round :: "nat \<Rightarrow> sys \<Rightarrow> sys result" where
  "join_round j y = rbind (doJoin_loop j y) (\<lambda>(r, y1). case r of None \<Rightarrow> Inr y1
     | Some status \<Rightarrow> finish_call (return_value (status, y1)))"

definition ExceptionHandler :: "alloc \<Rightarrow> ExceptionType \<Rightarrow> sys \<Rightarrow> sys result" where
  "ExceptionHandler a which y = with_machine (\<lambda>m.
     rbind (Machine_ReadRegister m 2) (\<lambda>type. rbind (Machine_ReadRegister m 4) (\<lambda>arg.
     if which \<noteq> SyscallException then Inl Assertion
     else if type = SC_Halt then Inr (set_kern ((kern y)\<lparr>halted := True\<rparr>) y)
     else if type = SC_Exit then rbind (doExit (sint arg) y) (\<lambda>(returned, y1).
       Inr (if returned then back_to_user y1 else y1))
     else if type = SC_Fork then rbind (doFork a arg y) (\<lambda>(r, y1). Inr (set_resume (Some (ForkDone r)) y1))
     else if type = SC_Exec then rbind (readString arg y) (\<lambda>fileName. rbind (doExec a fileName y) (\<lambda>(r, y1).
       rbind (incrementPC y1) (\<lambda>y2. Inr (Machine_Run y2))))
     else if type = SC_Join then rbind (doJoin (sint arg) y) (\<lambda>r. case r of
         Inl v \<Rightarrow> finish_call (return_value (v, y))
       | Inr j \<Rightarrow> join_round j y)
     else if type = SC_Kill then rbind (doKill (sint arg) y) (\<lambda>(r, y1). case r of None \<Rightarrow> Inr y1
       | Some v \<Rightarrow> finish_call (return_value (v, y1)))
     else if type = SC_Yield then with_space (\<lambda>sp. Inr (yield_call YieldDone y)) y
     else if type = SC_Create then rbind (readString arg y) (\<lambda>fileName. finish_call (rbind (stub_Create fileName y) incrementPC))
     else Inl Assertion))) y"

section \<open>Steps\<close>

text \<open>The bits that the translation sets in the machine's page table are set in the address space, whose array it is.\<close>

definition write_through :: "Machine \<Rightarrow> sys \<Rightarrow> sys" where
  "write_through m y = set_machine m (case th_space (current (kern y)) of None \<Rightarrow> y
     | Some sp \<Rightarrow> if as_pageTable (space_of sp y) = None then y else set_space sp ((space_of sp y)\<lparr>as_pageTable := pageTable m\<rparr>) y)"

definition user_step :: "alloc \<Rightarrow> sys \<Rightarrow> sys result" where
  "user_step a y = with_machine (\<lambda>m. rbind (Machine_OneInstruction m) (\<lambda>oc. case oc of
       Returned m1 \<Rightarrow> Inr (set_kern (push [TickK] (kern (write_through m1 y))) (write_through m1 y))
     | Trapped which m1 \<Rightarrow> let y1 = write_through m1 y in
         ExceptionHandler a which (set_kern ((kern y1)\<lparr>int_status := SystemMode\<rparr>) y1))) y"

definition resume_step :: "resume \<Rightarrow> sys \<Rightarrow> sys result" where
  "resume_step r y = (case r of ChildStart \<Rightarrow> childFunction y | ForkDone v \<Rightarrow> finish_call (return_value (v, y))
   | JoinLoop j \<Rightarrow> join_round j y | YieldDone \<Rightarrow> finish_call (incrementPC y))"

text \<open>The allocator hands out memory that is not in use. The steps are given with what is known of the allocator.\<close>

definition alloc_ok :: "alloc \<Rightarrow> sys \<Rightarrow> bool" where
  "alloc_ok a y \<longleftrightarrow> th_status (thread_of (new_thread a) y) = DELETED \<and> \<not> space_live y (new_space a) \<and> \<not> pcb_live y (new_pcb a)
     \<and> length (old_header a) = sizeof_NoffHeader"

inductive ystep :: "(alloc \<Rightarrow> sys \<Rightarrow> bool) \<Rightarrow> sys \<Rightarrow> sys \<Rightarrow> bool" for allocator where
  exec: "\<not> halted (kern y) \<Longrightarrow> th_stack (current (kern y)) = k # r \<Longrightarrow> kexec callHandler k (pop (kern y)) = Some (Inr s)
    \<Longrightarrow> ystep allocator y (set_kern s y)"
| user: "\<not> halted (kern y) \<Longrightarrow> at_body (th_stack (current (kern y))) \<Longrightarrow> resumes y (self y) = None \<Longrightarrow> int_status (kern y) = UserMode
    \<Longrightarrow> allocator a y \<Longrightarrow> user_step a y = Inr y' \<Longrightarrow> ystep allocator y y'"
| resume: "\<not> halted (kern y) \<Longrightarrow> at_body (th_stack (current (kern y))) \<Longrightarrow> resumes y (self y) = Some r
    \<Longrightarrow> resume_step r (set_resume None y) = Inr y' \<Longrightarrow> ystep allocator y y'"
| start: "\<not> halted (kern y) \<Longrightarrow> at_body (th_stack (current (kern y))) \<Longrightarrow> resumes y (self y) = None \<Longrightarrow> int_status (kern y) \<noteq> UserMode
    \<Longrightarrow> th_space (current (kern y)) = None \<Longrightarrow> allocator a y \<Longrightarrow> StartProcess a filename y = Inr y' \<Longrightarrow> ystep allocator y y'"

end
