(* ===== verification/Nachos_Isolation.thy ===== *)
theory Nachos_Isolation
  imports Nachos_Process
begin

text \<open>
  Memory isolation of processes: what the kernel's routines, the system calls and the user instructions of \<open>Nachos_Process\<close> do to physical
  memory, page tables and the page table of the machine, and the invariant \<open>isolated\<close> that they keep.
\<close>

section \<open>What the kernel leaves alone\<close>

text \<open>A pending load names a general register, and register 0 is zero.\<close>

definition regs_ok :: "(nat \<Rightarrow> 32 word) \<Rightarrow> bool" where
  "regs_ok r \<longleftrightarrow> unat (r LoadReg) < 32 \<and> r 0 = 0"

definition machine_ok :: "Machine option \<Rightarrow> bool" where
  "machine_ok a \<longleftrightarrow> (case a of None \<Rightarrow> True | Some m \<Rightarrow> tlb m = None \<and> regs_ok (registers m))"

definition machine_kept :: "Machine option \<Rightarrow> Machine option \<Rightarrow> bool" where
  "machine_kept a b \<longleftrightarrow> same_memory a b \<and> (machine_ok a \<longrightarrow> machine_ok b)"

lemma machine_kept_refl [simp]: "machine_kept a a"
  by (simp add: machine_kept_def)

lemma machine_kept_trans: "machine_kept a b \<Longrightarrow> machine_kept b c \<Longrightarrow> machine_kept a c"
  unfolding machine_kept_def using same_memory_trans by blast

definition undisturbed :: "nachos \<Rightarrow> nachos \<Rightarrow> bool" where
  "undisturbed s s' \<longleftrightarrow> kept s s' \<and> machine_kept (machine s) (machine s')"

lemma undisturbed_refl [simp]: "undisturbed s s"
  by (simp add: undisturbed_def kept_refl)

lemma undisturbed_trans: "undisturbed s s1 \<Longrightarrow> undisturbed s1 s2 \<Longrightarrow> undisturbed s s2"
  unfolding undisturbed_def using kept_trans machine_kept_trans by blast

lemma undisturbed_sim [simp]:
  "undisturbed s (s'\<lparr>pending := p\<rparr>) \<longleftrightarrow> undisturbed s s'" "undisturbed s (s'\<lparr>stats := st\<rparr>) \<longleftrightarrow> undisturbed s s'"
  "undisturbed s (s'\<lparr>level := l\<rparr>) \<longleftrightarrow> undisturbed s s'" "undisturbed s (s'\<lparr>inHandler := b\<rparr>) \<longleftrightarrow> undisturbed s s'"
  "undisturbed s (s'\<lparr>int_status := i\<rparr>) \<longleftrightarrow> undisturbed s s'" "undisturbed s (s'\<lparr>yieldOnReturn := b\<rparr>) \<longleftrightarrow> undisturbed s s'"
  "undisturbed (s\<lparr>pending := p\<rparr>) s' \<longleftrightarrow> undisturbed s s'" "undisturbed (s\<lparr>stats := st\<rparr>) s' \<longleftrightarrow> undisturbed s s'"
  "undisturbed (s\<lparr>level := l\<rparr>) s' \<longleftrightarrow> undisturbed s s'" "undisturbed (s\<lparr>inHandler := b\<rparr>) s' \<longleftrightarrow> undisturbed s s'"
  "undisturbed (s\<lparr>int_status := i\<rparr>) s' \<longleftrightarrow> undisturbed s s'" "undisturbed (s\<lparr>yieldOnReturn := b\<rparr>) s' \<longleftrightarrow> undisturbed s s'"
  "undisturbed s (set_dev d s') \<longleftrightarrow> undisturbed s s'"
  by (simp_all add: undisturbed_def kept_def set_dev_def)

lemma undisturbed_V_body: "undisturbed s s' \<Longrightarrow> undisturbed s (V_body x s')"
proof -
  assume a: "undisturbed s s'"
  have "machine (V_body x s') = machine s'"
    by (auto simp: V_body_def Scheduler_ReadyToRun_def Thread_setStatus_def set_thread_def set_sem_def Let_def split: option.splits prod.splits)
  moreover have "kept s (V_body x s')" using a kept_trans kept_V_body unfolding undisturbed_def by blast
  ultimately show ?thesis using a by (simp add: undisturbed_def)
qed

lemma Schedule_undisturbed: "Interrupt_Schedule h a t k s = Inr s' \<Longrightarrow> undisturbed s0 s \<Longrightarrow> undisturbed s0 s'"
  by (auto simp: Interrupt_Schedule_def Let_def ASSERT_def split: if_splits)

lemma callHandler_undisturbed:
  assumes "callHandler h a s = Inr s'"
  shows "undisturbed s s'"
  using assms
  by (cases h)
    (auto simp: timer_expired_def Timer_TimerExpired_def TimerInterruptHandler_def Interrupt_YieldOnReturn_def disk_done_def
      Disk_HandleInterrupt_def SynchDisk_RequestDone_def Console_CheckCharAvail_def Console_WriteDone_def Network_CheckPktAvail_def
      Network_SendDone_def Let_def ASSERT_def rbind_Inr_iff
      intro!: undisturbed_V_body elim!: Schedule_undisturbed split: if_splits prod.splits option.splits list.splits)

lemma finish_user_load_undisturbed:
  assumes "finish_user_load s = Inr s'"
  shows "undisturbed s s'"
proof (cases "machine s")
  case (Some m)
  then obtain m' where m': "Machine_DelayedLoad m 0 0 = Inr m'" "s' = s\<lparr>machine := Some m'\<rparr>"
    using assms by (auto simp: finish_user_load_def result_inv)
  then have "machine_kept (Some m) (Some m')"
    by (auto simp: Machine_DelayedLoad_def set_reg_def ASSERT_def machine_kept_def same_memory_def machine_ok_def regs_ok_def split: if_splits)
  then show ?thesis using Some m' by (simp add: undisturbed_def kept_def)
qed (use assms in \<open>simp add: finish_user_load_def\<close>)

lemma invoke_handler_undisturbed:
  assumes "invoke_handler callHandler p s = Inr s'"
  shows "undisturbed s s'"
proof -
  obtain s1 s2 where s: "finish_user_load s = Inr s1"
      "callHandler (pi_handler p) (pi_arg p) (s1\<lparr>inHandler := True, int_status := SystemMode\<rparr>) = Inr s2"
      "s' = s2\<lparr>int_status := int_status s, inHandler := False\<rparr>"
    using assms by (auto simp: invoke_handler_def result_inv)
  have "undisturbed s1 s2" using callHandler_undisturbed [OF s(2)] by simp
  then show ?thesis using undisturbed_trans [OF finish_user_load_undisturbed [OF s(1)]] s(3) by simp
qed

lemma CheckIfDue_undisturbed:
  assumes "Interrupt_CheckIfDue callHandler adv s = Inr (b, s')"
  shows "undisturbed s s'"
  using assms by (auto simp: Interrupt_CheckIfDue_def ASSERT_def Let_def result_inv dest!: invoke_handler_undisturbed
    split: if_splits prod.splits option.splits)

lemma fire_due_undisturbed:
  assumes "fire_due callHandler s = Some (Inr s')"
  shows "undisturbed s s'"
proof -
  let ?P = "\<lambda>h s (y :: nachos result). h = callHandler \<longrightarrow> (\<forall>s'. y = Inr s' \<longrightarrow> undisturbed s s')"
  have "?P callHandler s (Inr s')"
  proof (rule fire_due.raw_induct [of ?P, OF _ assms])
    fix fd h s y
    assume IH: "\<And>h s y. fd h s = Some y \<Longrightarrow> ?P h s y"
      and body: "(case Interrupt_CheckIfDue h False s of Inl e \<Rightarrow> Some (Inl e)
        | Inr (fired, s') \<Rightarrow> if fired then fd h s' else Some (Inr s')) = Some y"
    have "undisturbed s s'" if h: "h = callHandler" and y: "y = Inr s'" for s'
    proof -
      obtain fired s1 where c: "Interrupt_CheckIfDue callHandler False s = Inr (fired, s1)"
        using body h y by (auto split: sum.splits)
      show ?thesis
      proof (cases fired)
        case True
        then have "undisturbed s1 s'" using body c h y IH by simp
        then show ?thesis using undisturbed_trans [OF CheckIfDue_undisturbed [OF c]] by blast
      next
        case False
        then show ?thesis using body c h y CheckIfDue_undisturbed [OF c] by simp
      qed
    qed
    then show "?P h s y" by blast
  qed
  then show ?thesis by blast
qed

lemma run_bind_Inr: "run_bind r f = Some (Inr y) \<longleftrightarrow> (\<exists>x. r = Some (Inr x) \<and> f x = Some (Inr y))"
  by (auto simp: run_bind_def split: option.splits sum.splits)

lemma OneTick_undisturbed: "Interrupt_OneTick callHandler s = Some (Inr (r, s')) \<Longrightarrow> undisturbed s s'"
  by (auto simp: Interrupt_OneTick_def Let_def run_bind_Inr Interrupt_ChangeLevel_def dest!: fire_due_undisturbed split: if_splits)

lemma SetLevel_undisturbed: "Interrupt_SetLevel callHandler l s = Some (Inr (r, s')) \<Longrightarrow> undisturbed s s'"
  by (auto simp: Interrupt_SetLevel_def Interrupt_ChangeLevel_def Let_def dest!: OneTick_undisturbed split: if_splits)

lemma Idle_undisturbed: "Interrupt_Idle callHandler s = Some (Inr (r, s')) \<Longrightarrow> undisturbed s s'"
proof -
  assume i: "Interrupt_Idle callHandler s = Some (Inr (r, s'))"
  then obtain fired s1 where c: "Interrupt_CheckIfDue callHandler True (s\<lparr>int_status := IdleMode\<rparr>) = Inr (fired, s1)"
    by (auto simp: Interrupt_Idle_def split: sum.splits)
  have u: "undisturbed s s1" using CheckIfDue_undisturbed [OF c] by simp
  show ?thesis
  proof (cases fired)
    case True
    then obtain s2 where "fire_due callHandler s1 = Some (Inr s2)" "s' = s2\<lparr>yieldOnReturn := False, int_status := SystemMode\<rparr>"
      using i c by (auto simp: Interrupt_Idle_def run_bind_Inr)
    then show ?thesis using undisturbed_trans [OF u fire_due_undisturbed] by simp
  next
    case False
    then show ?thesis using i c u by (simp add: Interrupt_Idle_def)
  qed
qed

section \<open>What a routine of the kernel does\<close>

definition plain :: "kcode list \<Rightarrow> bool" where
  "plain ks \<longleftrightarrow> RunRestK \<notin> set ks \<and> FinishK \<notin> set ks \<and> (\<forall>f. BodyK f \<notin> set ks)"

definition all_regs_ok :: "nachos \<Rightarrow> bool" where
  "all_regs_ok s \<longleftrightarrow> machine_ok (machine s) \<and> (\<forall>t. regs_ok (userRegisters (threads s t)))"

definition keeps :: "nachos \<Rightarrow> nachos \<Rightarrow> bool" where
  "keeps s s' \<longleftrightarrow> spaces s' = spaces s \<and> machine_kept (machine s) (machine s') \<and> (all_regs_ok s \<longrightarrow> all_regs_ok s')
     \<and> (\<forall>t. th_space (threads s' t) = th_space (threads s t))
     \<and> (\<forall>t. t \<noteq> currentThread s \<longrightarrow> th_stack (threads s' t) = th_stack (threads s t))
     \<and> (\<forall>t. th_status (threads s t) \<noteq> DELETED \<longrightarrow> th_status (threads s' t) \<noteq> DELETED)"

definition goes_on :: "nachos \<Rightarrow> nachos \<Rightarrow> bool" where
  "goes_on s s' \<longleftrightarrow> keeps s s' \<and> currentThread s' = currentThread s
     \<and> (\<exists>ks. plain ks \<and> th_stack (current s') = ks @ th_stack (current s))"

definition switches :: "nachos \<Rightarrow> nachos \<Rightarrow> bool" where
  "switches s s' \<longleftrightarrow> keeps s s' \<and> th_status (current s') \<noteq> DELETED
     \<and> (\<exists>ks. plain ks \<and> th_stack (threads s' (currentThread s)) = RunRestK # ks @ th_stack (current s))"

lemma keeps_trans:
  assumes "keeps s s1" "currentThread s1 = currentThread s" "keeps s1 s2"
  shows "keeps s s2"
  using assms unfolding keeps_def by (auto intro: machine_kept_trans)

lemma plain_simps [simp]: "plain []" "plain (ks @ ks') \<longleftrightarrow> plain ks \<and> plain ks'"
  "plain (k # ks) \<longleftrightarrow> k \<noteq> RunRestK \<and> k \<noteq> FinishK \<and> (\<forall>f. k \<noteq> BodyK f) \<and> plain ks"
  by (auto simp: plain_def)

lemma goes_on_trans: "goes_on s s1 \<Longrightarrow> goes_on s1 s2 \<Longrightarrow> goes_on s s2"
  unfolding goes_on_def using keeps_trans by (metis append_assoc plain_simps(2))

lemma goes_on_switches: "goes_on s s1 \<Longrightarrow> switches s1 s2 \<Longrightarrow> switches s s2"
  unfolding goes_on_def switches_def using keeps_trans by (metis append_assoc plain_simps(2))

lemma goes_on_refl [simp]: "goes_on s s"
  by (simp add: goes_on_def keeps_def)

lemma undisturbed_goes_on: "undisturbed s s' \<Longrightarrow> goes_on s s'"
proof -
  assume a: "undisturbed s s'"
  then have th: "threads s' t = threads s t \<or> threads s' t = (threads s t)\<lparr>th_status := READY\<rparr>" for t
    by (simp add: undisturbed_def kept_def)
  have "th_space (threads s' t) = th_space (threads s t)" "th_stack (threads s' t) = th_stack (threads s t)"
    "userRegisters (threads s' t) = userRegisters (threads s t)" "th_status (threads s t) \<noteq> DELETED \<longrightarrow> th_status (threads s' t) \<noteq> DELETED" for t
    using th [of t] by (auto simp del: split_paired_All)
  then show ?thesis using a by (auto simp: goes_on_def keeps_def undisturbed_def kept_def all_regs_ok_def machine_kept_def)
qed

text \<open>Assignments to a thread that leave its stack, its space and its registers alone, and to the objects of synchronization.\<close>

lemma goes_on_set_thread:
  assumes "th_space x = th_space (threads s t)" "th_stack x = th_stack (threads s t)" "userRegisters x = userRegisters (threads s t)"
    "th_status x = DELETED \<longrightarrow> th_status (threads s t) = DELETED"
  shows "goes_on s (set_thread t x s)"
  using assms by (auto simp: goes_on_def keeps_def all_regs_ok_def set_thread_def)

lemma goes_on_push: "plain ks \<Longrightarrow> goes_on s (push ks s)"
  by (auto simp: goes_on_def keeps_def all_regs_ok_def push_def set_thread_def)

lemma goes_on_fields [simp]:
  "goes_on s (s'\<lparr>readyList := r\<rparr>) \<longleftrightarrow> goes_on s s'" "goes_on s (s'\<lparr>level := l\<rparr>) \<longleftrightarrow> goes_on s s'"
  "goes_on s (s'\<lparr>int_status := i\<rparr>) \<longleftrightarrow> goes_on s s'" "goes_on s (s'\<lparr>halted := b\<rparr>) \<longleftrightarrow> goes_on s s'"
  "goes_on s (s'\<lparr>threadToBeDestroyed := d\<rparr>) \<longleftrightarrow> goes_on s s'"
  "goes_on s (set_sem j x s') \<longleftrightarrow> goes_on s s'" "goes_on s (set_lock j y s') \<longleftrightarrow> goes_on s s'" "goes_on s (set_cond j z s') \<longleftrightarrow> goes_on s s'"
  by (simp_all add: goes_on_def keeps_def all_regs_ok_def set_sem_def set_lock_def set_cond_def)

lemma goes_on_setStatus: "st \<noteq> DELETED \<Longrightarrow> goes_on s s' \<Longrightarrow> goes_on s (Thread_setStatus t st s')"
  unfolding Thread_setStatus_def by (rule goes_on_trans [OF _ goes_on_set_thread]) simp_all

lemma goes_on_ready: "goes_on s s' \<Longrightarrow> goes_on s (Scheduler_ReadyToRun t s')"
  by (simp add: Scheduler_ReadyToRun_def Let_def goes_on_setStatus)

lemma goes_on_local: "goes_on s s' \<Longrightarrow> goes_on s (set_local x s')" "goes_on s s' \<Longrightarrow> goes_on s (set_result v s')"
  unfolding set_local_def set_result_def by (rule goes_on_trans [OF _ goes_on_set_thread]; simp)+

lemma goes_on_push': "goes_on s s' \<Longrightarrow> plain ks \<Longrightarrow> goes_on s (push ks s')"
  using goes_on_trans goes_on_push by blast

lemma goes_on_Sleep: "Thread_Sleep s' = Inr s'' \<Longrightarrow> goes_on s s' \<Longrightarrow> goes_on s s''"
  by (auto simp: Thread_Sleep_def ASSERT_def intro!: goes_on_push' goes_on_setStatus split: if_splits)

lemma goes_on_Release: "goes_on s s' \<Longrightarrow> goes_on s (Release_body l b s')"
  by (auto simp: Release_body_def Let_def intro!: goes_on_ready split: prod.splits option.splits)

lemma goes_on_dequeue: "goes_on s s' \<Longrightarrow> goes_on s (cond_dequeue c s')"
  by (auto simp: cond_dequeue_def intro!: goes_on_local split: prod.splits)

lemma goes_on_after_tick: "goes_on s s' \<Longrightarrow> goes_on s (after_tick (r, s'))"
  by (auto simp: after_tick_def intro!: goes_on_push' split: option.split)

lemmas goes_on_intros = goes_on_push' goes_on_setStatus goes_on_ready goes_on_local goes_on_Release goes_on_dequeue goes_on_after_tick

lemma save_user_keeps:
  assumes "save_user s = Inr s'"
  shows "goes_on s s'"
  using assms
  by (auto simp: save_user_def Thread_SaveUserState_def AddrSpace_SaveState_def set_thread_def goes_on_def keeps_def all_regs_ok_def machine_ok_def
      regs_ok_def split: option.splits if_splits)

lemma Run_switches:
  assumes "Scheduler_Run n s' = Inr s''" "goes_on s s'"
  shows "switches s s''"
proof -
  obtain s1 where s1: "save_user s' = Inr s1" "s'' = Thread_setStatus n RUNNING ((push [RunRestK] s1)\<lparr>currentThread := n\<rparr>)"
    using assms(1) by (auto simp: Scheduler_Run_def Let_def result_inv Thread_CheckOverflow_def ASSERT_def split: option.splits if_splits)
  have g: "goes_on s s1" using goes_on_trans [OF assms(2) save_user_keeps [OF s1(1)]] .
  have "switches s1 s''" by (auto simp: s1(2) switches_def keeps_def all_regs_ok_def Thread_setStatus_def push_def set_thread_def intro!: exI [of _ "[]"])
  then show ?thesis using goes_on_switches [OF g] by blast
qed

lemma Yield_effect:
  assumes "Thread_Yield s = Inr s'"
  shows "goes_on s s' \<or> switches s s'"
proof -
  let ?s1 = "push [SetLevelK (level s)] (Interrupt_ChangeLevel IntOff s)"
  have g: "goes_on s ?s1" by (auto simp: Interrupt_ChangeLevel_def intro!: goes_on_intros)
  show ?thesis
  proof (cases "List_Remove (readyList ?s1)")
    case (Pair t rest)
    show ?thesis
    proof (cases t)
      case None
      then show ?thesis using assms g Pair by (auto simp: Thread_Yield_def Let_def Scheduler_FindNextToRun_def)
    next
      case (Some n)
      then have "Scheduler_Run n (Scheduler_ReadyToRun (currentThread ?s1) (?s1\<lparr>readyList := rest\<rparr>)) = Inr s'"
        using assms Pair by (auto simp: Thread_Yield_def Let_def Scheduler_FindNextToRun_def)
      moreover have "goes_on s (Scheduler_ReadyToRun (currentThread ?s1) (?s1\<lparr>readyList := rest\<rparr>))" using g by (simp add: goes_on_ready)
      ultimately show ?thesis using Run_switches by blast
    qed
  qed
qed

lemma Sleep_loop_effect:
  assumes "Sleep_loop callHandler s = Some (Inr s')"
  shows "goes_on s s' \<or> switches s s'"
proof (cases "List_Remove (readyList s)")
  case (Pair t rest)
  have g: "goes_on s (s\<lparr>readyList := rest\<rparr>)" by simp
  show ?thesis
  proof (cases t)
    case None
    let ?s1 = "push [SleepLoopK] (s\<lparr>readyList := rest\<rparr>)"
    obtain b s2 where i: "Interrupt_Idle callHandler ?s1 = Some (Inr (b, s2))" "s' = (if b then s2 else s2\<lparr>halted := True\<rparr>)"
      using assms Pair None by (auto simp: Sleep_loop_def Scheduler_FindNextToRun_def run_bind_Inr)
    have "goes_on s ?s1" by (rule goes_on_push') simp_all
    then have "goes_on s s2" using goes_on_trans undisturbed_goes_on [OF Idle_undisturbed [OF i(1)]] by blast
    then show ?thesis using i(2) by simp
  next
    case (Some n)
    then show ?thesis using assms Pair Run_switches [OF _ g] by (auto simp: Sleep_loop_def Scheduler_FindNextToRun_def)
  qed
qed

text \<open>Every point of a routine except the one after \<^verbatim>\<open>SWITCH\<close>.\<close>

lemma kexec_effect:
  assumes "kexec callHandler k s = Some (Inr s')" "k \<noteq> RunRestK"
  shows "goes_on s s' \<or> switches s s'"
proof (cases k)
  case YieldK
  then show ?thesis using assms Yield_effect by simp
next
  case SleepLoopK
  then show ?thesis using assms Sleep_loop_effect by simp
next
  case (SetLevelK l)
  then show ?thesis using assms
    by (auto simp: run_bind_Inr intro!: goes_on_after_tick dest!: SetLevel_undisturbed undisturbed_goes_on)
next
  case TickK
  then show ?thesis using assms
    by (auto simp: run_bind_Inr intro!: goes_on_after_tick dest!: OneTick_undisturbed undisturbed_goes_on)
qed (use assms in \<open>auto simp: Thread_Finish_def P_loop_def Lock_Acquire_def Acquire_loop_def Lock_Release_def with_ints_off_def Interrupt_ChangeLevel_def Wait_enqueue_def
    Signal_dequeue_def Signal_wake_def Broadcast_dequeue_def Broadcast_test_def Let_def intro!: goes_on_intros elim!: goes_on_Sleep split: if_splits option.splits\<close>)

lemma kexec_destroyed:
  assumes "kexec callHandler k s = Some (Inr s')" "k \<noteq> RunRestK"
  shows "threadToBeDestroyed s' = threadToBeDestroyed s \<or> k = FinishK \<and> threadToBeDestroyed s' = Some (currentThread s) \<and> currentThread s' = currentThread s"
proof -
  have run: "threadToBeDestroyed s2 = threadToBeDestroyed s1" if "Scheduler_Run n s1 = Inr s2" for n and s1 s2 :: nachos
    using that by (auto simp: Scheduler_Run_def save_user_def Thread_SaveUserState_def Thread_CheckOverflow_def kops ASSERT_def
      split: option.splits if_splits)
  have und: "threadToBeDestroyed s2 = threadToBeDestroyed s1" if "undisturbed s1 s2" for s1 s2
    using that by (simp add: undisturbed_def kept_def)
  have rel: "threadToBeDestroyed (Release_body l b s1) = threadToBeDestroyed s1" for l b and s1 :: nachos
    by (auto simp: Release_body_def kops split: prod.splits option.splits)
  note defs = kops Thread_Finish_def Thread_Sleep_def P_loop_def Lock_Acquire_def Acquire_loop_def Lock_Release_def Wait_enqueue_def
    Signal_dequeue_def Signal_wake_def Broadcast_dequeue_def Broadcast_test_def cond_dequeue_def after_tick_def ASSERT_def
  show ?thesis
  proof (cases k)
    case YieldK
    then show ?thesis using assms
      by (auto simp: Thread_Yield_def Scheduler_FindNextToRun_def defs dest!: run split: prod.splits option.splits)
  next
    case SleepLoopK
    then show ?thesis using assms
      by (auto simp: Sleep_loop_def Scheduler_FindNextToRun_def run_bind_Inr defs dest!: run und [OF Idle_undisturbed]
          split: prod.splits option.splits if_splits)
  next
    case (SetLevelK l)
    then show ?thesis using assms by (auto simp: run_bind_Inr defs dest!: und [OF SetLevel_undisturbed] split: option.splits)
  next
    case TickK
    then show ?thesis using assms by (auto simp: run_bind_Inr defs dest!: und [OF OneTick_undisturbed] split: option.splits)
  qed (use assms in \<open>auto simp: defs rel split: if_splits option.splits prod.splits\<close>)
qed

section \<open>The invariant\<close>

definition has_body :: "kcode list \<Rightarrow> bool" where
  "has_body ks \<longleftrightarrow> (\<exists>f. BodyK f \<in> set ks)"

text \<open>There is one body at most, and it lies above the call of \<open>Finish\<close>.\<close>

fun shape :: "kcode list \<Rightarrow> bool" where
  "shape [] \<longleftrightarrow> True"
| "shape (k # r) \<longleftrightarrow> shape r \<and> (k = FinishK \<or> (\<exists>f. k = BodyK f) \<longrightarrow> \<not> has_body r)"

lemma has_body_simps [simp]: "\<not> has_body []" "has_body (k # r) \<longleftrightarrow> (\<exists>f. k = BodyK f) \<or> has_body r"
  "has_body (ks @ r) \<longleftrightarrow> has_body ks \<or> has_body r" "plain ks \<Longrightarrow> \<not> has_body ks"
  by (auto simp: has_body_def plain_def)

lemma shape_plain: "plain ks \<Longrightarrow> shape (ks @ r) \<longleftrightarrow> shape r"
  by (induction ks) auto

abbreviation stack_of :: "nat \<Rightarrow> sys \<Rightarrow> kcode list" where "stack_of t y \<equiv> th_stack (thread_of t y)"
abbreviation uses_space :: "nat \<Rightarrow> nat \<Rightarrow> sys \<Rightarrow> bool" where
  "uses_space t sp y \<equiv> has_body (stack_of t y) \<and> th_space (thread_of t y) = Some sp"

text \<open>The page tables of the existing address spaces are disjoint and use no free frame.\<close>

definition in_use :: "nat \<Rightarrow> sys \<Rightarrow> bool" where
  "in_use sp y \<longleftrightarrow> space_live y sp \<and> as_valid (space_of sp y)"

definition memory_ok :: "sys \<Rightarrow> bool" where
  "memory_ok y \<longleftrightarrow> MemoryManager_wf (sys_mm y)
     \<and> (\<forall>sp. in_use sp y \<longrightarrow> (\<exists>pt. as_pageTable (space_of sp y) = Some pt \<and> length pt = as_numPages (space_of sp y) \<and> space_ok pt
          \<and> set (frames pt) \<inter> free_pages (sys_mm y) = {}))
     \<and> (\<forall>sp sp' pt pt'. in_use sp y \<and> in_use sp' y \<and> sp \<noteq> sp' \<and> as_pageTable (space_of sp y) = Some pt \<and> as_pageTable (space_of sp' y) = Some pt'
          \<longrightarrow> set (frames pt) \<inter> set (frames pt') = {})"

text \<open>A thread with a body has its own existing address space, or none; a thread without keeps none alive.\<close>

definition threads_ok :: "sys \<Rightarrow> bool" where
  "threads_ok y \<longleftrightarrow> (\<forall>t. shape (stack_of t y)) \<and> th_status (current (kern y)) \<noteq> DELETED
     \<and> (\<forall>t. threadToBeDestroyed (kern y) = Some t \<longrightarrow> \<not> has_body (stack_of t y) \<and> th_status (thread_of t y) \<noteq> DELETED)
     \<and> (\<forall>t sp. \<not> has_body (stack_of t y) \<and> th_space (thread_of t y) = Some sp \<longrightarrow> \<not> space_live y sp)
     \<and> (\<forall>t sp. uses_space t sp y \<longrightarrow> in_use sp y)
     \<and> (\<forall>t t' sp. uses_space t sp y \<and> uses_space t' sp y \<longrightarrow> t' = t)"

text \<open>The machine has the page table of the current thread, except between \<^verbatim>\<open>SWITCH\<close> and the restoring of the user state.\<close>

definition loaded :: "nat \<Rightarrow> sys \<Rightarrow> bool" where
  "loaded sp y \<longleftrightarrow> (\<exists>m. machine (kern y) = Some m \<and> pageTable m = as_pageTable (space_of sp y)
     \<and> pageTableSize m = of_nat (as_numPages (space_of sp y)))"

definition unrestored :: "nat \<Rightarrow> sys \<Rightarrow> bool" where
  "unrestored t y \<longleftrightarrow> (\<exists>r. stack_of t y = RunRestK # r) \<or> resumes y t = Some ChildStart"

definition paging_ok :: "sys \<Rightarrow> bool" where
  "paging_ok y \<longleftrightarrow> (\<forall>t sp. uses_space t sp y \<longrightarrow> (if t = self y then unrestored t y \<or> loaded sp y else unrestored t y))"

definition isolated :: "sys \<Rightarrow> bool" where
  "isolated y \<longleftrightarrow> memory_ok y \<and> threads_ok y \<and> paging_ok y \<and> all_regs_ok (kern y)"

lemma loaded_kept: "loaded sp y \<Longrightarrow> spaces s = spaces (kern y) \<Longrightarrow> machine_kept (machine (kern y)) (machine s) \<Longrightarrow> loaded sp (set_kern s y)"
  by (auto simp: loaded_def set_kern_def machine_kept_def same_memory_def)

lemma set_kern_simps [simp]: "kern (set_kern s y) = s" "sys_mm (set_kern s y) = sys_mm y" "space_live (set_kern s y) = space_live y"
  "resumes (set_kern s y) = resumes y" "pcb_heap (set_kern s y) = pcb_heap y" "pcb_live (set_kern s y) = pcb_live y"
  "pcbManager (set_kern s y) = pcbManager y" "host_files (set_kern s y) = host_files y" "set_kern s (set_kern s' y) = set_kern s y"
  by (simp_all add: set_kern_def)

lemma memory_ok_spaces: "spaces s = spaces (kern y) \<Longrightarrow> memory_ok (set_kern s y) = memory_ok y"
  by (simp add: memory_ok_def in_use_def)

section \<open>Steps of the kernel\<close>

lemma threads_ok_kern:
  assumes "threads_ok y" "spaces s = spaces (kern y)" "th_status (threads s (currentThread s)) \<noteq> DELETED"
    "\<And>t. th_space (threads s t) = th_space (thread_of t y)" "\<And>t. shape (th_stack (threads s t))"
    "\<And>t. has_body (th_stack (threads s t)) \<longleftrightarrow> has_body (stack_of t y)"
    "\<And>t. threadToBeDestroyed s = Some t \<Longrightarrow> \<not> has_body (stack_of t y) \<and> th_status (threads s t) \<noteq> DELETED"
  shows "threads_ok (set_kern s y)"
  using assms unfolding threads_ok_def by (simp add: in_use_def)

lemma pop_fields [simp]:
  "currentThread (pop s) = currentThread s" "spaces (pop s) = spaces s" "machine (pop s) = machine s" "threadToBeDestroyed (pop s) = threadToBeDestroyed s"
  "th_space (threads (pop s) t) = th_space (threads s t)" "th_status (threads (pop s) t) = th_status (threads s t)"
  "userRegisters (threads (pop s) t) = userRegisters (threads s t)" "t \<noteq> currentThread s \<Longrightarrow> th_stack (threads (pop s) t) = th_stack (threads s t)"
  "th_stack (threads (pop s) (currentThread s)) = tl (th_stack (threads s (currentThread s)))"
  by (simp_all add: pop_def set_thread_def)

lemma all_regs_ok_pop [simp]: "all_regs_ok (pop s) = all_regs_ok s"
  by (simp add: all_regs_ok_def)

lemma effect_isolated:
  assumes iso: "isolated y" and st: "th_stack (current (kern y)) = k # r" "k \<noteq> RunRestK" "\<And>f. k \<noteq> BodyK f"
    and s: "goes_on (pop (kern y)) s \<or> switches (pop (kern y)) s"
    and d: "threadToBeDestroyed s = threadToBeDestroyed (kern y) \<or> k = FinishK \<and> threadToBeDestroyed s = Some (self y)"
  shows "isolated (set_kern s y)"
proof -
  let ?c = "self y"
  note iso' = iso [unfolded isolated_def]
  note th = iso' [THEN conjunct2, THEN conjunct1, unfolded threads_ok_def]
  have k: "keeps (pop (kern y)) s" using s by (auto simp: goes_on_def switches_def)
  have sp: "spaces s = spaces (kern y)" "machine_kept (machine (kern y)) (machine s)" "all_regs_ok s"
      "\<And>t. th_space (threads s t) = th_space (thread_of t y)" "\<And>t. t \<noteq> ?c \<Longrightarrow> th_stack (threads s t) = stack_of t y"
      "\<And>t. th_status (thread_of t y) \<noteq> DELETED \<Longrightarrow> th_status (threads s t) \<noteq> DELETED"
    using k iso' by (simp_all add: keeps_def)
  obtain ks where ks: "plain ks" "th_stack (threads s ?c) = ks @ r \<and> currentThread s = ?c \<or> th_stack (threads s ?c) = RunRestK # ks @ r \<and> th_status (current s) \<noteq> DELETED"
    using s st(1) by (auto simp: goes_on_def switches_def)
  have b: "has_body (th_stack (threads s t)) \<longleftrightarrow> has_body (stack_of t y)" for t
    using ks sp(5) st by (cases "t = ?c") auto
  have sh: "shape (k # r)" using th st(1) by metis
  have "shape (th_stack (threads s t))" for t
    using ks sp(5) [of t] th sh by (cases "t = ?c") (auto simp: shape_plain)
  moreover have "th_status (threads s (currentThread s)) \<noteq> DELETED" using ks(2) sp(6) th by auto
  moreover have "\<not> has_body (stack_of t y) \<and> th_status (threads s t) \<noteq> DELETED" if "threadToBeDestroyed s = Some t" for t
    using d that th sh st(1) sp(6) by auto
  ultimately have thr: "threads_ok (set_kern s y)"
    using threads_ok_kern [OF _ sp(1) _ sp(4) _ b] iso' by blast
  have "paging_ok (set_kern s y)" unfolding paging_ok_def
  proof (intro allI impI)
    fix t p assume "uses_space t p (set_kern s y)"
    then have u: "uses_space t p y" using b sp(4) by simp
    have pk: "if t = ?c then unrestored t y \<or> loaded p y else unrestored t y" using iso' u unfolding paging_ok_def by blast
    have old: "unrestored t y" if "t \<noteq> ?c" using pk that by simp
    have cur: "resumes y ?c = Some ChildStart \<or> loaded p y" if "t = ?c" using pk that st(1,2) by (auto simp: unrestored_def)
    have other: "unrestored t (set_kern s y)" if "t \<noteq> ?c" using old [OF that] sp(5) [OF that] by (simp add: unrestored_def)
    show "if t = self (set_kern s y) then unrestored t (set_kern s y) \<or> loaded p (set_kern s y) else unrestored t (set_kern s y)"
    proof (cases "t = ?c")
      case True
      have l: "loaded p (set_kern s y)" if "loaded p y" using loaded_kept [OF that sp(1,2)] .
      from ks(2) show ?thesis
      proof
        assume a: "th_stack (threads s ?c) = ks @ r \<and> currentThread s = ?c"
        have "unrestored t (set_kern s y)" if "resumes y ?c = Some ChildStart" using that True by (simp add: unrestored_def)
        then show ?thesis using cur [OF True] l a True by auto
      next
        assume "th_stack (threads s ?c) = RunRestK # ks @ r \<and> th_status (current s) \<noteq> DELETED"
        then have "unrestored t (set_kern s y)" using True by (simp add: unrestored_def)
        then show ?thesis by auto
      qed
    next
      case False
      then show ?thesis using other by auto
    qed
  qed
  then show ?thesis using thr iso' sp(3) memory_ok_spaces [OF sp(1)] by (simp add: isolated_def)
qed

lemma restore_user_loads:
  assumes "restore_user s = Inr s'"
  shows "spaces s' = spaces s" "threads s' = threads s" "currentThread s' = currentThread s" "threadToBeDestroyed s' = threadToBeDestroyed s"
    "all_regs_ok s \<Longrightarrow> all_regs_ok s'"
    "th_space (current s) = Some sp \<Longrightarrow> \<exists>m. machine s' = Some m \<and> pageTable m = as_pageTable (spaces s sp) \<and> pageTableSize m = of_nat (as_numPages (spaces s sp))"
  using assms by (auto simp: restore_user_def Thread_RestoreUserState_def AddrSpace_RestoreState_def all_regs_ok_def machine_ok_def regs_ok_def
    split: option.splits)

lemma restored_isolated:
  assumes iso: "isolated y" and st: "th_stack (current (kern y)) = RunRestK # r" and s: "Run_rest (pop (kern y)) = Inr s"
  shows "isolated (set_kern s y)"
proof -
  let ?c = "self y"
  note iso' = iso [unfolded isolated_def]
  note th = iso' [THEN conjunct2, THEN conjunct1, unfolded threads_ok_def]
  obtain s1 where s1: "restore_user s1 = Inr s" "spaces s1 = spaces (kern y)" "currentThread s1 = ?c" "machine s1 = machine (kern y)" "threadToBeDestroyed s1 = None"
      "\<And>t. th_space (threads s1 t) = th_space (thread_of t y)" "\<And>t. userRegisters (threads s1 t) = userRegisters (thread_of t y)"
      "\<And>t. t \<noteq> ?c \<Longrightarrow> th_stack (threads s1 t) = stack_of t y \<or> \<not> has_body (stack_of t y) \<and> th_stack (threads s1 t) = []"
      "threads s1 ?c = threads (pop (kern y)) ?c"
  proof (cases "threadToBeDestroyed (kern y)")
    case None
    then show ?thesis using that [of "pop (kern y)"] s by (simp add: Run_rest_def)
  next
    case (Some t)
    then have "\<not> has_body (stack_of t y)" using th by blast
    then show ?thesis using that [of "(set_thread t ((threads (pop (kern y)) t)\<lparr>th_status := DELETED, th_stack := [], th_fencepost := None\<rparr>) (pop (kern y)))\<lparr>threadToBeDestroyed := None\<rparr>"] s Some
      by (auto simp: Run_rest_def Thread_destroy_def ASSERT_def set_thread_def split: if_splits)
  qed
  note r = restore_user_loads [OF s1(1)]
  have b: "has_body (th_stack (threads s t)) \<longleftrightarrow> has_body (stack_of t y)" for t
    using s1(8) [of t] s1(9) st by (cases "t = ?c") (auto simp: r(2))
  have "shape (th_stack (threads s t))" for t
    using s1(8) [of t] s1(9) st th by (cases "t = ?c") (auto simp: r(2) dest: spec [of _ ?c])
  then have thr: "threads_ok (set_kern s y)"
    using iso' b s1 r th by (intro threads_ok_kern) simp_all
  have "paging_ok (set_kern s y)" unfolding paging_ok_def
  proof (intro allI impI)
    fix t p assume "uses_space t p (set_kern s y)"
    then have u: "uses_space t p y" using b s1(6) r(2) by simp
    show "if t = self (set_kern s y) then unrestored t (set_kern s y) \<or> loaded p (set_kern s y) else unrestored t (set_kern s y)"
    proof (cases "t = ?c")
      case True
      then show ?thesis using r(6) [of p] u s1 r(1,3) by (auto simp: loaded_def)
    next
      case False
      then have "unrestored t y" using iso' u by (auto simp: paging_ok_def)
      moreover have "th_stack (threads s t) = stack_of t y" using s1(8) [OF False] u r(2) by simp
      ultimately show ?thesis using False s1(3) r(3) by (simp add: unrestored_def)
    qed
  qed
  moreover have "all_regs_ok s" using r(5) iso' s1(4,7) by (simp add: all_regs_ok_def)
  ultimately show ?thesis using thr iso' memory_ok_spaces [of s y] r(1) s1(2) by (simp add: isolated_def)
qed

lemma exec_isolated:
  assumes "isolated y" "th_stack (current (kern y)) = k # r" "kexec callHandler k (pop (kern y)) = Some (Inr s)"
  shows "isolated (set_kern s y)"
proof (cases "k = RunRestK")
  case True
  then show ?thesis using assms restored_isolated by simp
next
  case False
  moreover have "k \<noteq> BodyK f" for f using assms(3) by auto
  ultimately show ?thesis
    using effect_isolated [OF assms(1,2)] kexec_effect [OF assms(3)] kexec_destroyed [OF assms(3)] by auto
qed

end
