(* ===== verification/Nachos_Syscalls.thy ===== *)
theory Nachos_Syscalls
  imports Nachos_Isolation
begin

text \<open>
  The system calls and the user instructions keep the invariant \<open>isolated\<close> of \<open>Nachos_Isolation\<close>, and write only memory that is
  free or belongs to the process that makes the call.
\<close>

section \<open>Changes that do not matter\<close>

lemma sys_fields [simp]:
  "kern (set_pcb p x y) = kern y" "sys_mm (set_pcb p x y) = sys_mm y" "space_live (set_pcb p x y) = space_live y" "resumes (set_pcb p x y) = resumes y"
  "pcb_live (set_pcb p x y) = pcb_live y" "pcbManager (set_pcb p x y) = pcbManager y" "pcb_heap (set_pcb p x y) = (pcb_heap y)(p := x)"
  "sys_mm (set_space i z y) = sys_mm y" "space_live (set_space i z y) = space_live y" "resumes (set_space i z y) = resumes y"
  "pcb_heap (set_space i z y) = pcb_heap y" "pcb_live (set_space i z y) = pcb_live y" "pcbManager (set_space i z y) = pcbManager y"
  "sys_mm (set_thread_space t u y) = sys_mm y" "space_live (set_thread_space t u y) = space_live y" "resumes (set_thread_space t u y) = resumes y"
  "pcb_heap (set_thread_space t u y) = pcb_heap y" "pcb_live (set_thread_space t u y) = pcb_live y" "pcbManager (set_thread_space t u y) = pcbManager y"
  "kern (set_space i z y) = (kern y)\<lparr>spaces := (spaces (kern y))(i := z)\<rparr>"
  "kern (set_thread_space t u y) = set_thread t ((thread_of t y)\<lparr>th_space := u\<rparr>) (kern y)"
  "kern (set_machine m y) = (kern y)\<lparr>machine := Some m\<rparr>" "sys_mm (set_machine m y) = sys_mm y" "space_live (set_machine m y) = space_live y"
  "resumes (set_machine m y) = resumes y" "pcb_heap (set_machine m y) = pcb_heap y" "pcb_live (set_machine m y) = pcb_live y" "pcbManager (set_machine m y) = pcbManager y"
  by (simp_all add: set_pcb_def set_space_def set_thread_space_def set_machine_def)

definition same_kernel :: "nachos \<Rightarrow> nachos \<Rightarrow> bool" where
  "same_kernel s s' \<longleftrightarrow> machine s' = machine s \<and> spaces s' = spaces s \<and> currentThread s' = currentThread s \<and> threads s' = threads s
     \<and> threadToBeDestroyed s' = threadToBeDestroyed s"

definition same_sys :: "sys \<Rightarrow> sys \<Rightarrow> bool" where
  "same_sys y y' \<longleftrightarrow> same_kernel (kern y) (kern y') \<and> sys_mm y' = sys_mm y \<and> space_live y' = space_live y \<and> resumes y' = resumes y"

lemma same_sys_isolated: "same_sys y y' \<Longrightarrow> isolated y' = isolated y"
  by (simp add: same_sys_def same_kernel_def isolated_def memory_ok_def in_use_def threads_ok_def paging_ok_def unrestored_def loaded_def all_regs_ok_def)

lemma same_sys_refl [simp]: "same_sys y y"
  by (simp add: same_sys_def same_kernel_def)

lemma same_sys_trans: "same_sys y y1 \<Longrightarrow> same_sys y1 y2 \<Longrightarrow> same_sys y y2"
  by (simp add: same_sys_def same_kernel_def)

lemma same_sys_pcb [simp]: "same_sys y (set_pcb p x y') \<longleftrightarrow> same_sys y y'"
  "same_sys y (y'\<lparr>pcb_live := l\<rparr>) \<longleftrightarrow> same_sys y y'" "same_sys y (y'\<lparr>pcbManager := pm\<rparr>) \<longleftrightarrow> same_sys y y'"
  by (simp_all add: same_sys_def)

lemma same_sys_remove_thread [simp]: "same_sys y (remove_thread t y') \<longleftrightarrow> same_sys y y'"
  by (auto simp: remove_thread_def same_sys_def same_kernel_def Scheduler_RemoveThread_def split: option.split prod.split)

lemma AllocatePCB_same: "PCBManager_AllocatePCB p y = Inr (pid, y') \<Longrightarrow> same_sys y y'"
  by (auto simp: PCBManager_AllocatePCB_def result_inv ASSERT_def split: if_splits)

lemma RemoveChild_same: "same_sys y (snd (PCB_RemoveChild p c y))"
  by (auto simp: PCB_RemoveChild_def split: prod.split)

section \<open>Deleting address spaces\<close>

text \<open>What a process sees of operations that delete other processes.\<close>

definition unaffected :: "sys \<Rightarrow> sys \<Rightarrow> bool" where
  "unaffected y y' \<longleftrightarrow> machine (kern y') = machine (kern y) \<and> self y' = self y \<and> thread_of (self y) y' = thread_of (self y) y \<and> resumes y' = resumes y
     \<and> free_pages (sys_mm y) \<subseteq> free_pages (sys_mm y') \<and> (\<forall>sp. in_use sp y' \<longrightarrow> in_use sp y \<and> space_of sp y' = space_of sp y)
     \<and> (\<forall>sp. space_live y' sp \<longrightarrow> space_live y sp)"

lemma unaffected_trans: "unaffected y y1 \<Longrightarrow> unaffected y1 y2 \<Longrightarrow> unaffected y y2"
  unfolding unaffected_def by (metis subset_trans)

lemma same_unaffected: "same_sys y y' \<Longrightarrow> unaffected y y'"
  by (simp add: same_sys_def same_kernel_def unaffected_def in_use_def)

lemma delete_space_result:
  assumes "delete_space sp y = Inr y'" "memory_ok y" "as_valid (space_of sp y)"
  obtains mm pt where "in_use sp y" "as_pageTable (space_of sp y) = Some pt" "MemoryManager_wf mm" "free_pages mm = free_pages (sys_mm y) \<union> set (frames pt)"
    "y' = set_space sp ((space_of sp y)\<lparr>as_pageTable := None\<rparr>) (y\<lparr>sys_mm := mm, space_live := (space_live y)(sp := False)\<rparr>)"
proof -
  have u: "in_use sp y" using assms(1,3) by (auto simp: delete_space_def in_use_def split: if_splits)
  then obtain pt where pt: "as_pageTable (space_of sp y) = Some pt" "length pt = as_numPages (space_of sp y)" "space_ok pt"
      "set (frames pt) \<inter> free_pages (sys_mm y) = {}" "MemoryManager_wf (sys_mm y)"
    using assms(2) by (auto simp: memory_ok_def)
  obtain mm where "AddrSpace_destroy (space_of sp y) (sys_mm y) = Inr ((space_of sp y)\<lparr>as_pageTable := None\<rparr>, mm)" "MemoryManager_wf mm"
      "free_pages mm = free_pages (sys_mm y) \<union> set (frames pt)"
    using AddrSpace_destroy_ok [OF pt(5,1,2,3,4)] by blast
  then show ?thesis using that [OF u pt(1)] assms(1) u by (auto simp: delete_space_def in_use_def split: if_splits)
qed

lemma deleted_in_use:
  assumes "y' = set_space sp x (y\<lparr>sys_mm := mm, space_live := (space_live y)(sp := False)\<rparr>)"
  shows "in_use sp' y' \<longleftrightarrow> sp' \<noteq> sp \<and> in_use sp' y" "sp' \<noteq> sp \<Longrightarrow> space_of sp' y' = space_of sp' y"
  using assms by (auto simp: in_use_def)

lemma deleted_memory_ok:
  assumes "memory_ok y" "in_use sp y" "as_pageTable (space_of sp y) = Some pt" "MemoryManager_wf mm" "free_pages mm = free_pages (sys_mm y) \<union> set (frames pt)"
    "y' = set_space sp x (y\<lparr>sys_mm := mm, space_live := (space_live y)(sp := False)\<rparr>)"
  shows "memory_ok y'"
proof -
  note m = assms(1) [unfolded memory_ok_def]
  have mm: "sys_mm y' = mm" by (simp add: assms(6))
  have "\<exists>pt'. as_pageTable (space_of sp' y') = Some pt' \<and> length pt' = as_numPages (space_of sp' y') \<and> space_ok pt' \<and> set (frames pt') \<inter> free_pages (sys_mm y') = {}"
    if "in_use sp' y'" for sp'
  proof -
    have u: "sp' \<noteq> sp" "in_use sp' y" "space_of sp' y' = space_of sp' y" using that deleted_in_use [OF assms(6)] by auto
    then obtain pt' where pt': "as_pageTable (space_of sp' y) = Some pt'" "length pt' = as_numPages (space_of sp' y)" "space_ok pt'"
        "set (frames pt') \<inter> free_pages (sys_mm y) = {}" using m by blast
    have "set (frames pt') \<inter> set (frames pt) = {}" using m u(1,2) assms(2,3) pt'(1) by blast
    then show ?thesis using pt' u(3) unfolding mm assms(5) by auto
  qed
  moreover have "set (frames p) \<inter> set (frames p') = {}"
    if "in_use a y'" "in_use b y'" "a \<noteq> b" "as_pageTable (space_of a y') = Some p" "as_pageTable (space_of b y') = Some p'" for a b p p'
    using m that deleted_in_use [OF assms(6)] by metis
  ultimately show ?thesis using assms(4) mm unfolding memory_ok_def by blast
qed

text \<open>A thread gives up its address space, which is deleted or stays.\<close>

definition detached :: "nat \<Rightarrow> nachos \<Rightarrow> nachos \<Rightarrow> bool" where
  "detached t s s' \<longleftrightarrow> machine s' = machine s \<and> currentThread s' = currentThread s \<and> threadToBeDestroyed s' = threadToBeDestroyed s
     \<and> (\<forall>t'. t' \<noteq> t \<longrightarrow> threads s' t' = threads s t') \<and> th_status (threads s' t) = th_status (threads s t)
     \<and> userRegisters (threads s' t) = userRegisters (threads s t) \<and> shape (th_stack (threads s' t))
     \<and> (th_space (threads s' t) = None \<and> (has_body (th_stack (threads s' t)) \<longrightarrow> has_body (th_stack (threads s t)))
       \<or> th_space (threads s' t) = th_space (threads s t) \<and> \<not> has_body (th_stack (threads s' t)))"

lemma detached_isolated:
  assumes iso: "isolated y" and m: "memory_ok y'" and d: "detached t (kern y) (kern y')" and r: "resumes y' = resumes y"
    and used: "\<And>sp. in_use sp y \<Longrightarrow> \<not> uses_space t sp y \<Longrightarrow> in_use sp y' \<and> space_of sp y' = space_of sp y"
    and live: "\<And>sp. space_live y' sp \<Longrightarrow> space_live y sp"
    and gone: "\<And>sp. th_space (thread_of t y') = Some sp \<Longrightarrow> \<not> space_live y' sp"
  shows "isolated y'"
proof -
  note iso' = iso [unfolded isolated_def]
  note th = iso' [THEN conjunct2, THEN conjunct1, unfolded threads_ok_def]
  have o: "thread_of t' y' = thread_of t' y" if "t' \<noteq> t" for t' using d that by (simp add: detached_def)
  have k: "machine (kern y') = machine (kern y)" "self y' = self y" "threadToBeDestroyed (kern y') = threadToBeDestroyed (kern y)"
      "th_status (thread_of t y') = th_status (thread_of t y)" "userRegisters (thread_of t y') = userRegisters (thread_of t y)" "shape (stack_of t y')"
    using d by (simp_all add: detached_def)
  have nt: "\<not> uses_space t sp y'" for sp using d by (auto simp: detached_def)
  have b: "has_body (stack_of t' y') \<Longrightarrow> has_body (stack_of t' y)" for t' using d o by (cases "t' = t") (auto simp: detached_def)
  have u: "uses_space t' sp y \<and> t' \<noteq> t \<and> in_use sp y' \<and> space_of sp y' = space_of sp y" if "uses_space t' sp y'" for t' sp
  proof -
    have t': "t' \<noteq> t" using that nt by blast
    then have "uses_space t' sp y" using that o by simp
    note t' = t' this
    moreover have "\<not> uses_space t sp y" using th t' by blast
    ultimately show ?thesis using used th by blast
  qed
  have status: "th_status (thread_of t' y') = th_status (thread_of t' y)" for t' using o k(4) by (cases "t' = t") simp_all
  have "shape (stack_of t' y')" for t' using o k(6) th by (cases "t' = t") simp_all
  moreover have "\<not> has_body (stack_of t' y') \<and> th_status (thread_of t' y') \<noteq> DELETED" if "threadToBeDestroyed (kern y') = Some t'" for t'
    using th that k(3) b status by auto
  moreover have "\<not> space_live y' sp" if "\<not> has_body (stack_of t' y')" "th_space (thread_of t' y') = Some sp" for t' sp
  proof (cases "t' = t")
    case True
    then show ?thesis using gone that(2) by simp
  next
    case False
    then show ?thesis using that o [OF False] th live by metis
  qed
  moreover have "t'' = t'" if "uses_space t' sp y'" "uses_space t'' sp y'" for t' t'' sp
  proof -
    have "uses_space t' sp y" "uses_space t'' sp y" using u that by blast+
    then show ?thesis using th by blast
  qed
  ultimately have thr: "threads_ok y'" using u status th k(2) unfolding threads_ok_def by auto
  have "paging_ok y'" unfolding paging_ok_def
  proof (intro allI impI)
    fix t' sp assume a: "uses_space t' sp y'"
    have "if t' = self y then unrestored t' y \<or> loaded sp y else unrestored t' y" using iso' u [OF a] unfolding paging_ok_def by blast
    moreover have "unrestored t' y' = unrestored t' y" using o u [OF a] r by (simp add: unrestored_def)
    moreover have "loaded sp y' = loaded sp y" using u [OF a] k(1) by (simp add: loaded_def)
    ultimately show "if t' = self y' then unrestored t' y' \<or> loaded sp y' else unrestored t' y'" using k(2) by auto
  qed
  moreover have "all_regs_ok (kern y')" using iso' k(1,5) o unfolding all_regs_ok_def by metis
  ultimately show ?thesis using m thr by (simp add: isolated_def)
qed

lemma uses_valid: "isolated y \<Longrightarrow> uses_space t sp y \<Longrightarrow> in_use sp y \<and> as_valid (space_of sp y)"
  by (auto simp: isolated_def threads_ok_def in_use_def)

lemma PCB_destroy_isolated:
  assumes "isolated y" "PCB_destroy p y = Inr y'"
  shows "isolated y' \<and> unaffected y y'"
proof -
  define y0 where "y0 = set_pcb p ((pcb_heap y p)\<lparr>children := List_empty\<rparr>) (y\<lparr>pcb_live := (pcb_live y)(p := False)\<rparr>)"
  have y0: "same_sys y y0" "isolated y0" using same_sys_isolated [of y y0] assms(1) by (simp_all add: y0_def)
  have c: "(case pcb_thread (pcb_heap y0 p) of None \<Rightarrow> Inr y0
     | Some t \<Rightarrow> if t = self y0 then Inr y0 else
         rbind (case th_space (thread_of t y0) of None \<Rightarrow> Inr y0
           | Some sp \<Rightarrow> rbind (if AddrSpace_GetPageTable (space_of sp y0) \<noteq> None then delete_space sp y0 else Inr y0)
               (\<lambda>y1. Inr (set_thread_space t None y1)))
         (\<lambda>y2. let y3 = remove_thread (Some t) y2 in Inr (set_pcb p ((pcb_heap y3 p)\<lparr>pcb_thread := None\<rparr>) y3))) = Inr y'"
    using assms(2) unfolding PCB_destroy_def Let_def y0_def by (simp split: if_splits)
  show ?thesis
  proof (cases "pcb_thread (pcb_heap y0 p) = None \<or> pcb_thread (pcb_heap y0 p) = Some (self y0)")
    case True
    then have "y' = y0" using c by auto
    then show ?thesis using y0 same_unaffected by blast
  next
    case False
    then obtain t where t: "pcb_thread (pcb_heap y0 p) = Some t" "t \<noteq> self y0" by auto
    obtain y2 where y2: "(case th_space (thread_of t y0) of None \<Rightarrow> Inr y0
           | Some sp \<Rightarrow> rbind (if AddrSpace_GetPageTable (space_of sp y0) \<noteq> None then delete_space sp y0 else Inr y0)
               (\<lambda>y1. Inr (set_thread_space t None y1))) = Inr y2" "same_sys y2 y'"
      using c t by (auto simp: result_inv Let_def)
    have "isolated y2 \<and> unaffected y0 y2"
    proof (cases "th_space (thread_of t y0)")
      case None
      then show ?thesis using y2(1) y0 same_unaffected by auto
    next
      case (Some sp)
      then obtain y1 where y1: "(if AddrSpace_GetPageTable (space_of sp y0) \<noteq> None then delete_space sp y0 else Inr y0) = Inr y1" "y2 = set_thread_space t None y1"
        using y2(1) by (auto simp: result_inv)
      have sh: "shape (stack_of t y0)" using y0(2) by (simp add: isolated_def threads_ok_def)
      show ?thesis
      proof (cases "AddrSpace_GetPageTable (space_of sp y0) = None")
        case True
        then have y2': "y2 = set_thread_space t None y0" using y1 by simp
        have "isolated y2"
          by (rule detached_isolated [OF y0(2), of _ t])
            (use y0(2) sh in \<open>auto simp: y2' detached_def set_thread_def isolated_def memory_ok_def in_use_def\<close>)
        then show ?thesis using t(2) by (auto simp: unaffected_def y2' set_thread_def in_use_def)
      next
        case False
        then have d: "delete_space sp y0 = Inr y1" using y1(1) by simp
        have "space_live y0 sp" using d by (auto simp: delete_space_def split: if_splits)
        then have u: "uses_space t sp y0" using y0(2) Some by (auto simp: isolated_def threads_ok_def)
        have m0: "memory_ok y0" "as_valid (space_of sp y0)" using y0(2) uses_valid [OF y0(2) u] by (simp_all add: isolated_def)
        from delete_space_result [OF d m0] obtain mm pt where pt: "in_use sp y0" "as_pageTable (space_of sp y0) = Some pt" "MemoryManager_wf mm"
            "free_pages mm = free_pages (sys_mm y0) \<union> set (frames pt)"
            "y1 = set_space sp ((space_of sp y0)\<lparr>as_pageTable := None\<rparr>) (y0\<lparr>sys_mm := mm, space_live := (space_live y0)(sp := False)\<rparr>)" by blast
        have m2: "memory_ok y2" using deleted_memory_ok [OF m0(1) pt] by (simp add: y1(2) memory_ok_def in_use_def set_thread_def)
        have un: "in_use a y2 \<longleftrightarrow> a \<noteq> sp \<and> in_use a y0" "a \<noteq> sp \<Longrightarrow> space_of a y2 = space_of a y0" for a
          using deleted_in_use [OF pt(5), of a] by (simp_all add: y1(2) in_use_def set_thread_def)
        have "isolated y2"
          by (rule detached_isolated [OF y0(2) m2, of t])
            (use sh Some u un pt(5) in \<open>auto simp: y1(2) detached_def set_thread_def split: if_splits\<close>)
        moreover have "unaffected y0 y2"
          using t(2) un pt(4,5) by (auto simp: unaffected_def y1(2) set_thread_def split: if_splits)
        ultimately show ?thesis by blast
      qed
    qed
    then show ?thesis using same_unaffected [OF y0(1)] same_unaffected [OF y2(2)] unaffected_trans same_sys_isolated [OF y2(2)] by blast
  qed
qed

lemma DeallocatePCB_isolated:
  assumes "isolated y" "PCBManager_DeallocatePCB p y = Inr (r, y')"
  shows "isolated y' \<and> unaffected y y'"
proof (cases "y' = y")
  case True
  then show ?thesis using assms(1) same_unaffected by simp
next
  case False
  then obtain pm y1 pm' where y1: "PCB_destroy p (y\<lparr>pcbManager := pm\<rparr>) = Inr y1" "y' = y1\<lparr>pcbManager := pm'\<rparr>"
    using assms(2) by (auto simp: PCBManager_DeallocatePCB_def Let_def result_inv split: if_splits)
  have s: "same_sys y (y\<lparr>pcbManager := pm\<rparr>)" "same_sys y1 y'" by (simp_all add: y1(2))
  have "isolated (y\<lparr>pcbManager := pm\<rparr>)" using same_sys_isolated [OF s(1)] assms(1) by simp
  from PCB_destroy_isolated [OF this y1(1)] show ?thesis
    using same_unaffected [OF s(1)] same_unaffected [OF s(2)] unaffected_trans same_sys_isolated [OF s(2)] by blast
qed

lemma decspn_isolated:
  assumes "isolated y" "decspn p y = Inr y'"
  shows "isolated y' \<and> unaffected y y'"
proof (cases "PCB_HasExited (pcb_heap y p)")
  case True
  then show ?thesis using assms DeallocatePCB_isolated by (auto simp: decspn_def result_inv)
next
  case False
  then have "same_sys y y'" using assms(2) by (auto simp: decspn_def)
  then show ?thesis using assms(1) same_sys_isolated same_unaffected by blast
qed

lemma Mapcar_decspn_isolated: "isolated y \<Longrightarrow> Mapcar_decspn cs y = Inr y' \<Longrightarrow> isolated y' \<and> unaffected y y'"
proof (induction cs arbitrary: y)
  case Nil
  then show ?case using same_unaffected by simp
next
  case (Cons c cs)
  then obtain y1 where y1: "decspn c y = Inr y1" "Mapcar_decspn cs y1 = Inr y'" by (auto simp: result_inv)
  then show ?case using decspn_isolated [OF Cons.prems(1) y1(1)] Cons.IH unaffected_trans by blast
qed

end
