(* ===== verification/Nachos_Calls.thy ===== *)
theory Nachos_Calls
  imports Nachos_Syscalls
begin

text \<open>
  The system calls, the user instructions and the start of programs keep the invariant \<open>isolated\<close>, and touch no address space but the one of
  the current thread.
\<close>

section \<open>What a step spares\<close>

definition memory :: "sys \<Rightarrow> nat \<Rightarrow> byte" where
  "memory y = (case machine (kern y) of None \<Rightarrow> (\<lambda>_. 0) | Some m \<Rightarrow> mainMemory m)"

text \<open>The address spaces that exist before and after, except \<open>c\<close>, keep their page tables and the contents of their memory.\<close>

definition spares :: "nat option \<Rightarrow> sys \<Rightarrow> sys \<Rightarrow> bool" where
  "spares c y y' \<longleftrightarrow> (\<forall>sp. in_use sp y \<and> in_use sp y' \<and> c \<noteq> Some sp \<longrightarrow> space_of sp y' = space_of sp y
     \<and> (\<forall>pt x. as_pageTable (space_of sp y) = Some pt \<and> x div PageSize \<in> set (frames pt) \<longrightarrow> memory y' x = memory y x))"

lemma spares_refl [simp]: "spares c y y"
  by (simp add: spares_def)

lemma spares_trans:
  assumes "spares c y y1" "spares c y1 y2" "\<And>sp. in_use sp y \<Longrightarrow> in_use sp y2 \<Longrightarrow> in_use sp y1"
  shows "spares c y y2"
  unfolding spares_def
proof (intro allI impI)
  fix sp assume a: "in_use sp y \<and> in_use sp y2 \<and> c \<noteq> Some sp"
  then have "in_use sp y1" using assms(3) by blast
  then have 1: "space_of sp y1 = space_of sp y \<and> (\<forall>pt x. as_pageTable (space_of sp y) = Some pt \<and> x div PageSize \<in> set (frames pt) \<longrightarrow> memory y1 x = memory y x)"
    and 2: "space_of sp y2 = space_of sp y1 \<and> (\<forall>pt x. as_pageTable (space_of sp y1) = Some pt \<and> x div PageSize \<in> set (frames pt) \<longrightarrow> memory y2 x = memory y1 x)"
    using assms(1,2) a unfolding spares_def by blast+
  then show "space_of sp y2 = space_of sp y
     \<and> (\<forall>pt x. as_pageTable (space_of sp y) = Some pt \<and> x div PageSize \<in> set (frames pt) \<longrightarrow> memory y2 x = memory y x)" by auto
qed

lemma spares_same: "spaces (kern y') = spaces (kern y) \<Longrightarrow> memory y' = memory y \<Longrightarrow> spares c y y'"
  by (simp add: spares_def)

lemma spares_after:
  "spares c y y1 \<Longrightarrow> spaces (kern y2) = spaces (kern y1) \<Longrightarrow> space_live y2 = space_live y1 \<Longrightarrow> memory y2 = memory y1 \<Longrightarrow> spares c y y2"
  unfolding spares_def in_use_def by (simp only: simp_thms)

lemma memory_machine: "machine (kern y') = machine (kern y) \<Longrightarrow> memory y' = memory y"
  by (simp add: memory_def)

lemma unaffected_spares: "unaffected y y' \<Longrightarrow> spares c y y'"
  by (auto simp: unaffected_def spares_def memory_def)

lemma unaffected_in_use: "unaffected y y' \<Longrightarrow> in_use sp y' \<Longrightarrow> in_use sp y"
  by (auto simp: unaffected_def)

section \<open>Registers and the kernel\<close>

definition registers_only :: "sys \<Rightarrow> sys \<Rightarrow> bool" where
  "registers_only y y' \<longleftrightarrow> (\<exists>m r. machine (kern y) = Some m \<and> y' = set_machine (m\<lparr>registers := r\<rparr>) y \<and> (regs_ok (registers m) \<longrightarrow> regs_ok r))"

lemma machine_changed_isolated:
  assumes "isolated y" "machine (kern y) = Some m" "pageTable m' = pageTable m" "pageTableSize m' = pageTableSize m" "machine_ok (Some m')"
  shows "isolated (set_machine m' y)"
proof -
  let ?y = "set_machine m' y"
  have "memory_ok ?y = memory_ok y" "threads_ok ?y = threads_ok y" by (simp_all add: memory_ok_def threads_ok_def in_use_def)
  moreover have "loaded sp ?y = loaded sp y" "unrestored t ?y = unrestored t y" for sp t using assms(2-4) by (simp_all add: loaded_def unrestored_def)
  then have "paging_ok ?y = paging_ok y" by (simp add: paging_ok_def)
  moreover have "all_regs_ok (kern ?y)" using assms(1,5) by (simp add: isolated_def all_regs_ok_def)
  ultimately show ?thesis using assms(1) by (simp add: isolated_def)
qed

lemma registers_only_keeps:
  assumes "registers_only y y'"
  shows "isolated y \<Longrightarrow> isolated y'" "spares c y y'" "self y' = self y" "threads (kern y') = threads (kern y)" "spaces (kern y') = spaces (kern y)"
    "space_live y' = space_live y" "resumes y' = resumes y" "sys_mm y' = sys_mm y" "pcb_heap y' = pcb_heap y"
proof -
  obtain m r where m: "machine (kern y) = Some m" "y' = set_machine (m\<lparr>registers := r\<rparr>) y" "regs_ok (registers m) \<longrightarrow> regs_ok r"
    using assms unfolding registers_only_def by blast
  show "isolated y'" if "isolated y"
    using machine_changed_isolated [OF that m(1), of "m\<lparr>registers := r\<rparr>"] m that
    by (simp add: isolated_def all_regs_ok_def machine_ok_def)
  show "spares c y y'" by (rule spares_same) (simp_all add: m memory_def)
  show "self y' = self y" "threads (kern y') = threads (kern y)" "spaces (kern y') = spaces (kern y)"
    "space_live y' = space_live y" "resumes y' = resumes y" "sys_mm y' = sys_mm y" "pcb_heap y' = pcb_heap y" by (simp_all add: m(2))
qed

lemma registers_onlyI:
  "machine (kern y) = Some m \<Longrightarrow> y' = set_machine (m\<lparr>registers := r\<rparr>) y \<Longrightarrow> (regs_ok (registers m) \<Longrightarrow> regs_ok r) \<Longrightarrow> registers_only y y'"
  unfolding registers_only_def by blast

lemma registers_only_trans:
  assumes "registers_only y y1" "registers_only y1 y2"
  shows "registers_only y y2"
proof -
  obtain m r where 1: "machine (kern y) = Some m" "y1 = set_machine (m\<lparr>registers := r\<rparr>) y" "regs_ok (registers m) \<longrightarrow> regs_ok r"
    using assms(1) unfolding registers_only_def by blast
  then obtain r2 where 2: "y2 = set_machine (m\<lparr>registers := r2\<rparr>) y1" "regs_ok r \<longrightarrow> regs_ok r2"
    using assms(2) unfolding registers_only_def by auto
  have "y2 = set_machine (m\<lparr>registers := r2\<rparr>) y" by (simp add: 1(2) 2(1) set_machine_def set_kern_def)
  then show ?thesis using registers_onlyI [OF 1(1)] 1(3) 2(2) by blast
qed

lemma with_machine_Inr [result_inv]: "with_machine f y = Inr r \<longleftrightarrow> (\<exists>m. machine (kern y) = Some m \<and> f m = Inr r)"
  by (auto simp: with_machine_def split: option.splits)

lemma with_space_Inr [result_inv]: "with_space f y = Inr r \<longleftrightarrow> (\<exists>sp. th_space (current (kern y)) = Some sp \<and> f sp = Inr r)"
  by (auto simp: with_space_def split: option.splits)

lemma WriteRegister_Inr [result_inv]: "Machine_WriteRegister m i v = Inr m' \<longleftrightarrow> 0 \<le> i \<and> i < int NumTotalRegs \<and> m' = set_reg (nat i) v m"
  by (auto simp: Machine_WriteRegister_def ASSERT_def)

lemma ReadRegister_Inr: "Machine_ReadRegister m i = Inr v \<longleftrightarrow> 0 \<le> i \<and> i < int NumTotalRegs \<and> v = registers m (nat i)"
  by (auto simp: Machine_ReadRegister_def ASSERT_def)

lemma write_result_registers: "write_result r y = Inr y' \<Longrightarrow> registers_only y y'"
  by (auto simp: write_result_def result_inv set_reg_def regs_ok_def intro!: registers_onlyI)

lemma incrementPC_registers: "incrementPC y = Inr y' \<Longrightarrow> registers_only y y'"
  by (auto simp: incrementPC_def result_inv set_reg_def regs_ok_def intro!: registers_onlyI)

lemma return_value_registers: "return_value r = Inr y' \<Longrightarrow> registers_only (snd r) y'"
  by (auto simp: return_value_def result_inv dest!: write_result_registers incrementPC_registers intro: registers_only_trans)

lemma zero_registers_Inr: "zero_registers is m = Inr m' \<Longrightarrow> m' = m\<lparr>registers := (\<lambda>i. if i \<in> set is then 0 else registers m i)\<rparr>"
proof (induction "is" arbitrary: m)
  case (Cons a "is")
  then have "zero_registers is (m\<lparr>registers := (registers m)(a := 0)\<rparr>) = Inr m'" by (auto simp: result_inv set_reg_def)
  from Cons.IH [OF this] show ?case by (auto simp: fun_eq_iff)
qed simp

lemma init_registers_registers: "init_registers sp y = Inr y' \<Longrightarrow> registers_only y y'"
  by (auto simp: init_registers_def AddrSpace_InitRegisters_def result_inv set_reg_def regs_ok_def
      dest!: zero_registers_Inr intro!: registers_onlyI)

lemma at_body_cases: "at_body ks \<Longrightarrow> \<exists>f r. ks = BodyK f # r"
  by (cases ks rule: at_body.cases) auto

lemma at_body_has_body: "at_body ks \<Longrightarrow> has_body ks"
  using at_body_cases by fastforce

text \<open>Routines of the kernel that do not switch.\<close>

lemma goes_on_isolated:
  assumes iso: "isolated y" and b: "at_body (stack_of (self y) y)" and s: "goes_on (kern y) s" and d: "threadToBeDestroyed s = threadToBeDestroyed (kern y)"
  shows "isolated (set_kern s y)"
proof -
  let ?c = "self y"
  note iso' = iso [unfolded isolated_def]
  note th = iso' [THEN conjunct2, THEN conjunct1, unfolded threads_ok_def]
  have sp: "spaces s = spaces (kern y)" "machine_kept (machine (kern y)) (machine s)" "all_regs_ok s" "currentThread s = ?c"
      "\<And>t. th_space (threads s t) = th_space (thread_of t y)" "\<And>t. t \<noteq> ?c \<Longrightarrow> th_stack (threads s t) = stack_of t y"
      "\<And>t. th_status (thread_of t y) \<noteq> DELETED \<Longrightarrow> th_status (threads s t) \<noteq> DELETED"
    using s iso' by (simp_all add: goes_on_def keeps_def)
  obtain ks where ks: "plain ks" "th_stack (threads s ?c) = ks @ stack_of ?c y" using s sp(4) by (auto simp: goes_on_def)
  have hb: "has_body (th_stack (threads s t)) \<longleftrightarrow> has_body (stack_of t y)" for t using ks sp(6) by (cases "t = ?c") auto
  have "shape (th_stack (threads s t))" for t using ks sp(6) th by (cases "t = ?c") (simp_all add: shape_plain)
  moreover have "th_status (threads s (currentThread s)) \<noteq> DELETED" using sp(4,7) th by auto
  moreover have "\<not> has_body (stack_of t y) \<and> th_status (threads s t) \<noteq> DELETED" if "threadToBeDestroyed s = Some t" for t
    using d that th sp(7) by auto
  ultimately have thr: "threads_ok (set_kern s y)" using threads_ok_kern [OF _ sp(1) _ sp(5) _ hb] iso' by blast
  have nr: "\<nexists>r. stack_of ?c y = RunRestK # r" using at_body_cases [OF b] by auto
  have "paging_ok (set_kern s y)" unfolding paging_ok_def
  proof (intro allI impI)
    fix t p assume "uses_space t p (set_kern s y)"
    then have u: "uses_space t p y" using hb sp(5) by simp
    have pk: "if t = ?c then unrestored t y \<or> loaded p y else unrestored t y" using iso' u unfolding paging_ok_def by blast
    have l: "loaded p (set_kern s y)" if "loaded p y" using loaded_kept [OF that sp(1,2)] .
    show "if t = self (set_kern s y) then unrestored t (set_kern s y) \<or> loaded p (set_kern s y) else unrestored t (set_kern s y)"
      using pk sp(4,6) [of] l nr by (cases "t = ?c") (auto simp: unrestored_def)
  qed
  then show ?thesis using thr iso' sp(3) memory_ok_spaces [OF sp(1)] by (simp add: isolated_def)
qed

lemma goes_on_spares: "goes_on (kern y) s \<Longrightarrow> spares c y (set_kern s y)"
  by (rule spares_same) (auto simp: goes_on_def keeps_def machine_kept_def same_memory_def memory_def split: option.splits)

section \<open>Exit and Kill\<close>

lemma delete_own_isolated:
  assumes iso: "isolated y" and u: "uses_space t sp y" and d: "delete_space sp y = Inr y1"
    and k: "detached t (kern y1) s" "spaces s = spaces (kern y1)" "\<not> has_body (th_stack (threads s t)) \<or> th_space (threads s t) = None"
  shows "isolated (set_kern s y1)" "spares (Some sp) y y1" "\<And>q. in_use q y1 \<Longrightarrow> in_use q y \<and> q \<noteq> sp" "space_live y1 = (space_live y)(sp := False)"
    "memory_ok y1" "free_pages (sys_mm y) \<subseteq> free_pages (sys_mm y1)" "threads (kern y1) = threads (kern y)" "machine (kern y1) = machine (kern y)" "self y1 = self y"
    "resumes y1 = resumes y" "pcb_heap y1 = pcb_heap y"
proof -
  have m: "memory_ok y" "as_valid (space_of sp y)" using iso uses_valid [OF iso u] by (simp_all add: isolated_def)
  from delete_space_result [OF d m] obtain mm pt where pt: "in_use sp y" "as_pageTable (space_of sp y) = Some pt" "MemoryManager_wf mm"
      "free_pages mm = free_pages (sys_mm y) \<union> set (frames pt)"
      "y1 = set_space sp ((space_of sp y)\<lparr>as_pageTable := None\<rparr>) (y\<lparr>sys_mm := mm, space_live := (space_live y)(sp := False)\<rparr>)" by blast
  show m1: "memory_ok y1" using deleted_memory_ok [OF m(1) pt] .
  have un: "in_use a y1 \<longleftrightarrow> a \<noteq> sp \<and> in_use a y" "a \<noteq> sp \<Longrightarrow> space_of a y1 = space_of a y" for a
    using deleted_in_use [OF pt(5), of a] by blast+
  show f: "space_live y1 = (space_live y)(sp := False)" "threads (kern y1) = threads (kern y)" "machine (kern y1) = machine (kern y)" "self y1 = self y" "resumes y1 = resumes y"
      "pcb_heap y1 = pcb_heap y"
    by (simp_all add: pt(5))
  show "in_use q y \<and> q \<noteq> sp" if "in_use q y1" for q using that un by blast
  show "spares (Some sp) y y1" using un f(3) by (auto simp: spares_def memory_def)
  show "free_pages (sys_mm y) \<subseteq> free_pages (sys_mm y1)" using pt(4,5) by auto
  have c: "threadToBeDestroyed (kern y1) = threadToBeDestroyed (kern y)" by (simp add: pt(5))
  have dt: "detached t (kern y) s" using k(1) by (simp add: detached_def f c)
  have i: "in_use a (set_kern s y1) \<longleftrightarrow> in_use a y1" for a using k(2) by (simp add: in_use_def)
  show "isolated (set_kern s y1)"
  proof (rule detached_isolated [OF iso _ _ _ _ _ _, of _ t])
    show "memory_ok (set_kern s y1)" using m1 k(2) by (simp add: memory_ok_spaces)
    show "detached t (kern y) (kern (set_kern s y1))" using dt by simp
    show "resumes (set_kern s y1) = resumes y" using f by simp
    show "in_use q (set_kern s y1) \<and> space_of q (set_kern s y1) = space_of q y" if "in_use q y" "\<not> uses_space t q y" for q
      using that u un i k(2) by auto
    show "space_live y q" if "space_live (set_kern s y1) q" for q using that f(1) by (auto split: if_splits)
    show "\<not> space_live (set_kern s y1) q" if "th_space (thread_of t (set_kern s y1)) = Some q" for q
    proof -
      have "th_space (threads s t) = th_space (thread_of t y)" using that dt by (auto simp: detached_def)
      then show ?thesis using that u f(1) by simp
    qed
  qed
qed

lemma in_use_table:
  assumes "isolated y" "in_use sp y"
  obtains pt where "as_pageTable (space_of sp y) = Some pt" "length pt = as_numPages (space_of sp y)" "space_ok pt" "set (frames pt) \<inter> free_pages (sys_mm y) = {}"
    "MemoryManager_wf (sys_mm y)"
  using assms unfolding isolated_def memory_ok_def by blast

lemma shape_tl: "at_body ks \<Longrightarrow> shape ks \<Longrightarrow> shape (tl ks) \<and> \<not> has_body (tl ks)"
  using at_body_cases by fastforce

lemma doExit_isolated:
  assumes iso: "isolated y" and b: "at_body (stack_of (self y) y)" and e: "doExit status y = Inr (r, y')"
  shows "isolated y' \<and> spares (th_space (current (kern y))) y y' \<and> (r \<longrightarrow> y' = y)"
proof -
  obtain sp where sp: "th_space (current (kern y)) = Some sp" using e by (auto simp: doExit_def with_space_Inr)
  have u: "uses_space (self y) sp y" using sp at_body_has_body [OF b] by simp
  then have "as_pageTable (space_of sp y) \<noteq> None" using uses_valid [OF iso u] in_use_table [OF iso] by (metis option.distinct(1))
  moreover define p where "p = as_pcb (space_of sp y)"
  moreover define y1 where "y1 = set_pcb p ((pcb_heap y p)\<lparr>exitStatus := status\<rparr>) y"
  moreover define y2 where "y2 = remove_thread (pcb_thread (pcb_heap y1 p)) y1"
  ultimately obtain y3 y4 y5 where s: "same_sys y y2" "PCB_DeleteExitedChildrenSetParentNull p y2 = Inr y3"
      "(if parent (pcb_heap y3 p) = None then rbind (PCBManager_DeallocatePCB p y3) (\<lambda>(r, y4). Inr y4) else Inr y3) = Inr y4"
      "delete_space sp y4 = Inr y5" "y' = set_kern (pop (kern y5)) y5" "\<not> r"
    using e sp by (auto simp: doExit_def with_space_Inr AddrSpace_GetPageTable_def Let_def result_inv simp del: sys_fields)
  have i2: "isolated y2" using same_sys_isolated [OF s(1)] iso by simp
  have 3: "isolated y3 \<and> unaffected y2 y3" using Mapcar_decspn_isolated [OF i2] s(2) by (simp add: PCB_DeleteExitedChildrenSetParentNull_def)
  have "isolated y4 \<and> unaffected y3 y4"
    using s(3) 3 DeallocatePCB_isolated same_unaffected by (auto simp: result_inv split: if_splits)
  then have 4: "isolated y4" "unaffected y y4" using 3 same_unaffected [OF s(1)] unaffected_trans by blast+
  have t4: "self y4 = self y" "thread_of (self y) y4 = thread_of (self y) y" using 4(2) by (simp_all add: unaffected_def)
  have u4: "uses_space (self y) sp y4" using u t4(2) by simp
  have sh: "shape (tl (stack_of (self y) y)) \<and> \<not> has_body (tl (stack_of (self y) y))"
    using shape_tl [OF b] iso by (simp add: isolated_def threads_ok_def)
  have t5: "threads (kern y5) = threads (kern y4)" "self y5 = self y4" using s(4) by (auto simp: delete_space_def result_inv split: if_splits)
  have d: "detached (self y) (kern y5) (pop (kern y5))" using sh t4 t5 by (auto simp: detached_def pop_def set_thread_def)
  have nb: "\<not> has_body (th_stack (threads (pop (kern y5)) (self y)))" using sh t4 t5 by (simp add: pop_def set_thread_def)
  note del = delete_own_isolated [OF 4(1) u4 s(4) d]
  have "isolated y'" using del(1) nb s(5) by simp
  moreover have "spares (Some sp) y y5"
    using spares_trans [OF unaffected_spares [OF 4(2)] del(2)] del(3) nb by auto
  then have "spares (Some sp) y y'" by (rule spares_after) (simp_all add: s(5) memory_def)
  ultimately show ?thesis using sp s(6) by simp
qed

lemma doKill_isolated:
  assumes iso: "isolated y" and b: "at_body (stack_of (self y) y)" and e: "doKill pid y = Inr (r, y')"
  shows "isolated y' \<and> spares (th_space (current (kern y))) y y' \<and> (r \<noteq> None \<longrightarrow> self y' = self y \<and> at_body (stack_of (self y') y'))"
proof -
  obtain pcb where g: "PCBManager_GetPCB pid y = Inr pcb" using e by (auto simp: doKill_def result_inv)
  show ?thesis
  proof (cases pcb)
    case None
    then show ?thesis using e g iso b by (auto simp: doKill_def)
  next
    case (Some p)
    then obtain sp where sp: "th_space (current (kern y)) = Some sp" using e g by (auto simp: doKill_def with_space_Inr)
    show ?thesis
    proof (cases "p = as_pcb (space_of sp y)")
      case True
      then obtain ret where "doExit 0 y = Inr (ret, y')" "r = None"
        using e g Some sp by (auto simp: doKill_def result_inv ASSERT_def split: if_splits)
      then show ?thesis using doExit_isolated [OF iso b] by auto
    next
      case False
      let ?y1 = "remove_thread (pcb_thread (pcb_heap y p)) y"
      define y2 where "y2 = (case parent (pcb_heap ?y1 p) of None \<Rightarrow> ?y1 | Some pp \<Rightarrow> snd (PCB_RemoveChild pp p ?y1))"
      obtain y3 t where s: "PCB_DeleteExitedChildrenSetParentNull p y2 = Inr y3" "th_status (thread_of t y3) \<noteq> DELETED" "r = Some 0"
          "y' = set_kern (Thread_setStatus t BLOCKED (kern y3)) y3"
        using e g Some sp False by (auto simp: doKill_def result_inv Let_def y2_def split: option.splits if_splits)
      have "same_sys ?y1 y2" using RemoveChild_same by (auto simp: y2_def split: option.split)
      then have s2: "same_sys y y2" using same_sys_trans by (metis same_sys_remove_thread same_sys_refl)
      have i2: "isolated y2" using same_sys_isolated [OF s2] iso by simp
      have 3: "isolated y3" "unaffected y2 y3" using Mapcar_decspn_isolated [OF i2] s(1) by (auto simp: PCB_DeleteExitedChildrenSetParentNull_def)
      have u3: "unaffected y y3" using unaffected_trans [OF same_unaffected [OF s2] 3(2)] .
      then have t3: "self y3 = self y" "thread_of (self y) y3 = thread_of (self y) y" by (simp_all add: unaffected_def)
      have g3: "goes_on (kern y3) (Thread_setStatus t BLOCKED (kern y3))" by (rule goes_on_setStatus) simp_all
      have "isolated y'" unfolding s(4)
        by (rule goes_on_isolated [OF 3(1) _ g3]) (use t3 b in \<open>simp_all add: Thread_setStatus_def set_thread_def\<close>)
      moreover have "spares (Some sp) y y'"
        using spares_trans [OF unaffected_spares [OF u3] goes_on_spares [OF g3]] unaffected_in_use [OF u3] s(4) by (auto simp: in_use_def Thread_setStatus_def set_thread_def)
      ultimately show ?thesis using sp t3 b s(4) by (auto simp: Thread_setStatus_def set_thread_def)
    qed
  qed
qed

section \<open>New address spaces\<close>

lemma new_AddrSpace_fields [simp]:
  "sys_mm (new_AddrSpace sp x mm m y) = mm" "space_live (new_AddrSpace sp x mm m y) = (space_live y)(sp := True)"
  "kern (new_AddrSpace sp x mm m y) = (kern y)\<lparr>spaces := (spaces (kern y))(sp := x), machine := Some m\<rparr>" "resumes (new_AddrSpace sp x mm m y) = resumes y"
  "pcb_heap (new_AddrSpace sp x mm m y) = pcb_heap y" "pcb_live (new_AddrSpace sp x mm m y) = pcb_live y" "pcbManager (new_AddrSpace sp x mm m y) = pcbManager y"
  by (simp_all add: new_AddrSpace_def)

lemma new_in_use:
  assumes "\<not> space_live y sp"
  shows "in_use q (new_AddrSpace sp x mm m y) \<longleftrightarrow> (if q = sp then as_valid x else in_use q y)" "in_use q y \<Longrightarrow> q \<noteq> sp"
    "q \<noteq> sp \<Longrightarrow> space_of q (new_AddrSpace sp x mm m y) = space_of q y"
  using assms by (auto simp: in_use_def)

lemma new_memory_ok:
  assumes "memory_ok y" "\<not> space_live y sp" "space_built x (sys_mm y) mm mem mem'"
  shows "memory_ok (new_AddrSpace sp x mm m y)"
proof -
  let ?y = "new_AddrSpace sp x mm m y"
  note m = assms(1) [unfolded memory_ok_def] and nu = new_in_use [OF assms(2)]
  obtain pt where pt: "MemoryManager_wf mm" "as_pageTable x = Some pt" "length pt = as_numPages x" "space_ok pt" "set (frames pt) \<subseteq> free_pages (sys_mm y)"
      "free_pages mm = free_pages (sys_mm y) - set (frames pt)" using assms(3) unfolding space_built_def by blast
  have x: "space_of sp ?y = x" by simp
  have old: "\<exists>p. as_pageTable (space_of q ?y) = Some p \<and> length p = as_numPages (space_of q ?y) \<and> space_ok p \<and> set (frames p) \<inter> free_pages (sys_mm y) = {}"
    if "in_use q ?y" "q \<noteq> sp" for q
  proof -
    have "in_use q y" "space_of q ?y = space_of q y" using nu(1,3) [of q] that by simp_all
    then show ?thesis using m by metis
  qed
  have "\<exists>p. as_pageTable (space_of q ?y) = Some p \<and> length p = as_numPages (space_of q ?y) \<and> space_ok p \<and> set (frames p) \<inter> free_pages (sys_mm ?y) = {}"
    if i: "in_use q ?y" for q
  proof (cases "q = sp")
    case True
    then show ?thesis using pt by auto
  next
    case False
    then obtain p where "as_pageTable (space_of q ?y) = Some p" "length p = as_numPages (space_of q ?y)" "space_ok p" "set (frames p) \<inter> free_pages (sys_mm y) = {}"
      using old [OF i False] by blast
    then show ?thesis using pt(6) by auto
  qed
  moreover have "set (frames p) \<inter> set (frames p') = {}"
    if a: "in_use q ?y" "in_use q' ?y" "q \<noteq> q'" "as_pageTable (space_of q ?y) = Some p" "as_pageTable (space_of q' ?y) = Some p'" for q q' p p'
  proof -
    consider "q = sp" | "q' = sp" "q \<noteq> sp" | "q \<noteq> sp" "q' \<noteq> sp" by blast
    then show ?thesis
    proof cases
      case 1
      then have "p = pt" "q' \<noteq> sp" using a(3,4) pt(2) by auto
      then show ?thesis using old [OF a(2)] a(5) pt(5) by fastforce
    next
      case 2
      then have "p' = pt" using a(5) pt(2) by simp
      then show ?thesis using old [OF a(1)] 2 a(4) pt(5) by fastforce
    next
      case 3
      then show ?thesis using m a nu(1,3) by metis
    qed
  qed
  moreover have "MemoryManager_wf (sys_mm ?y)" using pt(1) by simp
  ultimately show ?thesis unfolding memory_ok_def by blast
qed

lemma new_spares:
  assumes iso: "isolated y" and sp: "\<not> space_live y sp" and x: "space_built x (sys_mm y) mm (mainMemory m0) (mainMemory m)" and m: "machine (kern y) = Some m0"
  shows "spares c y (new_AddrSpace sp x mm m y)"
  unfolding spares_def
proof (intro allI impI)
  let ?y = "new_AddrSpace sp x mm m y"
  fix q assume q: "in_use q y \<and> in_use q ?y \<and> c \<noteq> Some q"
  then have s: "space_of q ?y = space_of q y" using new_in_use [OF sp] by metis
  obtain pt where pt: "as_pageTable (space_of q y) = Some pt" "set (frames pt) \<inter> free_pages (sys_mm y) = {}" using in_use_table [OF iso] q by metis
  obtain pt' where "set (frames pt') \<subseteq> free_pages (sys_mm y)" "\<forall>a. a div PageSize \<notin> set (frames pt') \<longrightarrow> mainMemory m a = mainMemory m0 a"
    using x unfolding space_built_def by blast
  then have "mainMemory m a = mainMemory m0 a" if "a div PageSize \<in> set (frames pt)" for a using that pt(2) by blast
  then show "space_of q ?y = space_of q y \<and> (\<forall>pt a. as_pageTable (space_of q y) = Some pt \<and> a div PageSize \<in> set (frames pt) \<longrightarrow> memory ?y a = memory y a)"
    using s pt(1) m by (simp add: memory_def)
qed

lemma invalid_isolated:
  assumes iso: "isolated y" and sp: "\<not> space_live y sp" "\<And>t. th_space (thread_of t y) \<noteq> Some sp" and x: "\<not> as_valid x" and m: "machine (kern y) = Some m"
  shows "isolated (new_AddrSpace sp x (sys_mm y) m y)" "spares c y (new_AddrSpace sp x (sys_mm y) m y)"
    "in_use q (new_AddrSpace sp x (sys_mm y) m y) \<Longrightarrow> in_use q y"
proof -
  let ?y = "new_AddrSpace sp x (sys_mm y) m y"
  note i = iso [unfolded isolated_def]
  have u: "in_use q ?y \<longleftrightarrow> in_use q y" for q using new_in_use(1) [OF sp(1), of q x "sys_mm y" m] new_in_use(2) [OF sp(1), of q] x by (auto split: if_splits)
  have s: "space_of q ?y = space_of q y" if "in_use q y" for q using new_in_use [OF sp(1)] that by metis
  have "memory_ok ?y" using i u s unfolding memory_ok_def by simp metis
  moreover have "threads_ok ?y" using i sp(2) unfolding threads_ok_def by (simp add: u)
  moreover have l: "loaded q ?y = loaded q y" if "q \<noteq> sp" for q using that m by (simp add: loaded_def)
  have "paging_ok ?y" unfolding paging_ok_def
  proof (intro allI impI)
    fix t q assume "uses_space t q ?y"
    then have t: "uses_space t q y" by simp
    then have "q \<noteq> sp" using sp(2) by auto
    moreover have "if t = self y then unrestored t y \<or> loaded q y else unrestored t y" using i t unfolding paging_ok_def by blast
    moreover have "unrestored t ?y = unrestored t y" by (simp add: unrestored_def)
    ultimately show "if t = self ?y then unrestored t ?y \<or> loaded q ?y else unrestored t ?y" using l [of q] by auto
  qed
  moreover have "all_regs_ok (kern ?y)" using i m by (simp add: all_regs_ok_def)
  ultimately show "isolated ?y" by (simp add: isolated_def)
  show "spares c y ?y" using s m u by (simp add: spares_def memory_def)
  show "in_use q y" if "in_use q ?y" using that u by blast
qed

text \<open>A thread gets a new address space: the thread that executes \<open>Exec\<close>, or the new thread of \<open>Fork\<close>.\<close>

lemma joined_isolated:
  assumes iso: "isolated y" and m: "memory_ok y'"
    and fresh: "\<And>t'. th_space (thread_of t' y) \<noteq> Some sp"
    and old: "\<And>q. in_use q y \<Longrightarrow> in_use q y' \<and> space_of q y' = space_of q y" and live: "\<And>q. space_live y' q \<Longrightarrow> q = sp \<or> space_live y q"
    and others: "\<And>t'. t' \<noteq> t \<Longrightarrow> stack_of t' y' = stack_of t' y \<and> th_space (thread_of t' y') = th_space (thread_of t' y) \<and> th_status (thread_of t' y') = th_status (thread_of t' y)
       \<and> resumes y' t' = resumes y t'"
    and t: "shape (stack_of t y')" "has_body (stack_of t y')" "th_space (thread_of t y') = Some sp" "in_use sp y'"
    and cur: "self y' = self y" "threadToBeDestroyed (kern y') = threadToBeDestroyed (kern y)" "threadToBeDestroyed (kern y) \<noteq> Some t" "th_status (current (kern y')) \<noteq> DELETED"
    and paging: "if t = self y then loaded sp y' else unrestored t y' \<and> (\<forall>q. in_use q y \<and> loaded q y \<longrightarrow> loaded q y')"
    and regs: "all_regs_ok (kern y')"
  shows "isolated y'"
proof -
  note i = iso [unfolded isolated_def]
  note th = i [THEN conjunct2, THEN conjunct1, unfolded threads_ok_def]
  have u: "t' \<noteq> t \<and> uses_space t' q y \<and> in_use q y \<and> q \<noteq> sp \<or> t' = t \<and> q = sp" if "uses_space t' q y'" for t' q
  proof (cases "t' = t")
    case True
    then show ?thesis using that t(3) by auto
  next
    case False
    then have "uses_space t' q y" using that others by simp
    then show ?thesis using False th fresh [of t'] by auto
  qed
  have "shape (stack_of t' y')" for t' using t(1) others th by (cases "t' = t") auto
  moreover have "\<not> has_body (stack_of t' y') \<and> th_status (thread_of t' y') \<noteq> DELETED" if "threadToBeDestroyed (kern y') = Some t'" for t'
    using that cur(2,3) others [of t'] th by auto
  moreover have "\<not> space_live y' q" if a: "\<not> has_body (stack_of t' y')" "th_space (thread_of t' y') = Some q" for t' q
  proof -
    have "t' \<noteq> t" using a(1) t(2) by blast
    then have "\<not> has_body (stack_of t' y) \<and> th_space (thread_of t' y) = Some q" using a others by simp
    then show ?thesis using th live fresh by metis
  qed
  moreover have "in_use q y'" if "uses_space t' q y'" for t' q using u [OF that] old t(4) by blast
  moreover have "t'' = t'" if "uses_space t' q y'" "uses_space t'' q y'" for t' t'' q
    using u [OF that(1)] u [OF that(2)] th by metis
  ultimately have "threads_ok y'" using cur(4) unfolding threads_ok_def by blast
  moreover have "paging_ok y'" unfolding paging_ok_def
  proof (intro allI impI)
    fix t' q assume a: "uses_space t' q y'"
    show "if t' = self y' then unrestored t' y' \<or> loaded q y' else unrestored t' y'"
    proof (cases "t' = t")
      case True
      then show ?thesis using u [OF a] paging cur(1) by auto
    next
      case False
      then have b: "uses_space t' q y" "in_use q y" "q \<noteq> sp" using u [OF a] by auto
      have "if t' = self y then unrestored t' y \<or> loaded q y else unrestored t' y" using i b(1) unfolding paging_ok_def by blast
      moreover have "unrestored t' y' = unrestored t' y" using others [OF False] by (simp add: unrestored_def)
      moreover have "loaded q y'" if "loaded q y" "t' = self y" using paging that False b(2) by auto
      ultimately show ?thesis using cur(1) by auto
    qed
  qed
  ultimately show ?thesis using m regs by (simp add: isolated_def)
qed

section \<open>Exec\<close>

lemma stub_ReadAt_bytes: "reads_bytes (stub_ReadAt f)"
  by (auto simp: reads_bytes_def stub_ReadAt_def ASSERT_def split: if_splits)

definition fresh_alloc :: "alloc \<Rightarrow> sys \<Rightarrow> bool" where
  "fresh_alloc a y \<longleftrightarrow> alloc_ok a y \<and> (\<forall>t. th_space (thread_of t y) \<noteq> Some (new_space a))"

text \<open>The current thread, which has no address space, goes on in a new one.\<close>

lemma entered_isolated:
  assumes iso: "isolated y" and b: "at_body (stack_of (self y) y)" and n: "th_space (current (kern y)) = None"
    and fresh: "\<not> space_live y sp" "\<And>t. th_space (thread_of t y) \<noteq> Some sp"
    and m: "machine (kern y) = Some m0" and x: "space_built x (sys_mm y) mm (mainMemory m0) (mainMemory m)" "m = m0\<lparr>mainMemory := mainMemory m\<rparr>"
    and i: "init_registers sp (set_thread_space (self y) (Some sp) (new_AddrSpace sp x mm m y)) = Inr y5" and r: "restore_space sp y5 = Inr y6"
  shows "isolated y6" "spares c y y6" "self y6 = self y" "stack_of (self y) y6 = stack_of (self y) y" "th_space (current (kern y6)) = Some sp"
    "space_of sp y6 = x" "pcb_heap y6 = pcb_heap y" "resumes y6 = resumes y" "threadToBeDestroyed (kern y6) = threadToBeDestroyed (kern y)"
    "in_use q y6 \<Longrightarrow> q = sp \<or> in_use q y"
proof -
  let ?y3 = "new_AddrSpace sp x mm m y"
  let ?y4 = "set_thread_space (self y) (Some sp) ?y3"
  note reg = init_registers_registers [OF i]
  obtain m4 r5 where m5: "machine (kern ?y4) = Some m4" "y5 = set_machine (m4\<lparr>registers := r5\<rparr>) ?y4" "regs_ok (registers m4) \<longrightarrow> regs_ok r5"
    using reg unfolding registers_only_def by blast
  have m4: "m4 = m" using m5(1) by (simp add: set_thread_def)
  have y6: "y6 = set_machine (AddrSpace_RestoreState x (m\<lparr>registers := r5\<rparr>)) ?y4"
    using r m5(2) m4 by (auto simp: restore_space_def with_machine_Inr set_thread_def set_machine_def set_kern_def)
  have f: "self y6 = self y" "spaces (kern y6) = spaces (kern ?y3)" "space_live y6 = space_live ?y3" "sys_mm y6 = mm" "resumes y6 = resumes y"
      "pcb_heap y6 = pcb_heap y" "threads (kern y6) = (threads (kern y))(self y := (current (kern y))\<lparr>th_space := Some sp\<rparr>)"
      "machine (kern y6) = Some (AddrSpace_RestoreState x (m\<lparr>registers := r5\<rparr>))" "threadToBeDestroyed (kern y6) = threadToBeDestroyed (kern y)"
    by (simp_all add: y6 set_thread_def)
  then show "self y6 = self y" "stack_of (self y) y6 = stack_of (self y) y" "th_space (current (kern y6)) = Some sp" "space_of sp y6 = x" "pcb_heap y6 = pcb_heap y"
    "resumes y6 = resumes y" "threadToBeDestroyed (kern y6) = threadToBeDestroyed (kern y)" by simp_all
  note iso' = iso [unfolded isolated_def]
  have in_use6: "in_use q y6 = in_use q ?y3" for q by (simp add: in_use_def f(2,3))
  have mem: "memory_ok y6" using new_memory_ok [OF _ fresh(1) x(1), of m] iso' f(2,4) by (simp add: memory_ok_def in_use6)
  have v: "as_valid x" using x(1) by (simp add: space_built_def)
  have nu: "in_use q y6 \<longleftrightarrow> q = sp \<or> in_use q y" "in_use q y \<Longrightarrow> space_of q y6 = space_of q y" for q
    using new_in_use [OF fresh(1)] v in_use6 f(2) by auto
  show "q = sp \<or> in_use q y" if "in_use q y6" using that nu by blast
  have rm: "machine_ok (Some m0)" "\<And>t. regs_ok (userRegisters (thread_of t y))" using iso' m by (simp_all add: all_regs_ok_def)
  then have t5: "tlb m0 = None" "regs_ok (registers m0)" by (simp_all add: machine_ok_def)
  have m': "registers m = registers m0" "tlb m = tlb m0" using x(2) by (metis Machine.select_convs(1) Machine.surjective Machine.update_convs(2), metis Machine.select_convs(3) Machine.surjective Machine.update_convs(2))
  have r5: "regs_ok r5" using m5(3) m4 m'(1) t5 by simp
  show "isolated y6"
  proof (rule joined_isolated [OF iso mem fresh(2), of "self y"])
    show "in_use q y6 \<and> space_of q y6 = space_of q y" if "in_use q y" for q using nu that by blast
    show "q = sp \<or> space_live y q" if "space_live y6 q" for q using that f(3) by (auto split: if_splits)
    show "shape (stack_of (self y) y6)" using iso' f(7) by (simp add: threads_ok_def)
    show "has_body (stack_of (self y) y6)" using at_body_has_body [OF b] f(7) by simp
    show "in_use sp y6" using nu by blast
    show "threadToBeDestroyed (kern y) \<noteq> Some (self y)" using iso' at_body_has_body [OF b] by (auto simp: threads_ok_def)
    show "th_status (current (kern y6)) \<noteq> DELETED" using iso' f(1,7) by (simp add: threads_ok_def)
    have "loaded sp y6" using f(2,8) by (simp add: loaded_def AddrSpace_RestoreState_def)
    then show "if self y = self y then loaded sp y6 else unrestored (self y) y6 \<and> (\<forall>q. in_use q y \<and> loaded q y \<longrightarrow> loaded q y6)" by simp
    show "all_regs_ok (kern y6)" using rm(2) r5 t5(1) m'(2) f(7,8) by (simp add: all_regs_ok_def machine_ok_def AddrSpace_RestoreState_def)
  qed (use f in simp_all)
  have "spares c y ?y3" using new_spares [OF iso fresh(1) x(1) m] .
  then show "spares c y y6" by (rule spares_after) (use f in \<open>simp_all add: memory_def AddrSpace_RestoreState_def\<close>)
qed

lemma doExec_isolated:
  assumes iso: "isolated y" and b: "at_body (stack_of (self y) y)" and a: "fresh_alloc a y" and e: "doExec a filename y = Inr (r, y')"
  shows "isolated y' \<and> spares (th_space (current (kern y))) y y' \<and> self y' = self y \<and> stack_of (self y) y' = stack_of (self y) y \<and> resumes y' = resumes y"
proof (cases "stub_Open filename y = None \<or> th_space (current (kern y)) = None")
  case True
  then have "y' = y" using e by (auto simp: doExec_def split: option.splits)
  then show ?thesis using iso by simp
next
  case False
  then obtain f sp where f: "stub_Open filename y = Some f" and sp: "th_space (current (kern y)) = Some sp" by auto
  define p where "p = as_pcb (space_of sp y)"
  obtain y1 where d: "delete_space sp y = Inr y1" using e f sp by (auto simp: doExec_def Let_def result_inv)
  define y2 where "y2 = set_thread_space (self y1) None y1"
  obtain m x mm m1 where x: "machine (kern y2) = Some m"
      "AddrSpace_AddrSpace_pcb (old_header a) (stub_ReadAt f) p (old_space a) (sys_mm y1) m = Inr (x, mm, m1)"
      "if \<not> as_valid x then y' = new_AddrSpace (new_space a) x mm m1 y2 else
         let y3 = new_AddrSpace (new_space a) x mm m1 y2; y4 = set_thread_space (self y3) (Some (new_space a)) y3 in
         (\<exists>y5. init_registers (new_space a) y4 = Inr y5 \<and> restore_space (new_space a) y5 = Inr y')"
    using e f sp d by (auto simp: doExec_def Let_def result_inv y2_def [symmetric] p_def split: if_splits)
  have u: "uses_space (self y) sp y" using sp at_body_has_body [OF b] by simp
  have c1: "self y1 = self y" "threads (kern y1) = threads (kern y)"
    using d by (auto simp: delete_space_def result_inv split: if_splits)
  have k2: "kern y2 = set_thread (self y) ((current (kern y1))\<lparr>th_space := None\<rparr>) (kern y1)" "y2 = set_kern (kern y2) y1"
    by (simp_all add: y2_def c1(1) set_thread_space_def)
  note t1 = c1(2)
  have sh: "shape (stack_of (self y) y)" using iso by (simp add: isolated_def threads_ok_def)
  have det: "detached (self y) (kern y1) (kern y2)" using sh t1 c1(1) by (simp add: k2(1) detached_def set_thread_def)
  note del = delete_own_isolated [OF iso u d det]
  have nu: "th_space (threads (kern y2) (self y)) = None" by (simp add: k2(1) set_thread_def)
  have i2: "isolated y2" using del(1) nu k2 by (simp add: set_thread_def)
  have t2: "self y2 = self y" "stack_of (self y) y2 = stack_of (self y) y" "resumes y2 = resumes y" "sys_mm y2 = sys_mm y1" "space_live y2 = space_live y1"
      "\<And>q. in_use q y2 = in_use q y1"
    using t1 c1(1) del(10) nu k2(1) by (simp_all add: y2_def set_thread_def in_use_def)
  have fr: "\<not> space_live y2 (new_space a)" "\<not> in_use (new_space a) y" "th_space (thread_of t y2) \<noteq> Some (new_space a)" for t
    using a del(4) nu t1 t2(5) k2(1) by (auto simp: fresh_alloc_def alloc_ok_def set_thread_def in_use_def)
  have s2: "spares (Some sp) y y2" using del(2) nu by (auto intro: spares_after simp: y2_def set_thread_def memory_def)
  have un: "in_use q y \<Longrightarrow> q \<noteq> new_space a" for q using fr(2) by auto
  have wf: "MemoryManager_wf (sys_mm y1)" using i2 t2(4) by (simp add: isolated_def memory_ok_def)
  note res = AddrSpace_AddrSpace_pcb_result [OF x(2) wf stub_ReadAt_bytes, folded t2(4)]
  show ?thesis
  proof (cases "as_valid x")
    case False
    then have y': "y' = new_AddrSpace (new_space a) x (sys_mm y2) m y2" using x(3) res by simp
    note inv = invalid_isolated [OF i2 fr(1,3) False x(1)]
    have "spares (Some sp) y y'" using spares_trans [OF s2 inv(2)] inv(3) y' by blast
    then show ?thesis using inv(1) y' sp t2 by simp
  next
    case True
    then obtain y5 where y5: "init_registers (new_space a) (set_thread_space (self y2) (Some (new_space a)) (new_AddrSpace (new_space a) x mm m1 y2)) = Inr y5"
        "restore_space (new_space a) y5 = Inr y'" using x(3) by (auto simp: Let_def)
    have built: "space_built x (sys_mm y2) mm (mainMemory m) (mainMemory m1)" "m1 = m\<lparr>mainMemory := mainMemory m1\<rparr>" using res True by simp_all
    have b2: "at_body (stack_of (self y2) y2)" "th_space (current (kern y2)) = None" using b t2 nu by simp_all
    note ent = entered_isolated [OF i2 b2 fr(1,3) x(1) built y5]
    have "spares (Some sp) y y'" using spares_trans [OF s2 ent(2)] ent(10) un by blast
    then show ?thesis using ent(1,3,4,8) sp t2 by simp
  qed
qed

section \<open>Fork\<close>

lemma save_registers_goes_on:
  "Thread_SaveUserState t s = Inr s' \<Longrightarrow> goes_on s s'"
  by (auto simp: Thread_SaveUserState_def set_thread_def goes_on_def keeps_def all_regs_ok_def machine_ok_def regs_ok_def split: option.splits if_splits)

lemma AllocatePCB_result:
  assumes "PCBManager_AllocatePCB p y = Inr (pid, y1)"
  obtains pm where "y1 = set_pcb p (PCB_PCB pid) (y\<lparr>pcb_live := (pcb_live y)(p := True), pcbManager := pm\<rparr>)"
  using assms by (auto simp: PCBManager_AllocatePCB_def result_inv ASSERT_def split: if_splits)

text \<open>
  The state that \<open>doFork\<close> reaches before it makes the child ready: \<open>p\<close> is the block of the parent, \<open>x\<close> the copied
  address space, and \<open>m\<close> the machine.
\<close>

definition child_start :: "32 word \<Rightarrow> Machine \<Rightarrow> nat \<Rightarrow> 32 word" where
  "child_start functionAddr m = (\<lambda>i. if i < NumTotalRegs
     then ((registers m)(PCReg := functionAddr, PrevPCReg := functionAddr - 4, NextPCReg := functionAddr + 4)) i else 0)"

definition forked :: "alloc \<Rightarrow> 32 word \<Rightarrow> int \<Rightarrow> nat \<Rightarrow> AddrSpace \<Rightarrow> MemoryManager \<Rightarrow> (nat \<Rightarrow> byte) \<Rightarrow> Machine \<Rightarrow> PCBManager \<Rightarrow> sys \<Rightarrow> sys" where
  "forked a functionAddr pid p x mm mem m pm y = (let
     y8 = PCB_AddChild p (new_pcb a) (set_pcb (new_pcb a) ((PCB_PCB pid)\<lparr>pcb_thread := Some (new_thread a), parent := Some p\<rparr>)
       (y\<lparr>pcb_live := (pcb_live y)(new_pcb a := True), pcbManager := pm\<rparr>));
     parent' = (current (kern y))\<lparr>userRegisters := (\<lambda>i. if i < NumTotalRegs then registers m i else userRegisters (current (kern y)) i)\<rparr>;
     child = Thread_Thread\<lparr>th_space := Some (new_space a), userRegisters := child_start functionAddr m,
       th_stack := [SetLevelK IntOn, BodyK pid, FinishK], th_fencepost := Some STACK_FENCEPOST\<rparr>;
     s = (kern y8)\<lparr>spaces := (spaces (kern y))(new_space a := x\<lparr>as_pcb := new_pcb a\<rparr>), machine := Some (m\<lparr>mainMemory := mem\<rparr>),
       threads := (threads (kern y))(self y := parent', new_thread a := child)\<rparr>
     in (set_kern s y8)\<lparr>sys_mm := mm, space_live := (space_live y)(new_space a := True), resumes := (resumes y)(new_thread a := Some ChildStart)\<rparr>)"

lemma doFork_run:
  assumes sp: "th_space (current (kern y)) = Some sp" and iso: "isolated y" and u: "in_use sp y" and t: "new_thread a \<noteq> self y" and n: "new_space a \<noteq> sp"
    and False: "\<not> card (free_pages (sys_mm y)) < as_numPages (space_of sp y)" and y1: "PCBManager_AllocatePCB (new_pcb a) y = Inr (pid, y1)"
    and m: "machine (kern y) = Some m"
  shows "\<exists>x mm mem. AddrSpace_AddrSpace_copy (space_of sp y) (old_space a) (sys_mm y) m = Inr (x, mm, m\<lparr>mainMemory := mem\<rparr>)
    \<and> as_numPages x = as_numPages (space_of sp y) \<and> space_built x (sys_mm y) mm (mainMemory m) mem
    \<and> (let yj = forked a functionAddr pid (as_pcb (space_of sp y)) x mm mem m (pcbManager y1) y in
        doFork a functionAddr y = Inr (pid, set_kern (with_ints_off (Scheduler_ReadyToRun (new_thread a)) (kern yj)) yj))"
proof -
  obtain pt where pt: "as_pageTable (space_of sp y) = Some pt" "length pt = as_numPages (space_of sp y)" "space_ok pt" "set (frames pt) \<inter> free_pages (sys_mm y) = {}"
    "MemoryManager_wf (sys_mm y)" using in_use_table [OF iso u] .
  have g: "MemoryManager_GetFreePageCount (sys_mm y) = Inr (int (card (free_pages (sys_mm y))))" by (simp add: MemoryManager_GetFreePageCount_def BitMap_NumClear_ok)
  obtain pm where pm: "y1 = set_pcb (new_pcb a) (PCB_PCB pid) (y\<lparr>pcb_live := (pcb_live y)(new_pcb a := True), pcbManager := pm\<rparr>)"
    using AllocatePCB_result [OF y1] .
  have k1: "kern y1 = kern y" "sys_mm y1 = sys_mm y" by (simp_all add: pm)
  obtain pt' mm mem where c: "AddrSpace_AddrSpace_copy (space_of sp y) (old_space a) (sys_mm y) m
      = Inr ((old_space a)\<lparr>as_valid := True, as_pageTable := Some pt', as_numPages := as_numPages (space_of sp y)\<rparr>, mm, m\<lparr>mainMemory := mem\<rparr>)"
      "MemoryManager_wf mm" "space_ok pt'" "length pt' = as_numPages (space_of sp y)" "set (frames pt') \<subseteq> free_pages (sys_mm y)"
      "free_pages mm = free_pages (sys_mm y) - set (frames pt')" "\<forall>x. x div PageSize \<notin> set (frames pt') \<longrightarrow> mem x = mainMemory m x"
    using AddrSpace_AddrSpace_copy_ok [OF pt(5,1,2,3,4), of "old_space a" m] False by (metis not_less)
  define x where "x = (old_space a)\<lparr>as_valid := True, as_pageTable := Some pt', as_numPages := as_numPages (space_of sp y)\<rparr>"
  have built: "space_built x (sys_mm y) mm (mainMemory m) mem" using c by (simp add: space_built_def x_def)
  have v: "as_valid x" "as_numPages x = as_numPages (space_of sp y)" by (simp_all add: x_def)
  define r1 where "r1 = (registers m)(PCReg := functionAddr, PrevPCReg := functionAddr - 4, NextPCReg := functionAddr + 4)"
  have cr: "child_registers functionAddr (m\<lparr>mainMemory := mem\<rparr>) = Inr (m\<lparr>mainMemory := mem, registers := r1\<rparr>)"
    by (simp add: child_registers_def Machine_WriteRegister_def ASSERT_def set_reg_def r1_def)
  have rr: "m\<lparr>mainMemory := mem, registers := \<lambda>i. if i < 40 then registers m i else r1 i\<rparr> = m\<lparr>mainMemory := mem\<rparr>"
    by (rule Machine.equality) (auto simp: r1_def)
  have r1u: "(\<lambda>i. if i < 40 then r1 i else 0) = child_start functionAddr m" by (simp add: child_start_def r1_def cong: if_cong)
  have u0: "userRegisters Thread_Thread = (\<lambda>_. 0)" by (simp add: Thread_Thread_def)
  define yj where "yj = forked a functionAddr pid (as_pcb (space_of sp y)) x mm mem m pm y"
  have "doFork a functionAddr y = Inr (pid, set_kern (with_ints_off (Scheduler_ReadyToRun (new_thread a)) (kern yj)) yj)"
    apply (simp add: doFork_def with_space_def AddrSpace_GetNumPages_def Thread_SaveUserState_def with_machine_def Let_def set_thread_def
      sp g False y1 k1 m c(1) [folded x_def] v t n n [symmetric])
    apply (simp add: cr Thread_RestoreUserState_def pm PCB_AddChild_def rr u0 r1u t t [symmetric] cong: if_cong)
    apply (simp add: yj_def forked_def PCB_AddChild_def Thread_Fork_def Thread_StackAllocate_def set_thread_def t t [symmetric])
    apply (simp add: set_pcb_def set_space_def new_AddrSpace_def set_machine_def set_kern_def r1u)
    done
  moreover have "pcbManager y1 = pm" by (simp add: pm)
  ultimately show ?thesis using c(1) [folded x_def] v(2) built by (auto simp: yj_def Let_def)
qed

lemma doFork_result:
  assumes e: "doFork a functionAddr y = Inr (r, y')" and sp: "th_space (current (kern y)) = Some sp" and iso: "isolated y" and u: "in_use sp y"
    and t: "new_thread a \<noteq> self y" and n: "new_space a \<noteq> sp"
  obtains (memory) "r = -1" "y' = y" "card (free_pages (sys_mm y)) < as_numPages (space_of sp y)"
  | (forked) x mm mem m pm y1 where "PCBManager_AllocatePCB (new_pcb a) y = Inr (r, y1)" "machine (kern y) = Some m" "as_numPages (space_of sp y) \<le> card (free_pages (sys_mm y))"
      "AddrSpace_AddrSpace_copy (space_of sp y) (old_space a) (sys_mm y) m = Inr (x, mm, m\<lparr>mainMemory := mem\<rparr>)" "as_numPages x = as_numPages (space_of sp y)"
      "space_built x (sys_mm y) mm (mainMemory m) mem" "pm = pcbManager y1"
      "y' = (let yj = forked a functionAddr r (as_pcb (space_of sp y)) x mm mem m pm y in set_kern (with_ints_off (Scheduler_ReadyToRun (new_thread a)) (kern yj)) yj)"
proof -
  have g: "MemoryManager_GetFreePageCount (sys_mm y) = Inr (int (card (free_pages (sys_mm y))))" by (simp add: MemoryManager_GetFreePageCount_def BitMap_NumClear_ok)
  show ?thesis
  proof (cases "card (free_pages (sys_mm y)) < as_numPages (space_of sp y)")
    case True
    then show ?thesis using memory e sp g by (simp add: doFork_def with_space_Inr AddrSpace_GetNumPages_def)
  next
    case False
    then obtain pid y1 where y1: "PCBManager_AllocatePCB (new_pcb a) y = Inr (pid, y1)"
      using e sp g by (auto simp: doFork_def with_space_Inr AddrSpace_GetNumPages_def result_inv)
    have k1: "kern y1 = kern y" using AllocatePCB_result [OF y1] by (metis sys_fields(1) sys.select_convs(1) sys.surjective sys.update_convs(3,5))
    obtain m where m: "machine (kern y) = Some m"
      using e sp g False y1 k1 by (auto simp: doFork_def with_space_Inr AddrSpace_GetNumPages_def result_inv Thread_SaveUserState_def split: option.splits)
    obtain x mm mem where r: "AddrSpace_AddrSpace_copy (space_of sp y) (old_space a) (sys_mm y) m = Inr (x, mm, m\<lparr>mainMemory := mem\<rparr>)"
        "as_numPages x = as_numPages (space_of sp y)" "space_built x (sys_mm y) mm (mainMemory m) mem"
        "let yj = forked a functionAddr pid (as_pcb (space_of sp y)) x mm mem m (pcbManager y1) y in
        doFork a functionAddr y = Inr (pid, set_kern (with_ints_off (Scheduler_ReadyToRun (new_thread a)) (kern yj)) yj)"
      using doFork_run [OF sp iso u t n False y1 m] by blast
    then have "pid = r" using e by (simp add: Let_def)
    then show ?thesis using forked [OF _ m _ r(1-3) refl] y1 r(4) e False by (simp add: Let_def)
  qed
qed

lemma forked_fields:
  assumes "new_thread a \<noteq> self y" "yj = forked a functionAddr pid p x mm mem m pm y"
  shows "self yj = self y" "spaces (kern yj) = (spaces (kern y))(new_space a := x\<lparr>as_pcb := new_pcb a\<rparr>)" "machine (kern yj) = Some (m\<lparr>mainMemory := mem\<rparr>)"
    "sys_mm yj = mm" "space_live yj = (space_live y)(new_space a := True)" "resumes yj = (resumes y)(new_thread a := Some ChildStart)"
    "t \<noteq> new_thread a \<Longrightarrow> stack_of t yj = stack_of t y" "t \<noteq> new_thread a \<Longrightarrow> th_space (thread_of t yj) = th_space (thread_of t y)"
    "t \<noteq> new_thread a \<Longrightarrow> th_status (thread_of t yj) = th_status (thread_of t y)" "threadToBeDestroyed (kern yj) = threadToBeDestroyed (kern y)"
    "stack_of (new_thread a) yj = [SetLevelK IntOn, BodyK pid, FinishK]" "th_space (thread_of (new_thread a) yj) = Some (new_space a)"
    "userRegisters (thread_of (new_thread a) yj) = child_start functionAddr m"
    "t \<noteq> new_thread a \<Longrightarrow> userRegisters (thread_of t yj) = (if t = self y then (\<lambda>i. if i < NumTotalRegs then registers m i else userRegisters (current (kern y)) i) else userRegisters (thread_of t y))"
    "pcb_heap yj (new_pcb a) = (PCB_PCB pid)\<lparr>pcb_thread := Some (new_thread a), parent := Some p,
       children := (if p = new_pcb a then List_Append (new_pcb a) (children (PCB_PCB pid)) else children (PCB_PCB pid))\<rparr>"
    "p \<noteq> new_pcb a \<Longrightarrow> pcb_heap yj p = (pcb_heap y p)\<lparr>children := List_Append (new_pcb a) (children (pcb_heap y p))\<rparr>"
    "q \<noteq> p \<Longrightarrow> q \<noteq> new_pcb a \<Longrightarrow> pcb_heap yj q = pcb_heap y q" "pcbManager yj = pm" "pcb_live yj = (pcb_live y)(new_pcb a := True)"
  by (simp_all add: assms(2) forked_def Let_def PCB_AddChild_def assms(1) assms(1) [symmetric])

lemma child_start_ok: "regs_ok (registers m) \<Longrightarrow> regs_ok (child_start functionAddr m)"
  by (simp add: regs_ok_def child_start_def)

lemma space_built_pcb: "space_built (x\<lparr>as_pcb := p\<rparr>) mm mm' mem mem' = space_built x mm mm' mem mem'"
  by (simp add: space_built_def)

lemma ready_goes_on:
  "goes_on s (with_ints_off (Scheduler_ReadyToRun t) s)" "t \<noteq> currentThread s \<Longrightarrow> th_stack (current (with_ints_off (Scheduler_ReadyToRun t) s)) = SetLevelK (level s) # th_stack (current s)"
  "threadToBeDestroyed (with_ints_off (Scheduler_ReadyToRun t) s) = threadToBeDestroyed s"
  by (auto simp: with_ints_off_def Interrupt_ChangeLevel_def Scheduler_ReadyToRun_def Let_def push_def Thread_setStatus_def set_thread_def goes_on_def keeps_def
      all_regs_ok_def intro!: exI [of _ "[SetLevelK (level s)]"])

lemma doFork_isolated:
  assumes iso: "isolated y" and b: "at_body (stack_of (self y) y)" and a: "fresh_alloc a y" and e: "doFork a functionAddr y = Inr (r, y')"
  shows "isolated y' \<and> spares (th_space (current (kern y))) y y' \<and> self y' = self y \<and> resumes y' (self y) = resumes y (self y)"
proof -
  obtain sp where sp: "th_space (current (kern y)) = Some sp" using e by (auto simp: doFork_def with_space_Inr)
  have u: "in_use sp y" using uses_valid [OF iso] sp at_body_has_body [OF b] by blast
  note i = iso [unfolded isolated_def]
  note th = i [THEN conjunct2, THEN conjunct1, unfolded threads_ok_def]
  have al: "th_status (thread_of (new_thread a) y) = DELETED" "\<not> space_live y (new_space a)" "\<And>t. th_space (thread_of t y) \<noteq> Some (new_space a)"
    using a by (simp_all add: fresh_alloc_def alloc_ok_def)
  have t: "new_thread a \<noteq> self y" using al(1) th by auto
  have n: "new_space a \<noteq> sp" using al(2) u by (auto simp: in_use_def)
  show ?thesis
  proof (cases rule: doFork_result [OF e sp iso u t n])
    case 1
    then show ?thesis using iso by simp
  next
    case (2 x mm mem m pm y1)
    define yj where "yj = forked a functionAddr r (as_pcb (space_of sp y)) x mm mem m pm y"
    note f = forked_fields [OF t yj_def]
    let ?x = "x\<lparr>as_pcb := new_pcb a\<rparr>" and ?m = "m\<lparr>mainMemory := mem\<rparr>"
    let ?n = "new_AddrSpace (new_space a) ?x mm ?m y"
    have built: "space_built ?x (sys_mm y) mm (mainMemory m) (mainMemory ?m)" using 2(6) by (simp add: space_built_pcb)
    have v: "as_valid ?x" using built by (simp add: space_built_def)
    have eq: "in_use q yj = in_use q ?n" "space_of q yj = space_of q ?n" for q by (simp_all add: in_use_def f(2,5))
    have nu: "in_use q yj \<longleftrightarrow> q = new_space a \<or> in_use q y" "in_use q y \<Longrightarrow> space_of q yj = space_of q y" for q
      using new_in_use [OF al(2)] v eq by auto
    have mem: "memory_ok yj" using new_memory_ok [OF _ al(2) built, of ?m] i by (simp add: memory_ok_def eq f(4))
    have rm: "machine_ok (Some m)" "\<And>t. regs_ok (userRegisters (thread_of t y))" using i 2(2) by (simp_all add: all_regs_ok_def)
    then have rm': "regs_ok (registers m)" "tlb m = None" by (simp_all add: machine_ok_def)
    have "isolated yj"
    proof (rule joined_isolated [OF iso mem al(3), of "new_thread a"])
      show "in_use q yj \<and> space_of q yj = space_of q y" if "in_use q y" for q using nu that by blast
      show "q = new_space a \<or> space_live y q" if "space_live yj q" for q using that f(5) by (auto split: if_splits)
      show "in_use (new_space a) yj" using nu by blast
      show "threadToBeDestroyed (kern y) \<noteq> Some (new_thread a)" using al(1) th by auto
      show "th_status (current (kern yj)) \<noteq> DELETED" using f(1) f(9) [of "self y"] t th by auto
      have "unrestored (new_thread a) yj" using f(6) by (simp add: unrestored_def)
      moreover have "loaded q yj" if "in_use q y" "loaded q y" for q
      proof -
        have "space_of q yj = space_of q y" using nu(2) that(1) .
        then show ?thesis using that(2) 2(2) f(3) by (simp add: loaded_def)
      qed
      ultimately show "if new_thread a = self y then loaded (new_space a) yj else unrestored (new_thread a) yj \<and> (\<forall>q. in_use q y \<and> loaded q y \<longrightarrow> loaded q yj)"
        using t by simp
      have "regs_ok (userRegisters (thread_of t' yj))" for t'
        using f(13) f(14) [of t'] rm(2) [of t'] rm' child_start_ok by (cases "t' = new_thread a") (simp_all add: regs_ok_def)
      then show "all_regs_ok (kern yj)" using rm' f(3) by (simp add: all_regs_ok_def machine_ok_def)
    qed (use f in simp_all)
    moreover have "at_body (stack_of (self yj) yj)" using b f(1) f(7) [of "self y"] t by simp
    moreover have y': "y' = set_kern (with_ints_off (Scheduler_ReadyToRun (new_thread a)) (kern yj)) yj" using 2(8) by (simp add: Let_def yj_def)
    ultimately have "isolated y'" using goes_on_isolated ready_goes_on by metis
    moreover have "spares c y yj" for c
    proof (rule spares_after)
      show "spares c y ?n" using new_spares [OF iso al(2) built 2(2)] .
    qed (use f in \<open>simp_all add: memory_def\<close>)
    then have "spares c y y'" for c using spares_trans [OF _ goes_on_spares [OF ready_goes_on(1)]] y' nu by blast
    moreover have "self y' = self y \<and> resumes y' (self y) = resumes y (self y)"
      using y' f(1,6) t by (simp add: with_ints_off_def Interrupt_ChangeLevel_def Scheduler_ReadyToRun_def Let_def push_def Thread_setStatus_def set_thread_def)
    ultimately show ?thesis by blast
  qed
qed

section \<open>Returning to the user program\<close>

lemma back_to_user_keeps:
  assumes "isolated y" "at_body (stack_of (self y) y)"
  shows "isolated (back_to_user y)" "spaces (kern (back_to_user y)) = spaces (kern y)" "space_live (back_to_user y) = space_live y" "memory (back_to_user y) = memory y"
proof -
  have g: "goes_on (kern y) (push [TickK] ((kern y)\<lparr>int_status := UserMode\<rparr>))" by (rule goes_on_push') simp_all
  show "isolated (back_to_user y)" unfolding back_to_user_def
    by (rule goes_on_isolated [OF assms g]) (simp add: push_def set_thread_def)
  show "spaces (kern (back_to_user y)) = spaces (kern y)" "space_live (back_to_user y) = space_live y" "memory (back_to_user y) = memory y"
    by (simp_all add: back_to_user_def push_def set_thread_def memory_def)
qed

lemma back_to_user_isolated:
  "isolated y1 \<Longrightarrow> at_body (stack_of (self y1) y1) \<Longrightarrow> spares c y y1 \<Longrightarrow> isolated (back_to_user y1) \<and> spares c y (back_to_user y1)"
  using back_to_user_keeps spares_after by blast

lemma returned_isolated:
  assumes "isolated y1" "at_body (stack_of (self y1) y1)" "spares c y y1" "registers_only y1 y2"
  shows "isolated (back_to_user y2) \<and> spares c y (back_to_user y2)"
proof (rule back_to_user_isolated)
  note r = registers_only_keeps [OF assms(4)]
  show "isolated y2" using r(1) assms(1) by blast
  show "at_body (stack_of (self y2) y2)" using r(3,4) assms(2) by simp
  have "memory y2 = memory y1" using assms(4) by (auto simp: registers_only_def memory_def)
  then show "spares c y y2" by (rule spares_after [OF assms(3) r(5,6)])
qed

lemma finish_call_returned:
  assumes "finish_call (return_value (v, y1)) = Inr y'" "isolated y1" "at_body (stack_of (self y1) y1)" "spares c y y1"
  shows "isolated y' \<and> spares c y y'"
  using assms(1) returned_isolated [OF assms(2-4)] return_value_registers [of "(v, y1)"] by (auto simp: finish_call_def result_inv)

lemma set_resume_fields [simp]: "kern (set_resume r y) = kern y" "sys_mm (set_resume r y) = sys_mm y" "space_live (set_resume r y) = space_live y"
  "pcb_heap (set_resume r y) = pcb_heap y" "resumes (set_resume r y) = (resumes y)(self y := r)"
  by (simp_all add: set_resume_def)

lemma set_resume_isolated:
  assumes "isolated y" "resumes y (self y) \<noteq> Some ChildStart"
  shows "isolated (set_resume r y)" "spares c y (set_resume r y)"
proof -
  let ?y = "set_resume r y"
  have "memory_ok ?y = memory_ok y" "threads_ok ?y = threads_ok y" by (simp_all add: memory_ok_def threads_ok_def in_use_def)
  moreover have "loaded sp ?y = loaded sp y" for sp by (simp add: loaded_def)
  moreover have "unrestored t y \<Longrightarrow> unrestored t ?y" for t using assms(2) by (auto simp: unrestored_def)
  then have "paging_ok y \<Longrightarrow> paging_ok ?y" using calculation(3) unfolding paging_ok_def by (metis set_resume_fields(1))
  ultimately show "isolated ?y" using assms(1) by (simp add: isolated_def)
  show "spares c y ?y" by (rule spares_same) (simp_all add: memory_def)
qed

lemma yield_call_isolated:
  assumes "isolated y" "at_body (stack_of (self y) y)" "resumes y (self y) \<noteq> Some ChildStart"
  shows "isolated (yield_call r y) \<and> spares c y (yield_call r y)"
proof -
  have g: "goes_on (kern y) (push [YieldK] (kern y))" by (rule goes_on_push) simp
  have p: "self (set_kern (push [YieldK] (kern y)) y) = self y" "threadToBeDestroyed (push [YieldK] (kern y)) = threadToBeDestroyed (kern y)" by (simp_all add: push_def set_thread_def)
  have i: "isolated (set_kern (push [YieldK] (kern y)) y)" using goes_on_isolated [OF assms(1,2) g p(2)] .
  have n: "resumes (set_kern (push [YieldK] (kern y)) y) (self (set_kern (push [YieldK] (kern y)) y)) \<noteq> Some ChildStart" using assms(3) p(1) by simp
  have "spares c y (yield_call r y)" by (rule spares_same) (simp_all add: yield_call_def push_def set_thread_def memory_def)
  then show ?thesis using set_resume_isolated(1) [OF i n] by (simp add: yield_call_def)
qed

lemma join_round_isolated:
  assumes iso: "isolated y" and b: "at_body (stack_of (self y) y)" and r: "resumes y (self y) \<noteq> Some ChildStart" and j: "join_round j y = Inr y'"
  shows "isolated y' \<and> spares c y y'"
proof (cases "PCB_HasExited (pcb_heap y j)")
  case False
  then have "y' = yield_call (JoinLoop j) y" using j by (auto simp: join_round_def doJoin_loop_def)
  then show ?thesis using yield_call_isolated [OF iso b r] by simp
next
  case True
  then obtain y1 where y1: "PCB_destroy j y = Inr y1" "finish_call (return_value (exitStatus (pcb_heap y j), y1)) = Inr y'"
    using j by (auto simp: join_round_def doJoin_loop_def result_inv Let_def)
  have d: "isolated y1" "unaffected y y1" using PCB_destroy_isolated [OF iso y1(1)] by simp_all
  show ?thesis by (rule finish_call_returned [OF y1(2) d(1) _ unaffected_spares [OF d(2)]]) (use d(2) b in \<open>simp add: unaffected_def\<close>)
qed

lemma childFunction_isolated:
  assumes iso: "isolated y" and b: "at_body (stack_of (self y) y)" and e: "childFunction (set_resume None y) = Inr y'"
  shows "isolated y' \<and> spares c y y'"
proof -
  obtain m r sp where m: "machine (kern y) = Some m" "th_space (current (kern y)) = Some sp"
      "r = (\<lambda>i. if i < NumTotalRegs then userRegisters (current (kern y)) i else registers m i)"
      "y' = set_kern ((kern y)\<lparr>machine := Some (AddrSpace_RestoreState (space_of sp y) (m\<lparr>registers := r\<rparr>)), int_status := UserMode\<rparr>) (set_resume None y)"
    using e by (auto simp: childFunction_def result_inv Thread_RestoreUserState_def with_space_Inr restore_space_def with_machine_Inr Machine_Run_def
        set_machine_def Let_def split: option.splits)
  have f: "spaces (kern y') = spaces (kern y)" "threads (kern y') = threads (kern y)" "self y' = self y" "threadToBeDestroyed (kern y') = threadToBeDestroyed (kern y)"
      "space_live y' = space_live y" "sys_mm y' = sys_mm y" "resumes y' = (resumes y)(self y := None)"
      "machine (kern y') = Some (AddrSpace_RestoreState (space_of sp y) (m\<lparr>registers := r\<rparr>))" by (simp_all add: m(4))
  have "memory_ok y' = memory_ok y" "threads_ok y' = threads_ok y" by (simp_all add: memory_ok_def threads_ok_def in_use_def f)
  moreover have "paging_ok y'" unfolding paging_ok_def
  proof (intro allI impI)
    fix t q assume u: "uses_space t q y'"
    show "if t = self y' then unrestored t y' \<or> loaded q y' else unrestored t y'"
    proof (cases "t = self y")
      case True
      then have "q = sp" using u m(2) f by simp
      then show ?thesis using True f by (simp add: loaded_def AddrSpace_RestoreState_def)
    next
      case False
      have "uses_space t q y" using u f by simp
      then have "unrestored t y" using iso False unfolding isolated_def paging_ok_def by metis
      then show ?thesis using False f by (simp add: unrestored_def)
    qed
  qed
  moreover have "all_regs_ok (kern y')" using iso m(1,3) f by (simp add: isolated_def all_regs_ok_def machine_ok_def regs_ok_def AddrSpace_RestoreState_def)
  moreover have "spares c y y'" by (rule spares_same) (use m(1) f in \<open>simp_all add: memory_def AddrSpace_RestoreState_def\<close>)
  ultimately show ?thesis using iso by (simp add: isolated_def)
qed

section \<open>The exception handler\<close>

lemma with_kernel_field: "same_sys y (set_kern s y) \<Longrightarrow> isolated y \<Longrightarrow> isolated (set_kern s y)"
  using same_sys_isolated by blast

lemma same_kernel_sys: "same_kernel (kern y) s \<Longrightarrow> same_sys y (set_kern s y)"
  by (simp add: same_sys_def)

lemma ExceptionHandler_isolated:
  assumes iso: "isolated y" and b: "at_body (stack_of (self y) y)" and r: "resumes y (self y) = None" and a: "fresh_alloc a y"
    and e: "ExceptionHandler a which y = Inr y'"
  shows "isolated y' \<and> spares (th_space (current (kern y))) y y'"
proof -
  let ?c = "th_space (current (kern y))"
  have nc: "resumes y (self y) \<noteq> Some ChildStart" using r by simp
  obtain m where m: "machine (kern y) = Some m" using e by (auto simp: ExceptionHandler_def with_machine_Inr)
  define type where "type = registers m 2"
  define arg where "arg = registers m 4"
  have h: "which = SyscallException" "(if type = SC_Halt then Inr (set_kern ((kern y)\<lparr>halted := True\<rparr>) y)
     else if type = SC_Exit then rbind (doExit (sint arg) y) (\<lambda>(returned, y1). Inr (if returned then back_to_user y1 else y1))
     else if type = SC_Fork then rbind (doFork a arg y) (\<lambda>(r, y1). Inr (set_resume (Some (ForkDone r)) y1))
     else if type = SC_Exec then rbind (readString arg y) (\<lambda>fileName. rbind (doExec a fileName y) (\<lambda>(r, y1).
       rbind (incrementPC y1) (\<lambda>y2. Inr (Machine_Run y2))))
     else if type = SC_Join then rbind (doJoin (sint arg) y) (\<lambda>r. case r of
         Inl v \<Rightarrow> finish_call (return_value (v, y))
       | Inr j \<Rightarrow> join_round j y)
     else if type = SC_Kill then rbind (doKill (sint arg) y) (\<lambda>(r, y1). case r of None \<Rightarrow> Inr y1
       | Some v \<Rightarrow> finish_call (return_value (v, y1)))
     else if type = SC_Yield then with_space (\<lambda>sp. Inr (yield_call YieldDone y)) y
     else if type = SC_Create then rbind (readString arg y) (\<lambda>fileName. finish_call (rbind (stub_Create fileName y) incrementPC))
     else Inl Assertion) = Inr y'"
    using e m by (auto simp: ExceptionHandler_def with_machine_Inr Machine_ReadRegister_def ASSERT_def type_def arg_def split: if_splits)
  consider (halt) "type = SC_Halt" | (exit) "type = SC_Exit" "type \<noteq> SC_Halt" | (fork) "type = SC_Fork" "type \<notin> {SC_Halt, SC_Exit}"
    | (exec) "type = SC_Exec" "type \<notin> {SC_Halt, SC_Exit, SC_Fork}" | (join) "type = SC_Join" "type \<notin> {SC_Halt, SC_Exit, SC_Fork, SC_Exec}"
    | (kill) "type = SC_Kill" "type \<notin> {SC_Halt, SC_Exit, SC_Fork, SC_Exec, SC_Join}"
    | (yield) "type = SC_Yield" "type \<notin> {SC_Halt, SC_Exit, SC_Fork, SC_Exec, SC_Join, SC_Kill}"
    | (create) "type = SC_Create" "type \<notin> {SC_Halt, SC_Exit, SC_Fork, SC_Exec, SC_Join, SC_Kill, SC_Yield}"
    using h(2) by (auto split: if_splits)
  then show ?thesis
  proof cases
    case halt
    then have y': "y' = set_kern ((kern y)\<lparr>halted := True\<rparr>) y" using h(2) by simp
    have "same_sys y y'" unfolding y' by (rule same_kernel_sys) (simp add: same_kernel_def)
    then show ?thesis using same_sys_isolated iso unaffected_spares [OF same_unaffected] by blast
  next
    case exit
    then obtain ret y1 where y1: "doExit (sint arg) y = Inr (ret, y1)" "y' = (if ret then back_to_user y1 else y1)"
      using h(2) by (auto simp: result_inv)
    then show ?thesis using doExit_isolated [OF iso b y1(1)] back_to_user_isolated [OF iso b spares_refl] by auto
  next
    case fork
    then obtain v y1 where y1: "doFork a arg y = Inr (v, y1)" "y' = set_resume (Some (ForkDone v)) y1" using h(2) by (auto simp: result_inv)
    have f: "isolated y1" "spares ?c y y1" "self y1 = self y" "resumes y1 (self y) = resumes y (self y)" using doFork_isolated [OF iso b a y1(1)] by simp_all
    have "isolated y'" using set_resume_isolated(1) [OF f(1)] f(3,4) nc y1(2) by simp
    moreover have "spares ?c y y'" using f(2) by (rule spares_after) (simp_all add: y1(2) memory_def)
    ultimately show ?thesis by blast
  next
    case exec
    then obtain name v y1 y2 where y1: "doExec a name y = Inr (v, y1)" "incrementPC y1 = Inr y2" "y' = Machine_Run y2"
      using h(2) by (auto simp: result_inv)
    note d = doExec_isolated [OF iso b a y1(1)] and p = incrementPC_registers [OF y1(2)]
    have "same_sys y2 y'" unfolding y1(3) Machine_Run_def by (rule same_kernel_sys) (simp add: same_kernel_def)
    moreover have "isolated y2" using registers_only_keeps(1) [OF p] d by blast
    moreover have "spares ?c y y'"
    proof (rule spares_after)
      show "spares ?c y y1" using d by blast
      have "memory y2 = memory y1" using p by (auto simp: registers_only_def memory_def)
      then show "memory y' = memory y1" by (simp add: y1(3) Machine_Run_def memory_def)
    qed (use registers_only_keeps [OF p] in \<open>simp_all add: y1(3) Machine_Run_def\<close>)
    ultimately show ?thesis using same_sys_isolated by blast
  next
    case join
    then obtain v where v: "doJoin (sint arg) y = Inr v" "(case v of Inl v \<Rightarrow> finish_call (return_value (v, y)) | Inr j \<Rightarrow> join_round j y) = Inr y'"
      using h(2) by (auto simp: result_inv)
    then show ?thesis using finish_call_returned [OF _ iso b spares_refl] join_round_isolated [OF iso b nc] by (cases v) auto
  next
    case kill
    then obtain v y1 where y1: "doKill (sint arg) y = Inr (v, y1)" "(case v of None \<Rightarrow> Inr y1 | Some v \<Rightarrow> finish_call (return_value (v, y1))) = Inr y'"
      using h(2) by (auto simp: result_inv)
    note k = doKill_isolated [OF iso b y1(1)]
    show ?thesis
    proof (cases v)
      case None
      then show ?thesis using k y1(2) by simp
    next
      case (Some w)
      then have f: "finish_call (return_value (w, y1)) = Inr y'" using y1(2) by simp
      have "isolated y1" "spares ?c y y1" "at_body (stack_of (self y1) y1)" using k Some by blast+
      then show ?thesis using finish_call_returned [OF f] by blast
    qed
  next
    case yield
    then have "y' = yield_call YieldDone y" using h(2) by (auto simp: with_space_Inr)
    then show ?thesis using yield_call_isolated [OF iso b nc] by simp
  next
    case create
    then obtain name y1 y2 where y1: "stub_Create name y = Inr y1" "incrementPC y1 = Inr y2" "y' = back_to_user y2"
      using h(2) by (auto simp: result_inv finish_call_def)
    have s: "same_sys y y1" using y1(1) by (auto simp: stub_Create_def ASSERT_def same_sys_def same_kernel_def split: if_splits)
    have "isolated y1" "at_body (stack_of (self y1) y1)" using same_sys_isolated [OF s] iso b s by (simp_all add: same_sys_def same_kernel_def)
    then show ?thesis using returned_isolated [OF _ _ unaffected_spares [OF same_unaffected [OF s]] incrementPC_registers [OF y1(2)]] y1(3) by blast
  qed
qed

section \<open>User instructions\<close>

lemma write_through_isolated:
  assumes iso: "isolated y" and u: "uses_space (self y) sp y" and l: "loaded sp y" and m: "machine (kern y) = Some m" and p: "paged m m1" "machine_ok (Some m1)"
  shows "isolated (write_through m1 y)" "spares (Some sp) y (write_through m1 y)" "threads (kern (write_through m1 y)) = threads (kern y)"
    "self (write_through m1 y) = self y" "resumes (write_through m1 y) = resumes y" "space_live (write_through m1 y) = space_live y" "pcb_live (write_through m1 y) = pcb_live y"
    "in_use q (write_through m1 y) = in_use q y" "threadToBeDestroyed (kern (write_through m1 y)) = threadToBeDestroyed (kern y)"
proof -
  let ?y = "write_through m1 y" and ?x = "(space_of sp y)\<lparr>as_pageTable := pageTable m1\<rparr>"
  note i = iso [unfolded isolated_def]
  have v: "in_use sp y" using uses_valid [OF iso u] by blast
  obtain pt where pt: "as_pageTable (space_of sp y) = Some pt" "length pt = as_numPages (space_of sp y)" "space_ok pt" "set (frames pt) \<inter> free_pages (sys_mm y) = {}"
    using in_use_table [OF iso v] by metis
  have mt: "pageTable m = Some pt" "pageTableSize m = of_nat (as_numPages (space_of sp y))" "tlb m = None"
    using l m pt(1) i by (auto simp: loaded_def all_regs_ok_def machine_ok_def)
  then obtain pt1 where pt1: "pageTable m1 = Some pt1" "map physicalPage pt1 = map physicalPage pt" using p(1) by (auto simp: paged_def)
  have fr: "frames pt1 = frames pt" unfolding frames_def using arg_cong [OF pt1(2), of "map unat"] by (simp add: comp_def)
  have len: "length pt1 = length pt" using map_eq_imp_length_eq [OF pt1(2)] .
  have y': "?y = set_machine m1 (set_space sp ?x y)" using u pt(1) by (simp add: write_through_def)
  show f: "threads (kern ?y) = threads (kern y)" "self ?y = self y" "resumes ?y = resumes y" "space_live ?y = space_live y" "pcb_live ?y = pcb_live y"
    "threadToBeDestroyed (kern ?y) = threadToBeDestroyed (kern y)" by (simp_all add: y' set_machine_def set_space_def set_kern_def)
  have sp: "space_of sp ?y = ?x" "q \<noteq> sp \<Longrightarrow> space_of q ?y = space_of q y" for q by (simp_all add: y')
  show iu: "in_use q ?y = in_use q y" for q using sp f(4) by (cases "q = sp") (auto simp: in_use_def)
  have tab: "\<exists>p. as_pageTable (space_of q y) = Some p \<and> frames p = frames p' \<and> length p = length p'"
    if "as_pageTable (space_of q ?y) = Some p'" "in_use q y" for q p'
    using that sp pt pt1(1) fr len by (cases "q = sp") auto
  have mm: "sys_mm ?y = sys_mm y" by (simp add: y')
  have "memory_ok ?y" unfolding memory_ok_def
  proof (intro conjI allI impI)
    show "MemoryManager_wf (sys_mm ?y)" using i mm by (simp add: memory_ok_def)
    fix q assume q: "in_use q ?y"
    obtain p where p: "as_pageTable (space_of q y) = Some p" "length p = as_numPages (space_of q y)" "space_ok p" "set (frames p) \<inter> free_pages (sys_mm y) = {}"
      using in_use_table [OF iso] q iu by metis
    show "\<exists>pt. as_pageTable (space_of q ?y) = Some pt \<and> length pt = as_numPages (space_of q ?y) \<and> space_ok pt \<and> set (frames pt) \<inter> free_pages (sys_mm ?y) = {}"
    proof (cases "q = sp")
      case True
      then show ?thesis using sp(1) pt pt1(1) fr len mm by (auto simp: space_ok_def)
    next
      case False
      then show ?thesis using sp(2) p mm by auto
    qed
  next
    fix q q' p p' assume a: "in_use q ?y \<and> in_use q' ?y \<and> q \<noteq> q' \<and> as_pageTable (space_of q ?y) = Some p \<and> as_pageTable (space_of q' ?y) = Some p'"
    then obtain r r' where "as_pageTable (space_of q y) = Some r" "frames r = frames p" "as_pageTable (space_of q' y) = Some r'" "frames r' = frames p'"
      using tab iu by metis
    moreover have "\<forall>sp sp' pt pt'. in_use sp y \<and> in_use sp' y \<and> sp \<noteq> sp' \<and> as_pageTable (space_of sp y) = Some pt \<and> as_pageTable (space_of sp' y) = Some pt'
          \<longrightarrow> set (frames pt) \<inter> set (frames pt') = {}" using i unfolding memory_ok_def by blast
    ultimately show "set (frames p) \<inter> set (frames p') = {}" using a iu by metis
  qed
  moreover have "threads_ok ?y" using i unfolding threads_ok_def by (simp add: iu f)
  moreover have "paging_ok ?y" unfolding paging_ok_def
  proof (intro allI impI)
    fix t q assume t: "uses_space t q ?y"
    then have ty: "uses_space t q y" using f(1) by simp
    have un: "unrestored t ?y = unrestored t y" using f(1,3) by (simp add: unrestored_def)
    show "if t = self ?y then unrestored t ?y \<or> loaded q ?y else unrestored t ?y"
    proof (cases "t = self y")
      case True
      then have "q = sp" using ty u by simp
      then have "loaded q ?y" using sp(1) mt p(1) by (simp add: loaded_def y' paged_def)
      then show ?thesis using True f(2) by simp
    next
      case False
      then have "unrestored t y" using i ty unfolding paging_ok_def by metis
      then show ?thesis using un False f(2) by simp
    qed
  qed
  moreover have "all_regs_ok (kern ?y)" using i p(2) f(1) by (simp add: all_regs_ok_def y')
  ultimately show "isolated ?y" by (simp add: isolated_def)
  show "spares (Some sp) y ?y" unfolding spares_def
  proof (intro allI impI)
    fix q assume q: "in_use q y \<and> in_use q ?y \<and> Some sp \<noteq> Some q"
    then have n: "q \<noteq> sp" by simp
    have "memory ?y x = memory y x" if "as_pageTable (space_of q y) = Some p'" "x div PageSize \<in> set (frames p')" for p' x
    proof -
      have "\<forall>sp sp' pt pt'. in_use sp y \<and> in_use sp' y \<and> sp \<noteq> sp' \<and> as_pageTable (space_of sp y) = Some pt \<and> as_pageTable (space_of sp' y) = Some pt'
          \<longrightarrow> set (frames pt) \<inter> set (frames pt') = {}" using i unfolding memory_ok_def by blast
      then have "set (frames pt) \<inter> set (frames p') = {}" using v q n that(1) pt(1) by metis
      then have "x div PageSize \<notin> set (frames pt)" using that(2) by blast
      moreover have "table_frames m = set (frames pt)" using mt(1) by (simp add: table_frames_def frames_def)
      ultimately have "mainMemory m1 x = mainMemory m x" using p(1) mt(3) by (auto simp: paged_def)
      then show ?thesis using m by (simp add: memory_def y')
    qed
    then show "space_of q ?y = space_of q y \<and> (\<forall>pt x. as_pageTable (space_of q y) = Some pt \<and> x div PageSize \<in> set (frames pt) \<longrightarrow> memory ?y x = memory y x)"
      using sp(2) [OF n] by blast
  qed
qed

lemma user_step_isolated:
  assumes iso: "isolated y" and b: "at_body (stack_of (self y) y)" and r: "resumes y (self y) = None" and a: "fresh_alloc a y"
    and sp: "th_space (current (kern y)) = Some sp" and e: "user_step a y = Inr y'"
  shows "isolated y' \<and> spares (Some sp) y y'"
proof -
  obtain m oc where m: "machine (kern y) = Some m" "Machine_OneInstruction m = Inr oc" using e by (auto simp: user_step_def result_inv)
  have u: "uses_space (self y) sp y" using sp at_body_has_body [OF b] by simp
  have "\<not> unrestored (self y) y" using at_body_cases [OF b] r by (auto simp: unrestored_def)
  then have l: "loaded sp y" using iso u unfolding isolated_def paging_ok_def by metis
  obtain pt where pt: "as_pageTable (space_of sp y) = Some pt" "length pt = as_numPages (space_of sp y)"
    using in_use_table [OF iso] uses_valid [OF iso u] by metis
  have ok: "machine_ok (Some m)" using iso m(1) by (simp add: isolated_def all_regs_ok_def)
  have "unat (of_nat (length pt) :: 32 word) \<le> length pt" by (simp add: unsigned_of_nat)
  then have "mmu_ok m" using l m(1) pt ok by (simp add: mmu_ok_def loaded_def machine_ok_def)
  then have "cpu_ok m" using ok by (simp add: cpu_ok_def load_pending_ok_def machine_ok_def regs_ok_def)
  note p = Machine_OneInstruction_paged [OF this]
  have good: "machine_ok (Some m1)" if "paged m m1" "cpu_ok m1" for m1
    using that ok by (simp add: paged_def machine_ok_def cpu_ok_def load_pending_ok_def regs_ok_def)
  show ?thesis
  proof (cases oc)
    case (Returned m1)
    then have m1: "paged m m1" "machine_ok (Some m1)" using p m(2) good by simp_all
    note w = write_through_isolated [OF iso u l m(1) m1]
    let ?y1 = "write_through m1 y"
    have y': "y' = set_kern (push [TickK] (kern ?y1)) ?y1" using e m Returned by (simp add: user_step_def with_machine_def)
    have g: "goes_on (kern ?y1) (push [TickK] (kern ?y1))" by (rule goes_on_push) simp
    have "isolated y'" unfolding y' by (rule goes_on_isolated [OF w(1) _ g]) (use b w(3,4) in \<open>simp_all add: push_def set_thread_def\<close>)
    moreover have "spares (Some sp) y y'" using w(2) by (rule spares_after) (simp_all add: y' push_def set_thread_def memory_def)
    ultimately show ?thesis by blast
  next
    case (Trapped which m1)
    then have m1: "paged m m1" "machine_ok (Some m1)" using p m(2) good by simp_all
    note w = write_through_isolated [OF iso u l m(1) m1]
    let ?y1 = "write_through m1 y"
    let ?y2 = "set_kern ((kern ?y1)\<lparr>int_status := SystemMode\<rparr>) ?y1"
    have x: "ExceptionHandler a which ?y2 = Inr y'" using e m Trapped by (simp add: user_step_def with_machine_def Let_def)
    have s: "same_sys ?y1 ?y2" by (rule same_kernel_sys) (simp add: same_kernel_def)
    have f: "self ?y2 = self y" "threads (kern ?y2) = threads (kern y)" "resumes ?y2 = resumes y" using w(3-5) by simp_all
    have i2: "isolated ?y2" using same_sys_isolated [OF s] w(1) by simp
    have b2: "at_body (stack_of (self ?y2) ?y2)" "resumes ?y2 (self ?y2) = None" using b r f by simp_all
    have a2: "fresh_alloc a ?y2" using a w(3,6,7) by (simp add: fresh_alloc_def alloc_ok_def set_kern_def)
    have "isolated y'" "spares (Some sp) ?y2 y'" using ExceptionHandler_isolated [OF i2 b2 a2 x] sp f by simp_all
    moreover have "spares (Some sp) y ?y2" using w(2) by (rule spares_after) (simp_all add: memory_def)
    moreover have "in_use q ?y2 = in_use q y" for q using w(8) [of q] by (simp add: in_use_def)
    ultimately show ?thesis using spares_trans by blast
  qed
qed

section \<open>Starting a program\<close>

text \<open>A thread that runs user instructions has an address space that was loaded: no program has gone on after a failed \<open>Exec\<close> or \<open>StartProcess\<close>.\<close>

definition runs_own_space :: "sys \<Rightarrow> bool" where
  "runs_own_space y \<longleftrightarrow> (at_body (stack_of (self y) y) \<and> resumes y (self y) = None \<and> int_status (kern y) = UserMode
     \<longrightarrow> (\<exists>sp. th_space (current (kern y)) = Some sp \<and> as_valid (space_of sp y)))"

lemma StartProcess_isolated:
  assumes iso: "isolated y" and b: "at_body (stack_of (self y) y)" and r: "resumes y (self y) = None" and a: "fresh_alloc a y"
    and n: "th_space (current (kern y)) = None" and e: "StartProcess a filename y = Inr y'" and ok: "runs_own_space y'"
  shows "isolated y' \<and> spares c y y'"
proof (cases "stub_Open filename y")
  case None
  then show ?thesis using e iso by (simp add: StartProcess_def)
next
  case (Some f)
  let ?n = "new_space a"
  obtain y1 y3 y4 where s: "AddrSpace_AddrSpace a f y = Inr y1" "init_registers ?n (set_thread_space (self y1) (Some ?n) y1) = Inr y3"
      "restore_space ?n y3 = Inr y4" "y' = Machine_Run y4"
    using e Some by (auto simp: StartProcess_def result_inv Let_def)
  obtain m x h where m: "machine (kern y) = Some m" "load_check (hostBigEndian m) (old_header a) (stub_ReadAt f) (sys_mm y) (old_space a) = Inr (x, h)"
    using s(1) by (auto simp: AddrSpace_AddrSpace_def result_inv)
  have al: "\<not> space_live y ?n" "\<And>t. th_space (thread_of t y) \<noteq> Some ?n" using a by (simp_all add: fresh_alloc_def alloc_ok_def)
  have same: "same_sys y4 y'" unfolding s(4) Machine_Run_def by (rule same_kernel_sys) (simp add: same_kernel_def)
  show ?thesis
  proof (cases h)
    case None
    then have y1: "y1 = new_AddrSpace ?n x (sys_mm y) m y" using s(1) m by (simp add: AddrSpace_AddrSpace_def with_machine_def)
    have inv: "\<not> as_valid x" using load_check_result [OF m(2)] None by simp
    note g = registers_only_keeps [OF init_registers_registers [OF s(2)]]
    have "self y' = self y" "stack_of (self y) y' = stack_of (self y) y" "resumes y' = resumes y" "int_status (kern y') = UserMode"
        "th_space (current (kern y')) = Some ?n" "space_of ?n y' = x"
      using s(3,4) g(3-7) y1 by (auto simp: restore_space_def with_machine_Inr Machine_Run_def set_thread_def)
    then have False using ok b r inv by (simp add: runs_own_space_def)
    then show ?thesis ..
  next
    case (Some noffH)
    obtain pid y0 where y0: "PCBManager_AllocatePCB (new_pcb a) y = Inr (pid, y0)"
      using s(1) m Some by (auto simp: AddrSpace_AddrSpace_def result_inv)
    define y2 where "y2 = set_pcb (new_pcb a) ((pcb_heap y0 (new_pcb a))\<lparr>pcb_thread := Some (self y0)\<rparr>) y0"
    have mm2: "sys_mm y2 = sys_mm y0" by (simp add: y2_def)
    obtain x' mm mem where l: "load_space (stub_ReadAt f) noffH (x\<lparr>as_pcb := new_pcb a\<rparr>) (sys_mm y0) (mainMemory m) = Inr (x', mm, mem)"
        "y1 = new_AddrSpace ?n x' mm (m\<lparr>mainMemory := mem\<rparr>) y2"
      using s(1) m Some y0 by (auto simp: AddrSpace_AddrSpace_def result_inv y2_def [symmetric])
    have ss: "same_sys y y2" using AllocatePCB_same [OF y0] by (simp add: y2_def)
    then have k: "machine (kern y2) = Some m" "sys_mm y2 = sys_mm y" "threads (kern y2) = threads (kern y)" "self y2 = self y" "space_live y2 = space_live y"
      "isolated y2" using m(1) same_sys_isolated [OF ss] iso by (simp_all add: same_sys_def same_kernel_def)
    have card: "as_numPages (x\<lparr>as_pcb := new_pcb a\<rparr>) \<le> card (free_pages (sys_mm y2))" using load_check_result [OF m(2)] Some k(2) by simp
    have wf: "MemoryManager_wf (sys_mm y2)" using k(6) by (simp add: isolated_def memory_ok_def)
    have built: "space_built x' (sys_mm y2) mm (mainMemory m) (mainMemory (m\<lparr>mainMemory := mem\<rparr>))" using load_space_built [OF l(1) [folded mm2] wf card stub_ReadAt_bytes] by simp
    have s2: "init_registers ?n (set_thread_space (self y2) (Some ?n) (new_AddrSpace ?n x' mm (m\<lparr>mainMemory := mem\<rparr>) y2)) = Inr y3"
      using s(2) by (simp add: l(2))
    have "isolated y4 \<and> spares c y2 y4 \<and> (\<forall>q. in_use q y4 \<longrightarrow> q = ?n \<or> in_use q y2)"
    proof -
      have "at_body (stack_of (self y2) y2)" "th_space (current (kern y2)) = None" "\<not> space_live y2 ?n" "\<And>t. th_space (thread_of t y2) \<noteq> Some ?n"
        using b n al k(3-5) by simp_all
      from entered_isolated [OF k(6) this k(1) built _ s2 s(3)] show ?thesis by simp
    qed
    moreover have "spares c y y2" using unaffected_spares [OF same_unaffected [OF ss]] .
    moreover have "in_use q y2 = in_use q y" for q using ss by (simp add: same_sys_def same_kernel_def in_use_def)
    moreover have "\<not> in_use ?n y" using al(1) by (simp add: in_use_def)
    ultimately have "isolated y4" "spares c y y4" using spares_trans by blast+
    moreover have "spares c y y'" using calculation(2) by (rule spares_after) (use same in \<open>simp_all add: same_sys_def same_kernel_def memory_def\<close>)
    ultimately show ?thesis using same_sys_isolated [OF same] by blast
  qed
qed

section \<open>Isolation\<close>

lemma resume_step_isolated:
  assumes iso: "isolated y" and b: "at_body (stack_of (self y) y)" and r: "resumes y (self y) = Some r" and e: "resume_step r (set_resume None y) = Inr y'"
  shows "isolated y' \<and> spares c y y'"
proof (cases "r = ChildStart")
  case True
  then show ?thesis using childFunction_isolated [OF iso b] e by (simp add: resume_step_def)
next
  case False
  let ?y = "set_resume None y"
  have i: "isolated ?y" "spares c y ?y" using set_resume_isolated [OF iso] False r by auto
  have b': "at_body (stack_of (self ?y) ?y)" "resumes ?y (self ?y) \<noteq> Some ChildStart" using b by simp_all
  show ?thesis
  proof (cases r)
    case ChildStart
    then show ?thesis using False by simp
  next
    case (ForkDone v)
    then show ?thesis using finish_call_returned [OF _ i(1) b'(1) i(2)] e by (simp add: resume_step_def)
  next
    case (JoinLoop j)
    then have j: "isolated y' \<and> spares c ?y y'" using join_round_isolated [OF i(1) b'] e by (simp add: resume_step_def)
    then show ?thesis using spares_trans [OF i(2), of y'] by (auto simp: in_use_def)
  next
    case YieldDone
    then obtain y2 where "incrementPC ?y = Inr y2" "y' = back_to_user y2" using e by (auto simp: resume_step_def finish_call_def result_inv)
    then show ?thesis using returned_isolated [OF i(1) b'(1) i(2) incrementPC_registers] by blast
  qed
qed

lemma exec_spares:
  assumes "kexec callHandler k (pop (kern y)) = Some (Inr s)" "isolated y" "th_stack (current (kern y)) = k # r"
  shows "spares c y (set_kern s y)"
proof (cases "k = RunRestK")
  case False
  then have "keeps (pop (kern y)) s" using kexec_effect [OF assms(1)] by (auto simp: goes_on_def switches_def)
  then show ?thesis by (intro spares_same) (auto simp: keeps_def machine_kept_def same_memory_def memory_def split: option.splits)
next
  case True
  then obtain s1 where s1: "restore_user s1 = Inr s" "spaces s1 = spaces (kern y)" "machine s1 = machine (kern y)"
    using assms(1) by (auto simp: Run_rest_def result_inv Thread_destroy_def ASSERT_def set_thread_def split: option.splits if_splits)
  then have "memory (set_kern s y) = memory y"
    by (auto simp: restore_user_def result_inv Thread_RestoreUserState_def memory_def AddrSpace_RestoreState_def split: option.splits)
  then show ?thesis using restore_user_loads(1) [OF s1(1)] s1(2) by (intro spares_same) simp_all
qed

lemma ystep_isolated:
  assumes "isolated y" "runs_own_space y" "ystep fresh_alloc y y'" "runs_own_space y'"
  shows "isolated y'" "spares (th_space (current (kern y))) y y'"
proof -
  have "isolated y' \<and> spares (th_space (current (kern y))) y y'" using assms(3)
  proof cases
    case (exec k r s)
    then show ?thesis using exec_isolated [OF assms(1)] exec_spares [OF _ assms(1)] by blast
  next
    case (user a)
    then obtain sp where sp: "th_space (current (kern y)) = Some sp" using assms(2) by (auto simp: runs_own_space_def)
    then show ?thesis using user_step_isolated [OF assms(1) user(2,3,5) sp user(6)] by simp
  next
    case (resume r)
    then show ?thesis using resume_step_isolated [OF assms(1)] by blast
  next
    case (start a filename)
    then show ?thesis using StartProcess_isolated [OF assms(1) start(2,3,6,5,7) assms(4)] by blast
  qed
  then show "isolated y'" "spares (th_space (current (kern y))) y y'" by blast+
qed

end
