(* ===== verification/Nachos_Programs.thy ===== *)
theory Nachos_Programs
  imports Nachos_Calls
begin

text \<open>
  The start of a kernel with user programs (\<^verbatim>\<open>threads/system.cc\<close> with \<^verbatim>\<open>USER_PROGRAM\<close>), and what the system calls do for the programs.
\<close>

section \<open>The start of the system\<close>

definition MAX_PROCESSES :: nat where "MAX_PROCESSES = 1024"

text \<open>
  \<open>Initialize\<close> after \<^verbatim>\<open>interrupt->Enable()\<close>. \<open>fresh\<close>, \<open>words\<close> and \<open>words'\<close> are what the memory of the new objects holds before their constructors
  run; \<open>files\<close> and \<open>writable\<close> describe the host.
\<close>

definition Initialize_user :: "bool \<Rightarrow> 32 word \<Rightarrow> 32 word list \<Rightarrow> 32 word list \<Rightarrow> (nat \<Rightarrow> PCB) \<Rightarrow> (byte list \<Rightarrow> byte list option) \<Rightarrow> (byte list \<Rightarrow> bool)
    \<Rightarrow> nachos \<Rightarrow> sys result" where
  "Initialize_user big_endian fresh words words' blocks files writable s =
     rbind (MemoryManager_MemoryManager words) (\<lambda>mm. rbind (PCBManager_PCBManager words' MAX_PROCESSES) (\<lambda>pm.
       Inr \<lparr>kern = s\<lparr>machine := Some (Machine_Machine big_endian fresh)\<rparr>, sys_mm = mm, pcbManager = pm, pcb_heap = blocks, pcb_live = (\<lambda>_. False),
         space_live = (\<lambda>_. False), host_files = files, host_writable = writable, resumes = (\<lambda>_. None)\<rparr>))"

lemma Initialize_user_ok:
  assumes "length words = 2" "length words' = 32"
  obtains y where "Initialize_user b fresh words words' blocks files writable s = Inr y" "kern y = s\<lparr>machine := Some (Machine_Machine b fresh)\<rparr>"
    "MemoryManager_wf (sys_mm y)" "free_pages (sys_mm y) = {..<NumPhysPages}" "BitMap_wf (pm_bitmap (pcbManager y))" "numBits (pm_bitmap (pcbManager y)) = MAX_PROCESSES"
    "marked (pm_bitmap (pcbManager y)) = {}" "\<And>sp. \<not> space_live y sp" "\<And>p. \<not> pcb_live y p" "resumes y = (\<lambda>_. None)" "host_files y = files" "host_writable y = writable"
    "pcbs (pcbManager y) = replicate MAX_PROCESSES None" "numItems (pm_bitmap (pcbManager y)) = MAX_PROCESSES"
proof -
  have "length words = divRoundUp NumPhysPages BitsInWord" "length words' = divRoundUp MAX_PROCESSES BitsInWord"
    by (simp_all add: assms divRoundUp_def NumPhysPages_def BitsInWord_def MAX_PROCESSES_def)
  then obtain bm bm' where bm: "BitMap_BitMap words NumPhysPages = Inr bm" "BitMap_wf bm" "numBits bm = NumPhysPages" "marked bm = {}"
      "BitMap_BitMap words' MAX_PROCESSES = Inr bm'" "BitMap_wf bm'" "numBits bm' = MAX_PROCESSES" "marked bm' = {}" "numItems bm' = MAX_PROCESSES"
    using BitMap_BitMap_ok by metis
  then have "MemoryManager_wf \<lparr>mm_bitmap = bm\<rparr>" "free_pages \<lparr>mm_bitmap = bm\<rparr> = {..<NumPhysPages}"
    by (auto simp: MemoryManager_wf_def clear_bits_def)
  then show ?thesis using that bm by (simp add: Initialize_user_def MemoryManager_MemoryManager_def PCBManager_PCBManager_def)
qed

lemma no_spaces_isolated:
  assumes "MemoryManager_wf (sys_mm y)" "\<And>sp. \<not> space_live y sp" "\<And>t. th_space (thread_of t y) = None" "\<And>t. shape (stack_of t y)"
    "th_status (current (kern y)) \<noteq> DELETED" "threadToBeDestroyed (kern y) = None" "all_regs_ok (kern y)"
  shows "isolated y"
proof -
  have "\<not> in_use sp y" for sp using assms(2) by (simp add: in_use_def)
  then show ?thesis using assms by (simp add: isolated_def memory_ok_def threads_ok_def paging_ok_def)
qed

lemma Initialize_user_isolated:
  assumes s: "Initialize ry v free ql sps d = Inr s" and y: "Initialize_user b fresh words words' blocks files writable s = Inr y" and w: "length words = 2" "length words' = 32"
  shows "isolated y" "runs_own_space y"
proof -
  obtain y' where y': "Initialize_user b fresh words words' blocks files writable s = Inr y'" "kern y' = s\<lparr>machine := Some (Machine_Machine b fresh)\<rparr>"
    "MemoryManager_wf (sys_mm y')" "\<And>sp. \<not> space_live y' sp" "resumes y' = (\<lambda>_. None)"
    using Initialize_user_ok [OF w, of b fresh blocks files writable s] by metis
  have eq: "y' = y" using y y'(1) by simp
  note k = y'(2-5) [unfolded eq]
  have t: "threads s = (\<lambda>_. Thread_Thread\<lparr>th_status := DELETED\<rparr>)(0 := Thread_Thread\<lparr>th_status := RUNNING, th_stack := [SetLevelK IntOn, BodyK 0, FinishK]\<rparr>)"
      "currentThread s = 0" "threadToBeDestroyed s = None" using s
    by (auto simp: Initialize_def Interrupt_Interrupt_def Timer_Timer_def Interrupt_Schedule_def set_dev_def Let_def ASSERT_def Random_def split: if_splits prod.splits)
  show "isolated y"
    by (rule no_spaces_isolated) (use k t in \<open>auto simp: Thread_Thread_def all_regs_ok_def machine_ok_def regs_ok_def Machine_Machine_def\<close>)
  show "runs_own_space y" by (simp add: runs_own_space_def k(1) t)
qed

text \<open>The states of a run in which no program goes on after a failed \<open>Exec\<close>, from the start of the system.\<close>

definition sys_reachable :: "sys \<Rightarrow> bool" where
  "sys_reachable y \<longleftrightarrow> (\<exists>ry v free ql sps d s b fresh words words' blocks files writable y0. Initialize ry v free ql sps d = Inr s
     \<and> length words = 2 \<and> length words' = 32 \<and> Initialize_user b fresh words words' blocks files writable s = Inr y0
     \<and> (\<lambda>y y'. ystep fresh_alloc y y' \<and> runs_own_space y')\<^sup>*\<^sup>* y0 y)"

section \<open>The table of processes\<close>

text \<open>
  A block that can be deleted: it exists, has a number of the table, and its thread, if it is not the current one, has no address space or one
  whose page table is gone, as after \<open>Exit\<close>.\<close>

definition space_gone :: "nat \<Rightarrow> sys \<Rightarrow> bool" where
  "space_gone t y \<longleftrightarrow> (\<forall>q. th_space (thread_of t y) = Some q \<longrightarrow> as_pageTable (space_of q y) = None)"

definition reapable :: "nat \<Rightarrow> sys \<Rightarrow> bool" where
  "reapable p y \<longleftrightarrow> pcb_live y p \<and> 0 \<le> pcb_pid (pcb_heap y p) \<and> pcb_pid (pcb_heap y p) < int (numBits (pm_bitmap (pcbManager y)))
     \<and> (\<forall>t. pcb_thread (pcb_heap y p) = Some t \<longrightarrow> t = self y \<or> space_gone t y)"

definition table_ok :: "sys \<Rightarrow> bool" where
  "table_ok y \<longleftrightarrow> BitMap_wf (pm_bitmap (pcbManager y)) \<and> numItems (pm_bitmap (pcbManager y)) = numBits (pm_bitmap (pcbManager y))"

section \<open>Starting a program\<close>

lemma stub_ReadAt_reads: "reads (stub_ReadAt f) f"
  by (simp add: reads_def stub_ReadAt_def ASSERT_def)

lemma load_check_ok:
  assumes "reads readAt f" "program_ok f" "program_pages f \<le> card (free_pages mm)" "length garbage = sizeof_NoffHeader"
  shows "load_check be garbage readAt mm fresh = Inr (fresh\<lparr>as_numPages := program_pages f\<rparr>, Some (noff_of f))"
  using read_noff_ok [OF assms(1) _ assms(4), of be] assms(2) space_pages_ok [OF assms(2)] assms(3)
  by (simp add: load_check_def MemoryManager_GetFreePageCount_def BitMap_NumClear_ok program_ok_def Let_def)

lemma program_segments:
  assumes "program_ok f"
  shows "segment_fits (program_pages f) f (noff_code (noff_of f))" "segment_fits (program_pages f) f (noff_initData (noff_of f))" "in_int (int (length f))"
  using assms by (simp_all add: program_ok_def Let_def program_pages_def)

lemma zero_registers_ok: "\<forall>i \<in> set is. i < NumTotalRegs \<Longrightarrow> \<exists>m'. zero_registers is m = Inr m'"
  by (induction "is" arbitrary: m) (auto simp: Machine_WriteRegister_def ASSERT_def)

definition start_registers :: "nat \<Rightarrow> (nat \<Rightarrow> 32 word) \<Rightarrow> nat \<Rightarrow> 32 word" where
  "start_registers n r = (\<lambda>i. if i < NumTotalRegs then 0 else r i)(NextPCReg := 4, StackReg := of_nat n * of_nat PageSize - 16)"

lemma InitRegisters_ok: "AddrSpace_InitRegisters sp m = Inr (m\<lparr>registers := start_registers (as_numPages sp) (registers m)\<rparr>)"
proof -
  obtain m' where m': "zero_registers [0..<NumTotalRegs] m = Inr m'" using zero_registers_ok [of "[0..<NumTotalRegs]"] by auto
  have "registers m' = (\<lambda>i. if i < NumTotalRegs then 0 else registers m i)" "m' = m\<lparr>registers := registers m'\<rparr>" using zero_registers_Inr [OF m'] by simp_all
  then show ?thesis using m' by (simp add: AddrSpace_InitRegisters_def Machine_WriteRegister_def ASSERT_def set_reg_def start_registers_def)
       (rule Machine.equality, auto)
qed

lemma AllocatePCB_ok:
  assumes "BitMap_wf (pm_bitmap (pcbManager y))" "clear_bits (pm_bitmap (pcbManager y)) \<noteq> {}"
  obtains pm where "PCBManager_AllocatePCB p y = Inr (int (Min (clear_bits (pm_bitmap (pcbManager y)))),
     set_pcb p (PCB_PCB (int (Min (clear_bits (pm_bitmap (pcbManager y)))))) (y\<lparr>pcb_live := (pcb_live y)(p := True), pcbManager := pm\<rparr>))"
    "pcbs pm = (pcbs (pcbManager y))[Min (clear_bits (pm_bitmap (pcbManager y))) := Some p]" "BitMap_wf (pm_bitmap pm)" "numBits (pm_bitmap pm) = numBits (pm_bitmap (pcbManager y))"
    "numItems (pm_bitmap pm) = numItems (pm_bitmap (pcbManager y))" "marked (pm_bitmap pm) = insert (Min (clear_bits (pm_bitmap (pcbManager y)))) (marked (pm_bitmap (pcbManager y)))"
proof -
  let ?i = "Min (clear_bits (pm_bitmap (pcbManager y)))"
  obtain bm where bm: "BitMap_Find (pm_bitmap (pcbManager y)) = Inr (int ?i, bm)" "BitMap_wf bm"
      "numBits bm = numBits (pm_bitmap (pcbManager y))" "numItems bm = numItems (pm_bitmap (pcbManager y))"
      "marked bm = insert ?i (marked (pm_bitmap (pcbManager y)))"
    using BitMap_Find_ok [OF assms] by metis
  let ?pm = "(pcbManager y)\<lparr>pm_bitmap := bm, pcbs := (pcbs (pcbManager y))[?i := Some p]\<rparr>"
  have "PCBManager_AllocatePCB p y = Inr (int ?i, set_pcb p (PCB_PCB (int ?i)) (y\<lparr>pcb_live := (pcb_live y)(p := True), pcbManager := ?pm\<rparr>))"
    by (simp add: PCBManager_AllocatePCB_def ASSERT_def bm(1))
  then show ?thesis by (rule that) (simp_all add: bm)
qed

lemma StartProcess_ok:
  assumes "stub_Open filename y = Some f" "program_ok f" "program_pages f \<le> card (free_pages (sys_mm y))" "MemoryManager_wf (sys_mm y)"
    "BitMap_wf (pm_bitmap (pcbManager y))" "clear_bits (pm_bitmap (pcbManager y)) \<noteq> {}" "length (old_header a) = sizeof_NoffHeader" "machine (kern y) = Some m"
  obtains y' pt m' pm where "StartProcess a filename y = Inr y'" "int_status (kern y') = UserMode" "self y' = self y"
    "threads (kern y') = (threads (kern y))(self y := (current (kern y))\<lparr>th_space := Some (new_space a)\<rparr>)" "resumes y' = resumes y" "halted (kern y') = halted (kern y)"
    "machine (kern y') = Some m'" "pageTable m' = Some pt" "pageTableSize m' = of_nat (program_pages f)" "as_pageTable (space_of (new_space a) y') = Some pt"
    "length pt = program_pages f" "set (frames pt) \<subseteq> free_pages (sys_mm y)" "free_pages (sys_mm y') = free_pages (sys_mm y) - set (frames pt)"
    "\<forall>v < program_pages f * PageSize. user_byte (mainMemory m') pt v = program_byte f (noff_of f) v"
    "registers m' = start_registers (program_pages f) (registers m)" "as_valid (space_of (new_space a) y')" "space_ok pt"
    "as_pcb (space_of (new_space a) y') = new_pcb a" "pcb_live y' = (pcb_live y)(new_pcb a := True)" "host_files y' = host_files y" "host_writable y' = host_writable y"
    "pcb_heap y' = (pcb_heap y)(new_pcb a := (PCB_PCB (int (Min (clear_bits (pm_bitmap (pcbManager y))))))\<lparr>pcb_thread := Some (self y)\<rparr>)"
    "pcbManager y' = pm" "pcbs pm = (pcbs (pcbManager y))[Min (clear_bits (pm_bitmap (pcbManager y))) := Some (new_pcb a)]" "BitMap_wf (pm_bitmap pm)"
    "numBits (pm_bitmap pm) = numBits (pm_bitmap (pcbManager y))" "numItems (pm_bitmap pm) = numItems (pm_bitmap (pcbManager y))"
    "marked (pm_bitmap pm) = insert (Min (clear_bits (pm_bitmap (pcbManager y)))) (marked (pm_bitmap (pcbManager y)))"
    "space_live y' = (space_live y)(new_space a := True)"
proof -
  let ?pid = "int (Min (clear_bits (pm_bitmap (pcbManager y))))"
  obtain pm where pm: "PCBManager_AllocatePCB (new_pcb a) y = Inr (?pid, set_pcb (new_pcb a) (PCB_PCB ?pid) (y\<lparr>pcb_live := (pcb_live y)(new_pcb a := True), pcbManager := pm\<rparr>))"
      and pmb: "pcbs pm = (pcbs (pcbManager y))[Min (clear_bits (pm_bitmap (pcbManager y))) := Some (new_pcb a)]" "BitMap_wf (pm_bitmap pm)"
    "numBits (pm_bitmap pm) = numBits (pm_bitmap (pcbManager y))" "numItems (pm_bitmap pm) = numItems (pm_bitmap (pcbManager y))"
    "marked (pm_bitmap pm) = insert (Min (clear_bits (pm_bitmap (pcbManager y)))) (marked (pm_bitmap (pcbManager y)))"
    using AllocatePCB_ok [OF assms(5,6)] by metis
  define x where "x = (old_space a)\<lparr>as_numPages := program_pages f\<rparr>"
  have lc: "load_check (hostBigEndian m) (old_header a) (stub_ReadAt f) (sys_mm y) (old_space a) = Inr (x, Some (noff_of f))"
    using load_check_ok [OF stub_ReadAt_reads assms(2,3,7)] by (simp add: x_def)
  obtain pt mm mem where l: "load_space (stub_ReadAt f) (noff_of f) (x\<lparr>as_pcb := new_pcb a\<rparr>) (sys_mm y) (mainMemory m)
        = Inr (x\<lparr>as_pcb := new_pcb a, as_pageTable := Some pt, as_valid := True\<rparr>, mm, mem)" "length pt = program_pages f" "space_ok pt"
      "set (frames pt) \<subseteq> free_pages (sys_mm y)" "free_pages mm = free_pages (sys_mm y) - set (frames pt)"
      "\<forall>v < program_pages f * PageSize. user_byte mem pt v = program_byte f (noff_of f) v"
    using load_space_ok [OF assms(4) _ stub_ReadAt_reads program_segments(3) [OF assms(2)], of "x\<lparr>as_pcb := new_pcb a\<rparr>" "noff_of f" "mainMemory m"]
      program_segments(1,2) [OF assms(2)] assms(3) by (auto simp: x_def)
  let ?x = "x\<lparr>as_pcb := new_pcb a, as_pageTable := Some pt, as_valid := True\<rparr>" and ?m = "m\<lparr>mainMemory := mem\<rparr>"
  define y2 where "y2 = set_pcb (new_pcb a) ((PCB_PCB ?pid)\<lparr>pcb_thread := Some (self y)\<rparr>) (y\<lparr>pcb_live := (pcb_live y)(new_pcb a := True), pcbManager := pm\<rparr>)"
  have p2: "set_pcb (new_pcb a) ((PCB_PCB ?pid)\<lparr>pcb_thread := Some (self y)\<rparr>) (set_pcb (new_pcb a) (PCB_PCB ?pid) (y\<lparr>pcb_live := (pcb_live y)(new_pcb a := True), pcbManager := pm\<rparr>)) = y2"
    by (simp add: y2_def set_pcb_def)
  have k2: "kern y2 = kern y" "sys_mm y2 = sys_mm y" by (simp_all add: y2_def)
  have as: "AddrSpace_AddrSpace a f y = Inr (new_AddrSpace (new_space a) ?x mm ?m y2)"
    by (simp add: AddrSpace_AddrSpace_def with_machine_def assms(8) lc pm l(1) p2)
  define m' where "m' = AddrSpace_RestoreState ?x (?m\<lparr>registers := start_registers (program_pages f) (registers m)\<rparr>)"
  define y' where "y' = Machine_Run (set_machine m' (set_thread_space (self y) (Some (new_space a)) (new_AddrSpace (new_space a) ?x mm ?m y2)))"
  have "StartProcess a filename y = Inr y'"
    using assms(1) as k2
    by (simp add: StartProcess_def init_registers_def restore_space_def with_machine_def InitRegisters_ok set_thread_def x_def m'_def y'_def set_machine_def)
  moreover have "pageTable m' = Some pt" "pageTableSize m' = of_nat (program_pages f)" "mainMemory m' = mem" "registers m' = start_registers (program_pages f) (registers m)"
    by (simp_all add: m'_def AddrSpace_RestoreState_def x_def)
  ultimately show ?thesis using that [of y' m' pt pm] l(2-6) pmb by (simp add: y'_def Machine_Run_def set_thread_def y2_def set_pcb_def set_space_def set_machine_def set_kern_def
      new_AddrSpace_def set_thread_space_def)
qed

section \<open>A sample system\<close>

definition large_program :: "byte list" where
  "large_program = concat (map word_bytes [0xbadfad, 0, 40, 4, 4, 44, 4, 8, 0, 20000]) @ [1, 2, 3, 4, 5, 6, 7, 8]"


definition sample_alloc :: alloc where
  "sample_alloc = \<lparr>new_thread = 1, new_space = 7, new_pcb = 5, old_space = \<lparr>as_pageTable = None, as_numPages = 0, as_valid = False, as_pcb = 0\<rparr>, old_header = replicate 40 0\<rparr>"

definition sample_alloc2 :: alloc where
  "sample_alloc2 = sample_alloc\<lparr>new_thread := 2, new_space := 8, new_pcb := 6\<rparr>"

lemma sample_alloc_simps [simp]:
  "new_thread sample_alloc = 1" "new_space sample_alloc = 7" "new_pcb sample_alloc = 5" "length (old_header sample_alloc) = sizeof_NoffHeader"
  "new_thread sample_alloc2 = 2" "new_space sample_alloc2 = 8" "new_pcb sample_alloc2 = 6" "length (old_header sample_alloc2) = sizeof_NoffHeader"
  by (simp_all add: sample_alloc_def sample_alloc2_def sizeof_NoffHeader_def)

definition sample_files :: "byte list \<Rightarrow> byte list option" where
  "sample_files n = (if n = [1] then Some sample_program else if n = [2] then Some large_program else None)"

lemma sys_reachable_step:
  assumes "sys_reachable y" "ystep fresh_alloc y y'" "runs_own_space y'"
  shows "sys_reachable y'"
proof -
  from assms(1) obtain ry v free ql sps d s b fresh words words' blocks files writable y0 where i: "Initialize ry v free ql sps d = Inr s" "length words = 2" "length words' = 32"
      "Initialize_user b fresh words words' blocks files writable s = Inr y0" and r: "(\<lambda>y y'. ystep fresh_alloc y y' \<and> runs_own_space y')\<^sup>*\<^sup>* y0 y"
    unfolding sys_reachable_def by blast
  have "(\<lambda>y y'. ystep fresh_alloc y y' \<and> runs_own_space y')\<^sup>*\<^sup>* y0 y'" using r assms(2,3) by (simp add: rtranclp.rtrancl_into_rtrancl)
  then show ?thesis using i unfolding sys_reachable_def by blast
qed

text \<open>The system after its start, when the thread \<open>main\<close> runs.\<close>

lemma sample_booted:
  obtains y m where "isolated y" "runs_own_space y" "sys_reachable y" "at_body (stack_of (self y) y)" "resumes y = (\<lambda>_. None)" "\<And>t. th_space (thread_of t y) = None"
    "th_status (thread_of 1 y) = DELETED" "th_status (thread_of 2 y) = DELETED" "self y = 0"
    "\<not> halted (kern y)" "int_status (kern y) = SystemMode" "machine (kern y) = Some m" "MemoryManager_wf (sys_mm y)" "free_pages (sys_mm y) = {..<64}"
    "table_ok y" "marked (pm_bitmap (pcbManager y)) = {}" "clear_bits (pm_bitmap (pcbManager y)) = {..<1024}" "pcbs (pcbManager y) = replicate 1024 None"
    "numBits (pm_bitmap (pcbManager y)) = 1024" "\<And>sp. \<not> space_live y sp" "\<And>p. \<not> pcb_live y p" "host_files y = sample_files" "host_writable y = (\<lambda>_. False)"
proof -
  have l: "length [0, 0 :: 32 word] = 2" "length (replicate 32 (0 :: 32 word)) = 32" by simp_all
  let ?pcb = "PCB_PCB 0"
  obtain y0 where y0: "Initialize_user False 0 [0, 0] (replicate 32 0) (\<lambda>_. PCB_PCB 0) sample_files (\<lambda>_. False) boot = Inr y0" "kern y0 = boot\<lparr>machine := Some (Machine_Machine False 0)\<rparr>"
    "MemoryManager_wf (sys_mm y0)" "free_pages (sys_mm y0) = {..<NumPhysPages}" "BitMap_wf (pm_bitmap (pcbManager y0))" "numBits (pm_bitmap (pcbManager y0)) = MAX_PROCESSES"
    "marked (pm_bitmap (pcbManager y0)) = {}" "\<And>sp. \<not> space_live y0 sp" "\<And>p. \<not> pcb_live y0 p" "resumes y0 = (\<lambda>_. None)" "host_files y0 = sample_files" "host_writable y0 = (\<lambda>_. False)"
    "pcbs (pcbManager y0) = replicate MAX_PROCESSES None" "numItems (pm_bitmap (pcbManager y0)) = MAX_PROCESSES"
    using Initialize_user_ok [OF l, of False 0 "\<lambda>_. PCB_PCB 0" sample_files "\<lambda>_. False" boot] by metis
  have b: "Initialize False (\<lambda>_. 0) (\<lambda>_. True) (\<lambda>c. c) (\<lambda>_. \<lparr>as_pageTable = None, as_numPages = 0, as_valid = False, as_pcb = 0\<rparr>) no_devices = Inr boot"
    by (simp add: boot_def Initialize_def Let_def)
  note iso0 = Initialize_user_isolated [OF b y0(1) l]
  define s0 where "s0 = pop (boot\<lparr>machine := Some (Machine_Machine False 0)\<rparr>)"
  have k0: "level s0 = IntOff" "int_status s0 = SystemMode" "inHandler s0 = False" "pending s0 = []" "yieldOnReturn s0 = False" "th_stack (threads s0 0) = [BodyK 0, FinishK]"
     "currentThread s0 = 0" "halted s0 = False" "\<And>t. t \<noteq> 0 \<Longrightarrow> threads s0 t = Thread_Thread\<lparr>th_status := DELETED\<rparr>" "th_space (threads s0 0) = None"
     "machine s0 = Some (Machine_Machine False 0)"
    by (simp_all add: s0_def boot_def Initialize_def Let_def Interrupt_Interrupt_def List_empty_def pop_def set_thread_def Thread_Thread_def)
  define s1 where "s1 = s0\<lparr>stats := (stats s0)\<lparr>totalTicks := totalTicks (stats s0) + SystemTick, systemTicks := systemTicks (stats s0) + SystemTick\<rparr>, pending := [], level := IntOn\<rparr>"
  have s1: "kexec callHandler (SetLevelK IntOn) s0 = Some (Inr s1)"
    using k0 by (simp add: Interrupt_SetLevel_def Interrupt_OneTick_def Let_def Interrupt_ChangeLevel_def fire_due.simps Interrupt_CheckIfDue_def after_tick_def s1_def)
  define y where "y = set_kern s1 y0"
  have k: "kern y = s1" "sys_mm y = sys_mm y0" "pcbManager y = pcbManager y0" "space_live y = space_live y0" "pcb_live y = pcb_live y0" "resumes y = resumes y0"
      "host_files y = host_files y0" "host_writable y = host_writable y0" by (simp_all add: y_def set_kern_def)
  have k1: "int_status s1 = SystemMode" "th_stack (threads s1 0) = [BodyK 0, FinishK]" "currentThread s1 = 0" "halted s1 = False" "machine s1 = Some (Machine_Machine False 0)"
     "threads s1 t = (if t = 0 then threads s0 0 else Thread_Thread\<lparr>th_status := DELETED\<rparr>)" for t
    using k0 by (simp_all add: s1_def)
  have b0: "\<not> halted (kern y0)" "th_stack (current (kern y0)) = SetLevelK IntOn # [BodyK 0, FinishK]"
    using y0(2) by (simp_all add: boot_def Initialize_def Let_def Interrupt_Interrupt_def)
  have st: "ystep fresh_alloc y0 y" unfolding y_def by (rule ystep.exec [OF b0]) (use s1 y0(2) in \<open>simp add: s0_def\<close>)
  have own: "runs_own_space y" using k1 k by (simp add: runs_own_space_def)
  have reach: "sys_reachable y" unfolding sys_reachable_def using b y0(1) l st own by blast
  have sp: "th_space (thread_of t y) = None" for t using k k1 k0 by (simp add: Thread_Thread_def)
  show ?thesis
    by (rule that [of y "Machine_Machine False 0"])
      (use ystep_isolated(1) [OF iso0 st own] own reach k k1 y0 sp in \<open>auto simp: table_ok_def clear_bits_def MAX_PROCESSES_def NumPhysPages_def Thread_Thread_def\<close>)
qed

text \<open>The system after the start of the sample program in the thread \<open>main\<close>.\<close>

lemma sample_running:
  obtains y0 y pt m where "isolated y0" "runs_own_space y0" "ystep fresh_alloc y0 y" "isolated y" "runs_own_space y" "sys_reachable y" "at_body (stack_of (self y) y)" "resumes y = (\<lambda>_. None)"
    "self y = 0" "th_space (current (kern y)) = Some 7" "as_pageTable (space_of 7 y) = Some pt" "length pt = 9" "space_ok pt" "set (frames pt) \<subseteq> {..<64}"
    "free_pages (sys_mm y) = {..<64} - set (frames pt)" "machine (kern y) = Some m" "\<forall>v < 1152. user_byte (mainMemory m) pt v = program_byte sample_program (noff_of sample_program) v"
    "as_pcb (space_of 7 y) = 5" "pcb_live y = (\<lambda>p. p = 5)" "pcb_heap y 5 = (PCB_PCB 0)\<lparr>pcb_thread := Some 0\<rparr>" "table_ok y" "reapable 5 y" "marked (pm_bitmap (pcbManager y)) = {0}"
    "clear_bits (pm_bitmap (pcbManager y)) \<noteq> {}" "pcbs (pcbManager y) = Some 5 # replicate 1023 None" "numBits (pm_bitmap (pcbManager y)) = 1024" "th_space (thread_of 1 y) = None" "alloc_ok sample_alloc2 y" "host_files y = sample_files" "host_writable y = (\<lambda>_. False)"
    "int_status (kern y) = UserMode" "th_status (thread_of 1 y) = DELETED"
proof -
  obtain y0 m0 where y0: "isolated y0" "runs_own_space y0" "sys_reachable y0" "at_body (stack_of (self y0) y0)" "resumes y0 = (\<lambda>_. None)" "\<And>t. th_space (thread_of t y0) = None"
    "th_status (thread_of 1 y0) = DELETED" "th_status (thread_of 2 y0) = DELETED" "self y0 = 0"
    "\<not> halted (kern y0)" "int_status (kern y0) = SystemMode" "machine (kern y0) = Some m0" "MemoryManager_wf (sys_mm y0)" "free_pages (sys_mm y0) = {..<64}"
    "table_ok y0" "marked (pm_bitmap (pcbManager y0)) = {}" "clear_bits (pm_bitmap (pcbManager y0)) = {..<1024}" "pcbs (pcbManager y0) = replicate 1024 None"
    "numBits (pm_bitmap (pcbManager y0)) = 1024" "\<And>sp. \<not> space_live y0 sp" "\<And>p. \<not> pcb_live y0 p" "host_files y0 = sample_files" "host_writable y0 = (\<lambda>_. False)"
    by (rule sample_booted) blast
  have f: "stub_Open [1] y0 = Some sample_program" by (simp add: stub_Open_def y0(22) sample_files_def)
  have pages: "program_pages sample_program \<le> card (free_pages (sys_mm y0))" by (simp add: sample_program_ok y0(14))
  have "0 \<in> clear_bits (pm_bitmap (pcbManager y0))" unfolding y0(17) by simp
  then have tbl: "BitMap_wf (pm_bitmap (pcbManager y0))" "clear_bits (pm_bitmap (pcbManager y0)) \<noteq> {}" "Min (clear_bits (pm_bitmap (pcbManager y0))) = 0"
    using y0(15) by (auto simp: table_ok_def intro!: Min_eqI)
  obtain y pt m pm where y: "StartProcess sample_alloc [1] y0 = Inr y" "int_status (kern y) = UserMode" "self y = self y0"
    "threads (kern y) = (threads (kern y0))(self y0 := (current (kern y0))\<lparr>th_space := Some 7\<rparr>)" "resumes y = resumes y0" "halted (kern y) = halted (kern y0)"
    "machine (kern y) = Some m" "as_pageTable (space_of 7 y) = Some pt"
    "length pt = 9" "set (frames pt) \<subseteq> {..<64}" "free_pages (sys_mm y) = {..<64} - set (frames pt)"
    "\<forall>v < 9 * PageSize. user_byte (mainMemory m) pt v = program_byte sample_program (noff_of sample_program) v"
    "as_valid (space_of 7 y)" "space_ok pt" "as_pcb (space_of 7 y) = 5" "pcb_live y = (pcb_live y0)(5 := True)" "host_files y = host_files y0" "host_writable y = host_writable y0"
    "pcb_heap y = (pcb_heap y0)(5 := (PCB_PCB (int 0))\<lparr>pcb_thread := Some (self y0)\<rparr>)"
    "pcbManager y = pm" "pcbs pm = (pcbs (pcbManager y0))[0 := Some 5]" "BitMap_wf (pm_bitmap pm)"
    "numBits (pm_bitmap pm) = numBits (pm_bitmap (pcbManager y0))" "numItems (pm_bitmap pm) = numItems (pm_bitmap (pcbManager y0))"
    "marked (pm_bitmap pm) = insert 0 (marked (pm_bitmap (pcbManager y0)))" "space_live y = (space_live y0)(7 := True)"
    by (rule StartProcess_ok [OF f sample_program_ok(1) pages y0(13) tbl(1,2) _ y0(12), of sample_alloc, unfolded tbl(3) sample_program_ok(2) sample_alloc_simps y0(14) of_nat_0, OF refl]) (rule that, assumption+)
  have own: "runs_own_space y" using y(3,4,13) by (simp add: runs_own_space_def)
  have live: "space_live y sp \<Longrightarrow> sp = 7" for sp using y0(20) y(26) by (auto split: if_splits)
  have fr: "fresh_alloc sample_alloc y0" using y0(6,7,20,21) by (simp only: fresh_alloc_def alloc_ok_def sample_alloc_simps) simp
  have st: "ystep fresh_alloc y0 y" by (rule ystep.start [where allocator = fresh_alloc, OF y0(10) y0(4) _ _ y0(6) fr y(1)]) (simp_all add: y0)
  have iso: "isolated y" using ystep_isolated(1) [OF y0(1,2) st own] .
  have reach: "sys_reachable y" using sys_reachable_step [OF y0(3) st own] .
  have "clear_bits (pm_bitmap pm) \<noteq> {}" using y(23,25) y0(16,19) by (auto simp: clear_bits_def intro!: exI [of _ 1])
  moreover have "reapable 5 y" using y0(19) y(3,16,19,20,23) by (simp add: reapable_def PCB_PCB_def)
  moreover have "alloc_ok sample_alloc2 y" using live [of 8] y(3,4,16) y0(8,9,21) by (auto simp: alloc_ok_def)
  moreover have "table_ok y" using y(20,22,23,24) y0(15) by (simp add: table_ok_def)
  moreover have "pcb_live y = (\<lambda>p. p = 5)" by (rule ext) (simp add: y(16) y0(21))
  moreover have "\<forall>v < 1152. user_byte (mainMemory m) pt v = program_byte sample_program (noff_of sample_program) v" using y(12) by (simp add: PageSize_def SectorSize_def)
  moreover have "pcbs (pcbManager y) = Some 5 # replicate 1023 None" unfolding y(20,21) y0(18) using replicate_Suc [of 1023 "None :: nat option"] by simp
  moreover have "at_body (stack_of (self y) y)" using y(3,4) y0(4) by simp
  moreover have "th_status (thread_of 1 y) = DELETED" "th_space (current (kern y)) = Some 7" "th_space (thread_of 1 y) = None" using y(3,4) y0(6,7,9) by simp_all
  ultimately show ?thesis
    by (intro that [OF y0(1,2) st iso own reach _ _ _ _ y(8,9,14,10,11,7)]) (simp_all add: y y0)
qed

lemma isolated_pcbs [simp]: "isolated (y\<lparr>pcb_heap := h, pcb_live := l, pcbManager := pm\<rparr>) = isolated y"
  by (simp add: isolated_def memory_ok_def threads_ok_def paging_ok_def in_use_def loaded_def unrestored_def)

text \<open>The sample program with a child, whose exit status is \<open>st\<close>.\<close>

lemma sample_family:
  obtains y pt where "isolated y" "at_body (stack_of (self y) y)" "resumes y (self y) = None" "th_space (current (kern y)) = Some 7" "as_pageTable (space_of 7 y) = Some pt"
    "as_pcb (space_of 7 y) = 5" "items (children (pcb_heap y 5)) = [6]" "parent (pcb_heap y 5) = None" "table_ok y" "reapable 5 y" "reapable 6 y" "pcb_live y 6"
    "pcb_heap y 6 = (PCB_PCB 1)\<lparr>parent := Some 5, pcb_thread := Some 1, exitStatus := st\<rparr>" "PCBManager_GetPCB 1 y = Inr (Some 6)" "PCBManager_GetPCB 2 y = Inr None" "self y = 0"
proof -
  obtain y0 pt where y0: "isolated y0" "at_body (stack_of (self y0) y0)" "resumes y0 = (\<lambda>_. None)"
    "self y0 = 0" "th_space (current (kern y0)) = Some 7" "as_pageTable (space_of 7 y0) = Some pt" "as_pcb (space_of 7 y0) = 5" "pcb_live y0 = (\<lambda>p. p = 5)"
    "pcb_heap y0 5 = (PCB_PCB 0)\<lparr>pcb_thread := Some 0\<rparr>" "table_ok y0" "reapable 5 y0" "marked (pm_bitmap (pcbManager y0)) = {0}"
    "pcbs (pcbManager y0) = (Some 5) # replicate 1023 None" "th_space (thread_of 1 y0) = None" "numBits (pm_bitmap (pcbManager y0)) = 1024"
    by (rule sample_running) blast
  let ?y = "y0\<lparr>pcb_heap := (pcb_heap y0)(5 := (pcb_heap y0 5)\<lparr>children := List_Append 6 List_empty\<rparr>, 6 := (PCB_PCB 1)\<lparr>parent := Some 5, pcb_thread := Some 1, exitStatus := st\<rparr>),
     pcb_live := (\<lambda>p. p = 5 \<or> p = 6), pcbManager := (pcbManager y0)\<lparr>pcbs := Some 5 # Some 6 # replicate 1022 None\<rparr>\<rparr>"
  show ?thesis
    by (rule that [of ?y pt])
      (use y0 in \<open>simp_all add: table_ok_def reapable_def space_gone_def PCB_PCB_def PCBManager_GetPCB_def List_Append_def List_empty_def\<close>)
qed

section \<open>What the system calls do\<close>

text \<open>
  C12. \<open>StartProcess\<close> with a good executable and enough free pages, in a thread without address space: it enters user mode; the program sees its code and its data at their
  addresses and zeros elsewhere, in frames that were free; it starts at address 0 with a stack at the end of its space and
  zero in the other registers, and its process control block, with the lowest free process number, names the thread.\<close>

theorem program_started:
  assumes "stub_Open filename y = Some f" "program_ok f" "program_pages f \<le> card (free_pages (sys_mm y))" "MemoryManager_wf (sys_mm y)"
    "BitMap_wf (pm_bitmap (pcbManager y))" "clear_bits (pm_bitmap (pcbManager y)) \<noteq> {}" "length (old_header a) = sizeof_NoffHeader" "machine (kern y) = Some m"
  shows "\<exists>y' pt m'. StartProcess a filename y = Inr y' \<and> int_status (kern y') = UserMode \<and> th_space (current (kern y')) = Some (new_space a)
    \<and> machine (kern y') = Some m' \<and> pageTable m' = Some pt \<and> pageTableSize m' = of_nat (program_pages f) \<and> as_pageTable (space_of (new_space a) y') = Some pt
    \<and> length pt = program_pages f \<and> set (frames pt) \<subseteq> free_pages (sys_mm y) \<and> free_pages (sys_mm y') = free_pages (sys_mm y) - set (frames pt)
    \<and> (\<forall>v < program_pages f * PageSize. user_byte (mainMemory m') pt v = program_byte f (noff_of f) v)
    \<and> registers m' = start_registers (program_pages f) (registers m)
    \<and> as_pcb (space_of (new_space a) y') = new_pcb a \<and> pcb_live y' (new_pcb a)
    \<and> pcb_heap y' (new_pcb a) = (PCB_PCB (int (Min (clear_bits (pm_bitmap (pcbManager y))))))\<lparr>pcb_thread := Some (self y)\<rparr>"
proof -
  from StartProcess_ok [OF assms] obtain y' pt m' pm where y: "StartProcess a filename y = Inr y'" "int_status (kern y') = UserMode" "self y' = self y"
    "threads (kern y') = (threads (kern y))(self y := (current (kern y))\<lparr>th_space := Some (new_space a)\<rparr>)"
    "machine (kern y') = Some m'" "pageTable m' = Some pt" "pageTableSize m' = of_nat (program_pages f)" "as_pageTable (space_of (new_space a) y') = Some pt"
    "length pt = program_pages f" "set (frames pt) \<subseteq> free_pages (sys_mm y)" "free_pages (sys_mm y') = free_pages (sys_mm y) - set (frames pt)"
    "\<forall>v < program_pages f * PageSize. user_byte (mainMemory m') pt v = program_byte f (noff_of f) v"
    "registers m' = start_registers (program_pages f) (registers m)" "as_pcb (space_of (new_space a) y') = new_pcb a" "pcb_live y' = (pcb_live y)(new_pcb a := True)"
    "pcb_heap y' = (pcb_heap y)(new_pcb a := (PCB_PCB (int (Min (clear_bits (pm_bitmap (pcbManager y))))))\<lparr>pcb_thread := Some (self y)\<rparr>)"
    by metis
  have "th_space (current (kern y')) = Some (new_space a)" using y(3,4) by simp
  then show ?thesis using y by (intro exI [of _ y'] exI [of _ pt] exI [of _ m']) simp
qed

theorem program_started_witness:
  "\<exists>y y' m' pt. StartProcess sample_alloc [1] y = Inr y' \<and> th_space (current (kern y')) = Some 7 \<and> machine (kern y') = Some m'
     \<and> as_pageTable (space_of 7 y') = Some pt \<and> user_byte (mainMemory m') pt 6 = 7"
proof -
  obtain y m where y: "MemoryManager_wf (sys_mm y)" "free_pages (sys_mm y) = {..<64}" "table_ok y" "clear_bits (pm_bitmap (pcbManager y)) = {..<1024}"
      "host_files y = sample_files" "machine (kern y) = Some m"
    by (rule sample_booted) (rule that, assumption+)
  have "0 \<in> clear_bits (pm_bitmap (pcbManager y))" unfolding y(4) by simp
  then have c: "clear_bits (pm_bitmap (pcbManager y)) \<noteq> {}" "BitMap_wf (pm_bitmap (pcbManager y))" using y(3) by (auto simp: table_ok_def)
  have f: "stub_Open [1] y = Some sample_program" "program_pages sample_program \<le> card (free_pages (sys_mm y))"
    by (simp_all add: stub_Open_def y(2,5) sample_files_def sample_program_ok)
  have "program_byte sample_program (noff_of sample_program) 6 = 7" by code_simp
  moreover have "6 < program_pages sample_program * PageSize" by (simp add: sample_program_ok PageSize_def SectorSize_def)
  ultimately show ?thesis
    using program_started [OF f(1) sample_program_ok(1) f(2) y(1) c(2,1) sample_alloc_simps(4) y(6)] unfolding sample_alloc_simps by metis
qed

section \<open>Fork\<close>




section \<open>Exit and Join\<close>

text \<open>What deleting blocks changes: the blocks themselves, their marks in the table, and the ready list.\<close>

definition reaps :: "nat set \<Rightarrow> sys \<Rightarrow> sys \<Rightarrow> bool" where
  "reaps ps y y' \<longleftrightarrow> (\<forall>q. q \<notin> ps \<longrightarrow> pcb_heap y' q = pcb_heap y q \<and> pcb_live y' q = pcb_live y q)
     \<and> spaces (kern y') = spaces (kern y) \<and> space_live y' = space_live y \<and> sys_mm y' = sys_mm y \<and> self y' = self y \<and> resumes y' = resumes y
     \<and> thread_of (self y) y' = thread_of (self y) y \<and> (\<forall>t. th_space (thread_of t y') = th_space (thread_of t y) \<or> th_space (thread_of t y') = None)
     \<and> numBits (pm_bitmap (pcbManager y')) = numBits (pm_bitmap (pcbManager y)) \<and> (table_ok y \<longrightarrow> table_ok y')
     \<and> (\<forall>q. exitStatus (pcb_heap y' q) = exitStatus (pcb_heap y q) \<and> pcb_pid (pcb_heap y' q) = pcb_pid (pcb_heap y q))"


lemma reaps_refl [simp]: "reaps ps y y"
  by (simp add: reaps_def)


lemma PCB_destroy_ok:
  assumes "pcb_live y p" "\<And>t. pcb_thread (pcb_heap y p) = Some t \<Longrightarrow> t = self y \<or> space_gone t y"
  obtains y' where "PCB_destroy p y = Inr y'" "reaps {p} y y'" "\<not> pcb_live y' p" "pcbManager y' = pcbManager y" "parent (pcb_heap y' p) = parent (pcb_heap y p)"
proof -
  define y0 where "y0 = set_pcb p ((pcb_heap y p)\<lparr>children := List_empty\<rparr>) (y\<lparr>pcb_live := (pcb_live y)(p := False)\<rparr>)"
  have k0: "kern y0 = kern y" "space_live y0 = space_live y" "sys_mm y0 = sys_mm y" "pcb_live y0 = (pcb_live y)(p := False)" "pcbManager y0 = pcbManager y" "resumes y0 = resumes y"
      "pcb_heap y0 = (pcb_heap y)(p := (pcb_heap y p)\<lparr>children := List_empty\<rparr>)" by (simp_all add: y0_def)
  show ?thesis
  proof (cases "pcb_thread (pcb_heap y p) = None \<or> pcb_thread (pcb_heap y p) = Some (self y)")
    case True
    then have "PCB_destroy p y = Inr y0" using assms(1) k0 by (auto simp: PCB_destroy_def y0_def [symmetric] Let_def)
    then show ?thesis using that k0 by (simp add: reaps_def table_ok_def)
  next
    case False
    then obtain t where t: "pcb_thread (pcb_heap y p) = Some t" "t \<noteq> self y" by auto
    define y2 where "y2 = (if th_space (thread_of t y) = None then y0 else set_thread_space t None y0)"
    define y3 where "y3 = remove_thread (Some t) y2"
    define y' where "y' = set_pcb p ((pcb_heap y3 p)\<lparr>pcb_thread := None\<rparr>) y3"
    have "space_gone t y" using assms(2) t by blast
    then have "(case th_space (thread_of t y0) of None \<Rightarrow> Inr y0
           | Some sp \<Rightarrow> rbind (if AddrSpace_GetPageTable (space_of sp y0) \<noteq> None then delete_space sp y0 else Inr y0)
               (\<lambda>y1. Inr (set_thread_space t None y1))) = Inr y2"
      by (auto simp: k0 y2_def space_gone_def AddrSpace_GetPageTable_def split: option.split)
    then have "PCB_destroy p y = Inr y'" using assms(1) t k0 by (simp add: PCB_destroy_def y0_def [symmetric] Let_def y3_def y'_def)
    moreover have "kern y2 = (if th_space (thread_of t y) = None then kern y else set_thread t ((thread_of t y)\<lparr>th_space := None\<rparr>) (kern y))" by (simp add: y2_def k0)
    then have "kern y3 = (kern y2)\<lparr>readyList := readyList (kern y3)\<rparr>" "spaces (kern y2) = spaces (kern y)" "self y2 = self y"
        "threads (kern y2) = (if th_space (thread_of t y) = None then threads (kern y) else (threads (kern y))(t := (thread_of t y)\<lparr>th_space := None\<rparr>))"
      by (simp_all add: y3_def remove_thread_def Scheduler_RemoveThread_def set_thread_def split: prod.split)
    then have k3: "spaces (kern y3) = spaces (kern y)" "self y3 = self y"
        "threads (kern y3) = (if th_space (thread_of t y) = None then threads (kern y) else (threads (kern y))(t := (thread_of t y)\<lparr>th_space := None\<rparr>))"
      by (simp_all add: y3_def remove_thread_def Scheduler_RemoveThread_def split: prod.split)
    have r3: "space_live y3 = space_live y" "sys_mm y3 = sys_mm y" "pcb_live y3 = (pcb_live y)(p := False)" "pcbManager y3 = pcbManager y" "resumes y3 = resumes y"
        "pcb_heap y3 = (pcb_heap y)(p := (pcb_heap y p)\<lparr>children := List_empty\<rparr>)"
      by (simp_all add: y3_def y2_def remove_thread_def k0)
    ultimately show ?thesis using that k3 r3 t(2) by (simp add: reaps_def table_ok_def y'_def)
  qed
qed









text \<open>
  C38. \<open>Join\<close> leaves the deleted block in the table: a second \<open>Join\<close> for the same child gets it again and uses it after its
  deletion.\<close>

theorem second_join_fails:
  assumes "th_space (current (kern y)) = Some sp" "PCBManager_GetPCB pid y = Inr (Some j)" "parent (pcb_heap y j) = Some (as_pcb (space_of sp y))" "reapable j y"
    "doJoin_loop j y = Inr (Some status, y')"
  shows "doJoin pid y' = Inr (Inr j) \<and> doJoin_loop j y' = Inl UseAfterFree"
proof -
  obtain y1 where d: "PCB_destroy j y = Inr y1" "reaps {j} y y1" "\<not> pcb_live y1 j" "pcbManager y1 = pcbManager y" "parent (pcb_heap y1 j) = parent (pcb_heap y j)"
    using PCB_destroy_ok [of y j] assms(4) by (auto simp: reapable_def)
  have y': "y' = y1" "PCB_HasExited (pcb_heap y j)" using assms(5) d(1) by (auto simp: doJoin_loop_def Let_def split: if_splits)
  have r: "self y1 = self y" "thread_of (self y) y1 = thread_of (self y) y" "spaces (kern y1) = spaces (kern y)" "PCB_HasExited (pcb_heap y1 j)"
    using d(2) y'(2) by (simp_all add: reaps_def PCB_HasExited_def)
  have "PCBManager_GetPCB pid y1 = Inr (Some j)" using assms(2) d(4) by (auto simp: PCBManager_GetPCB_def split: if_splits)
  then show ?thesis using assms(1,3) y'(1) r d(3,5) by (simp add: doJoin_def doJoin_loop_def with_space_def PCB_destroy_def)
qed

theorem second_join_fails_witness:
  "\<exists>y y'. doJoin 1 y = Inr (Inr 6) \<and> doJoin_loop 6 y = Inr (Some 3, y') \<and> doJoin 1 y' = Inr (Inr 6) \<and> doJoin_loop 6 y' = Inl UseAfterFree"
proof -
  obtain y where y: "th_space (current (kern y)) = Some 7" "as_pcb (space_of 7 y) = 5" "reapable 6 y" "pcb_heap y 6 = (PCB_PCB 1)\<lparr>parent := Some 5, pcb_thread := Some 1, exitStatus := 3\<rparr>"
    "PCBManager_GetPCB 1 y = Inr (Some 6)"
    by (rule sample_family [where st = 3]) (rule that, assumption+)
  obtain y' where d: "PCB_destroy 6 y = Inr y'" using PCB_destroy_ok [of y 6] y(3) by (auto simp: reapable_def)
  have p: "parent (pcb_heap y 6) = Some (as_pcb (space_of 7 y))" by (simp add: y(2,4))
  have j: "doJoin_loop 6 y = Inr (Some 3, y')" using d y(4) by (simp add: doJoin_loop_def PCB_HasExited_def Let_def)
  moreover have "doJoin 1 y = Inr (Inr 6)" using y(1,5) p by (simp add: doJoin_def with_space_def)
  ultimately show ?thesis using second_join_fails [OF y(1,5) p y(3) j] by blast
qed

section \<open>Kill\<close>



section \<open>Strings and exceptions\<close>

lemma user_char_ok:
  assumes "th_space (current (kern y)) = Some sp" "machine (kern y) = Some m" "as_pageTable (space_of sp y) = Some pt" "space_ok pt" "va < length pt * PageSize" "va < 2 ^ 32"
  shows "user_char (of_nat va) y = Inr (user_byte (mainMemory m) pt va)"
proof -
  obtain pa where "AddrSpace_Translate pt (of_nat va) = Inr pa" "unat pa = phys pt va" using AddrSpace_Translate_ok [OF assms(4-6)] by blast
  then show ?thesis using assms(1-3) phys_bound(1) [OF assms(4,5)] by (simp add: user_char_def with_space_def with_machine_def user_byte_def)
qed

lemma readString_from_ok:
  assumes "th_space (current (kern y)) = Some sp" "machine (kern y) = Some m" "as_pageTable (space_of sp y) = Some pt" "space_ok pt"
  shows "va + n < length pt * PageSize \<Longrightarrow> va + n < 2 ^ 32 \<Longrightarrow> \<forall>i < n. user_byte (mainMemory m) pt (va + i) \<noteq> 0 \<Longrightarrow> n \<le> k \<Longrightarrow> n = k \<or> user_byte (mainMemory m) pt (va + n) = 0
    \<Longrightarrow> readString_from k (of_nat va) y = Inr (map (\<lambda>i. user_byte (mainMemory m) pt (va + i)) [0..<n])"
proof (induction n arbitrary: va k)
  case 0
  have c: "user_char (of_nat va) y = Inr (user_byte (mainMemory m) pt va)" using user_char_ok [OF assms] 0 by simp
  then show ?case using 0 by (cases k) simp_all
next
  case (Suc n)
  then obtain k' where k: "k = Suc k'" by (cases k) simp_all
  have c: "user_char (of_nat va) y = Inr (user_byte (mainMemory m) pt va)" using user_char_ok [OF assms] Suc.prems by simp
  have z: "user_byte (mainMemory m) pt va \<noteq> 0" using Suc.prems(3) by force
  have "readString_from k' (of_nat (Suc va)) y = Inr (map (\<lambda>i. user_byte (mainMemory m) pt (Suc va + i)) [0..<n])"
    by (rule Suc.IH) (use Suc.prems k in auto)
  moreover have "(of_nat va :: 32 word) + 1 = of_nat (Suc va)" by simp
  moreover have "map (\<lambda>i. user_byte (mainMemory m) pt (va + i)) [0..<Suc n] = user_byte (mainMemory m) pt va # map (\<lambda>i. user_byte (mainMemory m) pt (Suc va + i)) [0..<n]"
    by (simp add: map_upt_Suc del: upt_Suc)
  ultimately show ?case using c z k by (simp del: of_nat_Suc upt_Suc)
qed

text \<open>
  C39. \<open>readString\<close> answers the characters of the user's memory from the given address up to the first zero, and the first 255 when
  there is no zero among them.\<close>

theorem string_read:
  assumes "th_space (current (kern y)) = Some sp" "machine (kern y) = Some m" "as_pageTable (space_of sp y) = Some pt" "space_ok pt"
    "va + n < length pt * PageSize" "va + n < 2 ^ 32" "\<forall>i < n. user_byte (mainMemory m) pt (va + i) \<noteq> 0" "n \<le> 255" "n = 255 \<or> user_byte (mainMemory m) pt (va + n) = 0"
  shows "readString (of_nat va) y = Inr (map (\<lambda>i. user_byte (mainMemory m) pt (va + i)) [0..<n])"
  unfolding readString_def using readString_from_ok [OF assms(1-4,5-9)] .

theorem string_read_witness: "\<exists>y. readString 0 y = Inr [1, 2, 3, 4, 5, 6, 7, 8]"
proof -
  obtain y pt m where y: "th_space (current (kern y)) = Some 7" "machine (kern y) = Some m" "as_pageTable (space_of 7 y) = Some pt" "space_ok pt" "length pt = 9"
     "\<forall>v < 1152. user_byte (mainMemory m) pt v = program_byte sample_program (noff_of sample_program) v"
    by (rule sample_running) (rule that, assumption+)
  have b: "map (program_byte sample_program (noff_of sample_program)) [0..<9] = [1, 2, 3, 4, 5, 6, 7, 8, 0]" by code_simp
  have "user_byte (mainMemory m) pt v = [1, 2, 3, 4, 5, 6, 7, 8, 0] ! v" if "v < 9" for v
  proof -
    have "program_byte sample_program (noff_of sample_program) v = [1, 2, 3, 4, 5, 6, 7, 8, 0] ! v" using that unfolding b [symmetric] by simp
    then show ?thesis using y(6) that by simp
  qed
  then have "map (\<lambda>i. user_byte (mainMemory m) pt (0 + i)) [0..<8] = map ((!) [1, 2, 3, 4, 5, 6, 7, 8, 0]) [0..<8]" and z: "user_byte (mainMemory m) pt (0 + 8) = 0" by simp_all
  moreover have "map ((!) [1, 2, 3, 4, 5, 6, 7, 8, 0 :: byte]) [0..<8] = [1, 2, 3, 4, 5, 6, 7, 8]" by code_simp
  ultimately have u: "map (\<lambda>i. user_byte (mainMemory m) pt (0 + i)) [0..<8] = [1, 2, 3, 4, 5, 6, 7, 8]" by simp
  have "\<forall>x \<in> set (map (\<lambda>i. user_byte (mainMemory m) pt (0 + i)) [0..<8]). x \<noteq> 0" unfolding u by simp
  then have nz: "\<forall>i < 8. user_byte (mainMemory m) pt (0 + i) \<noteq> 0" by simp
  have "readString (of_nat 0) y = Inr (map (\<lambda>i. user_byte (mainMemory m) pt (0 + i)) [0..<8])"
    by (rule string_read [OF y(1-4)]) (use nz z y(5) in \<open>simp_all add: PageSize_def SectorSize_def\<close>)
  then show ?thesis unfolding u by auto
qed



section \<open>Exec\<close>







section \<open>Every run is isolated\<close>





end
