(* ===== verification/Spec2Isabelle.thy ===== *)
theory Spec2Isabelle
  imports Nachos_HeapList Nachos_MIPS Nachos_FileSys Nachos_Concurrency Nachos_Programs
begin

text \<open>
  Nachos.
\<close>

end
